(* ===== verification/Prelude.thy ===== *)
theory Prelude
  imports Main "HOL-Library.Word"
begin

text \<open>
  Shared vocabulary of the development: the state-and-exception computations that stand for
  the coroutines of the program, the integer range of a PostgreSQL \<open>INTEGER\<close> column, and
  generic lemmas on lists and maps that several components use.

  A coroutine that reads and changes a state \<open>'s\<close>, raises an exception \<open>'e\<close> or returns
  an \<open>'a\<close> is a function \<open>'s \<Rightarrow> ('e + 'a) \<times> 's\<close>. An exception keeps the state reached so
  far, as it does in Python; whether the effects survive is decided by whoever commits or
  rolls back the transaction.
\<close>

section \<open>Collections of facts\<close>

named_theorems model_defs \<open>definitions of the operations of a component, unfolded together\<close>
named_theorems frame \<open>what an operation leaves unchanged\<close>
named_theorems inv_intros \<open>operations that keep a component's invariant\<close>

section \<open>State and exception computations\<close>

type_synonym ('s, 'e, 'a) comp = "'s \<Rightarrow> ('e + 'a) \<times> 's"

definition ret :: "'a \<Rightarrow> ('s, 'e, 'a) comp" where
  "ret x s = (Inr x, s)"

definition raise_exc :: "'e \<Rightarrow> ('s, 'e, 'a) comp" where
  "raise_exc e s = (Inl e, s)"

definition seq :: "('s, 'e, 'a) comp \<Rightarrow> ('a \<Rightarrow> ('s, 'e, 'b) comp) \<Rightarrow> ('s, 'e, 'b) comp" where
  "seq m f s = (case m s of (Inl e, s') \<Rightarrow> (Inl e, s') | (Inr x, s') \<Rightarrow> f x s')"

definition modify :: "('s \<Rightarrow> 's) \<Rightarrow> ('s, 'e, unit) comp" where
  "modify f s = (Inr (), f s)"

text \<open>\<open>try: m except e: h e\<close>, where the handler sees the exception and may raise again.\<close>

definition try_except :: "('s, 'e, 'a) comp \<Rightarrow> ('e \<Rightarrow> ('s, 'e, 'a) comp) \<Rightarrow> ('s, 'e, 'a) comp" where
  "try_except m h s = (case m s of (Inl e, s') \<Rightarrow> h e s' | (Inr x, s') \<Rightarrow> (Inr x, s'))"

text \<open>
  \<open>try: m finally: fin\<close>. The cleanup runs on both ways out; an exception it raises replaces
  the result of the body, as in Python.
\<close>

definition try_finally :: "('s, 'e, 'a) comp \<Rightarrow> ('s, 'e, 'b) comp \<Rightarrow> ('s, 'e, 'a) comp" where
  "try_finally m fin s =
     (case m s of (r, s') \<Rightarrow>
        (case fin s' of (Inl e, s'') \<Rightarrow> (Inl e, s'') | (Inr _, s'') \<Rightarrow> (r, s'')))"

text \<open>A function that raises or returns, without state, and what follows it.\<close>

definition bind_sum :: "'e + 'a \<Rightarrow> ('a \<Rightarrow> 'e + 'b) \<Rightarrow> 'e + 'b" where
  "bind_sum m f = (case m of Inl e \<Rightarrow> Inl e | Inr x \<Rightarrow> f x)"

lemma bind_sum_simps [simp]: "bind_sum (Inl e) f = Inl e" "bind_sum (Inr x) f = f x"
  by (simp_all add: bind_sum_def)

lemma bind_sum_Inr: "bind_sum m f = Inr y \<longleftrightarrow> (\<exists>x. m = Inr x \<and> f x = Inr y)"
  by (cases m) simp_all

text \<open>A computation on one half of a composed state.\<close>

definition on_fst :: "('s, 'e, 'a) comp \<Rightarrow> ('s \<times> 't, 'e, 'a) comp" where
  "on_fst m st = (case m (fst st) of (r, s') \<Rightarrow> (r, (s', snd st)))"

definition on_snd :: "('t, 'e, 'a) comp \<Rightarrow> ('s \<times> 't, 'e, 'a) comp" where
  "on_snd m st = (case m (snd st) of (r, t') \<Rightarrow> (r, (fst st, t')))"

lemma on_fst_apply [simp]: "on_fst m (s, t) = (fst (m s), (snd (m s), t))"
  by (simp add: on_fst_def split: prod.splits)

lemma on_snd_apply [simp]: "on_snd m (s, t) = (fst (m t), (s, snd (m t)))"
  by (simp add: on_snd_def split: prod.splits)

lemma ret_apply [simp]: "ret x s = (Inr x, s)"
  by (simp add: ret_def)

lemma raise_exc_apply [simp]: "raise_exc e s = (Inl e, s)"
  by (simp add: raise_exc_def)

lemma modify_apply [simp]: "modify f s = (Inr (), f s)"
  by (simp add: modify_def)

lemma seq_Inl [simp]: "m s = (Inl e, s') \<Longrightarrow> seq m f s = (Inl e, s')"
  by (simp add: seq_def)

lemma seq_Inr [simp]: "m s = (Inr x, s') \<Longrightarrow> seq m f s = f x s'"
  by (simp add: seq_def)

lemma seq_InrE:
  assumes "seq m f s = (Inr y, t)"
  obtains x s' where "m s = (Inr x, s')" and "f x s' = (Inr y, t)"
  using assms by (auto simp: seq_def split: prod.splits sum.splits)

lemma seq_InlE:
  assumes "seq m f s = (Inl e, t)"
  obtains (first) "m s = (Inl e, t)"
    | (second) x s' where "m s = (Inr x, s')" and "f x s' = (Inl e, t)"
  using assms by (auto simp: seq_def split: prod.splits sum.splits)

lemma seq_assoc: "seq (seq m f) g s = seq m (\<lambda>x. seq (f x) g) s"
  by (simp add: seq_def split: prod.splits sum.splits)

lemma try_finally_Inr:
  "fin (snd (m s)) = (Inr y, s') \<Longrightarrow> try_finally m fin s = (fst (m s), s')"
  by (cases "m s") (simp add: try_finally_def)

lemma try_finally_Inl:
  "fin (snd (m s)) = (Inl e, s') \<Longrightarrow> try_finally m fin s = (Inl e, s')"
  by (cases "m s") (simp add: try_finally_def)

lemmas comp_defs = seq_def try_except_def try_finally_def

section \<open>Integer columns\<close>

text \<open>
  A column declared \<open>Mapped[int]\<close> is a four-byte PostgreSQL \<open>INTEGER\<close>, one declared
  \<open>BigInteger\<close> an eight-byte \<open>BIGINT\<close>; a value outside the range is refused by the
  database, it never wraps.
\<close>

definition int32_ok :: "int \<Rightarrow> bool" where
  "int32_ok n \<longleftrightarrow> - (2 ^ 31) \<le> n \<and> n < 2 ^ 31"

definition int64_ok :: "int \<Rightarrow> bool" where
  "int64_ok n \<longleftrightarrow> - (2 ^ 63) \<le> n \<and> n < 2 ^ 63"

lemma int32_ok_sint: "int32_ok n \<longleftrightarrow> sint (word_of_int n :: 32 word) = n"
  using signed_take_bit_int_eq_self_iff [of 31 n] by (simp add: int32_ok_def sint_sbintrunc')

section \<open>Lists and maps\<close>

lemma map_of_map_key_eq:
  "map_of (map (\<lambda>r. (f r, r)) xs) k = find (\<lambda>r. f r = k) xs"
  by (induction xs) auto

lemma find_SomeE:
  assumes "find P xs = Some x"
  shows "P x" and "x \<in> set xs"
  using assms by (induction xs) (auto split: if_splits)

lemma find_None_iff_set: "find P xs = None \<longleftrightarrow> (\<forall>x\<in>set xs. \<not> P x)"
  by (induction xs) auto

lemma sum_fun_upd_insert:
  fixes g :: "'v \<Rightarrow> int"
  assumes "finite (dom m)" and "m k = None"
  shows "(\<Sum>j\<in>dom (m(k \<mapsto> v)). g (the ((m(k \<mapsto> v)) j))) = g v + (\<Sum>j\<in>dom m. g (the (m j)))"
proof -
  have "k \<notin> dom m" using assms(2) by auto
  moreover have "(\<Sum>j\<in>dom m. g (the ((m(k \<mapsto> v)) j))) = (\<Sum>j\<in>dom m. g (the (m j)))"
    using \<open>k \<notin> dom m\<close> by (intro sum.cong) auto
  ultimately show ?thesis using assms(1) by simp
qed

lemma sum_fun_upd_replace:
  fixes g :: "'v \<Rightarrow> int"
  assumes "finite (dom m)" and "m k = Some u"
  shows "(\<Sum>j\<in>dom (m(k \<mapsto> v)). g (the ((m(k \<mapsto> v)) j)))
         = g v - g u + (\<Sum>j\<in>dom m. g (the (m j)))"
proof -
  have k: "k \<in> dom m" using assms(2) by auto
  have "(\<Sum>j\<in>dom m. g (the ((m(k \<mapsto> v)) j)))
        = g v + (\<Sum>j\<in>dom m - {k}. g (the ((m(k \<mapsto> v)) j)))"
    using sum.remove [OF assms(1) k, of "\<lambda>j. g (the ((m(k \<mapsto> v)) j))"] by simp
  also have "(\<Sum>j\<in>dom m - {k}. g (the ((m(k \<mapsto> v)) j))) = (\<Sum>j\<in>dom m - {k}. g (the (m j)))"
    by (intro sum.cong) auto
  also have "\<dots> = (\<Sum>j\<in>dom m. g (the (m j))) - g u"
    using sum.remove [OF assms(1) k, of "\<lambda>j. g (the (m j))"] assms(2) by simp
  finally show ?thesis using k by (simp add: insert_absorb)
qed

section \<open>Background tasks\<close>

text \<open>The \<open>asyncio.Task\<close> slot of a worker: empty, a task that runs, a task that has ended.\<close>

datatype task_state = NoTask | Running | Finished

end
