(* ===== verification/Py_Std.thy ===== *)
theory Py_Std
  imports Prelude
begin

text \<open>
  The parts of Python's standard library the program relies on: string methods, \<open>str\<close> of
  an integer, and the \<open>uuid\<close> module. A Python string is a list of characters; the
  character classes are those of ASCII, so a character above 127 is caseless, not a space and
  not alphanumeric here. A \<open>uuid.UUID\<close> is its 128-bit integer value.
\<close>

section \<open>String methods\<close>

definition py_isspace :: "char \<Rightarrow> bool" where
  "py_isspace c \<longleftrightarrow> (let n = of_char c :: nat in
     (9 \<le> n \<and> n \<le> 13) \<or> (28 \<le> n \<and> n \<le> 32) \<or> n = 0x85 \<or> n = 0xA0)"

text \<open>The ASCII classes, as the character classes of patterns and of \<open>urllib\<close> have them.\<close>

definition py_isupper :: "char \<Rightarrow> bool" where
  "py_isupper c \<longleftrightarrow> (let n = of_char c :: nat in 65 \<le> n \<and> n \<le> 90)"

definition py_islower :: "char \<Rightarrow> bool" where
  "py_islower c \<longleftrightarrow> (let n = of_char c :: nat in 97 \<le> n \<and> n \<le> 122)"

definition py_isdigit :: "char \<Rightarrow> bool" where
  "py_isdigit c \<longleftrightarrow> (let n = of_char c :: nat in 48 \<le> n \<and> n \<le> 57)"

definition py_isalnum :: "char \<Rightarrow> bool" where
  "py_isalnum c \<longleftrightarrow> py_isupper c \<or> py_islower c \<or> py_isdigit c"

text \<open>The string methods on one character, which know the letters and digits of all of Latin-1.\<close>

definition char_isupper :: "char \<Rightarrow> bool" where
  "char_isupper c \<longleftrightarrow> py_isupper c \<or> (let n = of_char c :: nat in 0xC0 \<le> n \<and> n \<le> 0xDE \<and> n \<noteq> 0xD7)"

definition char_isdigit :: "char \<Rightarrow> bool" where
  "char_isdigit c \<longleftrightarrow> py_isdigit c \<or> (of_char c :: nat) \<in> set [0xB2, 0xB3, 0xB9]"

definition char_isalnum :: "char \<Rightarrow> bool" where
  "char_isalnum c \<longleftrightarrow> py_isalnum c \<or> char_isdigit c
     \<or> (let n = of_char c :: nat in n \<in> set [0xAA, 0xB5, 0xBA, 0xBC, 0xBD, 0xBE] \<or> 0xC0 \<le> n \<and> n \<noteq> 0xD7 \<and> n \<noteq> 0xF7)"

definition lower_char :: "char \<Rightarrow> char" where
  "lower_char c = (if char_isupper c then char_of ((of_char c :: nat) + 32) else c)"

definition upper_char :: "char \<Rightarrow> char" where
  "upper_char c = (if py_islower c then char_of ((of_char c :: nat) - 32) else c)"

definition py_lower :: "string \<Rightarrow> string" where
  "py_lower s = map lower_char s"

text \<open>\<open>upper()\<close> of the ASCII letters; what becomes of the others is no ASCII letter but the S of an \<open>ss\<close>.\<close>

definition py_upper :: "string \<Rightarrow> string" where
  "py_upper s = map upper_char s"

text \<open>\<open>strip\<close> with a predicate for the characters to drop at both ends.\<close>

definition py_strip_of :: "(char \<Rightarrow> bool) \<Rightarrow> string \<Rightarrow> string" where
  "py_strip_of P s = rev (dropWhile P (rev (dropWhile P s)))"

definition py_strip :: "string \<Rightarrow> string" where
  "py_strip s = py_strip_of py_isspace s"

definition py_startswith :: "string \<Rightarrow> string \<Rightarrow> bool" where
  "py_startswith s p \<longleftrightarrow> take (length p) s = p"

text \<open>\<open>pat in s\<close>.\<close>

definition contains :: "string \<Rightarrow> string \<Rightarrow> bool" where
  "contains pat s \<longleftrightarrow> list_ex (\<lambda>i. take (length pat) (drop i s) = pat) [0..<Suc (length s)]"

text \<open>
  \<open>s.splitlines()\<close>: the line boundaries of Latin-1, a carriage return and line feed counting as one; no
  empty line after a final boundary.
\<close>

definition line_break :: "char \<Rightarrow> bool" where
  "line_break c \<longleftrightarrow> (let n = of_char c :: nat in (10 \<le> n \<and> n \<le> 13) \<or> (28 \<le> n \<and> n \<le> 30) \<or> n = 0x85)"

definition skip_break :: "string \<Rightarrow> string" where
  "skip_break s = (case s of [] \<Rightarrow> []
     | c # cs \<Rightarrow> if c = CHR 0x0D \<and> take 1 cs = [CHR 0x0A] then drop 1 cs else cs)"

lemma length_skip_break: "s \<noteq> [] \<Longrightarrow> length (skip_break s) < length s"
  by (cases s) (auto simp: skip_break_def)

function py_splitlines :: "string \<Rightarrow> string list" where
  "py_splitlines s =
     (if s = [] then []
      else takeWhile (\<lambda>c. \<not> line_break c) s # py_splitlines (skip_break (dropWhile (\<lambda>c. \<not> line_break c) s)))"
  by pat_completeness auto
termination
proof (relation "measure length", simp)
  fix s :: string
  assume "s \<noteq> []"
  let ?r = "dropWhile (\<lambda>c. \<not> line_break c) s"
  show "(skip_break ?r, s) \<in> measure length"
  proof (cases "?r = []")
    case True
    with \<open>s \<noteq> []\<close> show ?thesis unfolding True by (simp add: skip_break_def)
  next
    case False
    then have "length (skip_break ?r) < length ?r" by (rule length_skip_break)
    also have "\<dots> \<le> length s" by (simp add: length_dropWhile_le)
    finally show ?thesis by simp
  qed
qed

declare py_splitlines.simps [simp del]

text \<open>\<open>s.split(c)\<close> for a one-character separator; the result is never empty.\<close>

fun py_split :: "char \<Rightarrow> string \<Rightarrow> string list" where
  "py_split c [] = [[]]"
| "py_split c (x # xs) =
     (if x = c then [] # py_split c xs
      else (case py_split c xs of [] \<Rightarrow> [[x]] | w # ws \<Rightarrow> (x # w) # ws))"

text \<open>\<open>sep.join(xs)\<close>.\<close>

fun join :: "string \<Rightarrow> string list \<Rightarrow> string" where
  "join sep [] = []"
| "join sep [x] = x"
| "join sep (x # y # ys) = x @ sep @ join sep (y # ys)"

text \<open>\<open>s.replace(old, '')\<close> for a non-empty \<open>old\<close>: leftmost occurrences, not overlapping.\<close>

function py_remove :: "string \<Rightarrow> string \<Rightarrow> string" where
  "py_remove old [] = []"
| "py_remove old (c # cs) =
     (if old \<noteq> [] \<and> py_startswith (c # cs) old then py_remove old (drop (length old) (c # cs))
      else c # py_remove old cs)"
  by pat_completeness auto
termination
  by (relation "measure (\<lambda>(old, s). length s)") auto

text \<open>The decimal representation \<open>str(n)\<close>.\<close>

fun dec_nat :: "nat \<Rightarrow> string" where
  "dec_nat n = (if n < 10 then [char_of (48 + n)] else dec_nat (n div 10) @ [char_of (48 + n mod 10)])"

declare dec_nat.simps [simp del]

definition py_str_int :: "int \<Rightarrow> string" where
  "py_str_int n = (if n < 0 then CHR ''-'' # dec_nat (nat (- n)) else dec_nat (nat n))"

text \<open>\<open>repr(s)\<close> of a string: quoted, with the characters that are not printable escaped.\<close>

definition py_repr_char :: "char \<Rightarrow> char \<Rightarrow> string" where
  "py_repr_char q c =
     (let n = of_char c :: nat in
      if c = q \<or> n = 92 then [CHR 0x5C, c]
      else if n = 10 then [CHR 0x5C, CHR ''n'']
      else if n = 13 then [CHR 0x5C, CHR ''r'']
      else if n = 9 then [CHR 0x5C, CHR ''t'']
      else if n < 32 \<or> 127 \<le> n \<and> n \<le> 160 \<or> n = 173
      then [CHR 0x5C, CHR ''x'', ''0123456789abcdef'' ! (n div 16), ''0123456789abcdef'' ! (n mod 16)]
      else [c])"

definition py_repr_str :: "string \<Rightarrow> string" where
  "py_repr_str s =
     (let q = (if CHR 0x27 \<in> set s \<and> CHR 0x22 \<notin> set s then CHR 0x22 else CHR 0x27) in
      [q] @ concat (map (py_repr_char q) s) @ [q])"

text \<open>\<open>int(s)\<close>: surrounding space, a sign and single underscores between digits are accepted.\<close>

fun parse_decimal :: "bool \<Rightarrow> nat \<Rightarrow> string \<Rightarrow> nat option" where
  "parse_decimal ok acc [] = (if ok then Some acc else None)"
| "parse_decimal ok acc (c # cs) =
     (if c = CHR ''_'' then (if ok then parse_decimal False acc cs else None)
      else if py_isdigit c then parse_decimal True (acc * 10 + (of_char c - 48)) cs else None)"

definition py_int :: "string \<Rightarrow> int option" where
  "py_int s0 =
     (let s = py_strip s0 in
      case s of [] \<Rightarrow> None
      | c # cs \<Rightarrow>
          (if c = CHR ''-'' then map_option (\<lambda>n. - int n) (parse_decimal False 0 cs)
           else if c = CHR ''+'' then map_option int (parse_decimal False 0 cs)
           else map_option int (parse_decimal False 0 s)))"

section \<open>The uuid module\<close>

type_synonym uuid = "128 word"

definition hex_digit :: "nat \<Rightarrow> char" where
  "hex_digit n = ''0123456789abcdef'' ! n"

fun hex_fixed :: "nat \<Rightarrow> nat \<Rightarrow> string" where
  "hex_fixed 0 n = []"
| "hex_fixed (Suc w) n = hex_fixed w (n div 16) @ [hex_digit (n mod 16)]"

text \<open>\<open>UUID.hex\<close> and \<open>str(UUID)\<close>.\<close>

definition uuid_hex :: "uuid \<Rightarrow> string" where
  "uuid_hex u = hex_fixed 32 (unat u)"

definition str_uuid :: "uuid \<Rightarrow> string" where
  "str_uuid u =
     (let h = uuid_hex u in
        take 8 h @ ''-'' @ take 4 (drop 8 h) @ ''-'' @ take 4 (drop 12 h) @ ''-''
        @ take 4 (drop 16 h) @ ''-'' @ drop 20 h)"

text \<open>
  \<open>int(s, 16)\<close>: surrounding space, a sign, the prefix \<open>0x\<close> and single underscores between
  digits are accepted; everything else is a \<open>ValueError\<close> (here \<open>None\<close>).
\<close>

definition hex_value :: "char \<Rightarrow> nat option" where
  "hex_value c = map_of (zip ''0123456789abcdefABCDEF''
     [0, 1, 2, 3, 4, 5, 6, 7, 8, 9, 10, 11, 12, 13, 14, 15, 10, 11, 12, 13, 14, 15]) c"

fun parse_digits :: "bool \<Rightarrow> nat \<Rightarrow> string \<Rightarrow> nat option" where
  "parse_digits ok acc [] = (if ok then Some acc else None)"
| "parse_digits ok acc (c # cs) =
     (if c = CHR ''_'' then (if ok then parse_digits False acc cs else None)
      else (case hex_value c of None \<Rightarrow> None | Some d \<Rightarrow> parse_digits True (acc * 16 + d) cs))"

definition strip_0x :: "string \<Rightarrow> string" where
  "strip_0x s =
     (if take 2 s = ''0x'' \<or> take 2 s = ''0X''
      then (if take 1 (drop 2 s) = ''_'' then drop 3 s else drop 2 s) else s)"

definition py_int_base16 :: "string \<Rightarrow> int option" where
  "py_int_base16 s0 =
     (let s = py_strip s0 in
      case s of [] \<Rightarrow> None
      | c # cs \<Rightarrow>
          (if c = CHR ''-'' then map_option (\<lambda>n. - int n) (parse_digits False 0 (strip_0x cs))
           else if c = CHR ''+'' then map_option int (parse_digits False 0 (strip_0x cs))
           else map_option int (parse_digits False 0 (strip_0x s))))"

text \<open>\<open>uuid.UUID(s)\<close>: \<open>None\<close> is the \<open>ValueError\<close> of a badly formed string.\<close>

definition uuid_of_string :: "string \<Rightarrow> uuid option" where
  "uuid_of_string s =
     (let h = py_remove ''-''
                (py_strip_of (\<lambda>c. c = CHR ''{'' \<or> c = CHR ''}'')
                   (py_remove ''uuid:'' (py_remove ''urn:'' s))) in
      if length h \<noteq> 32 then None
      else (case py_int_base16 h of
              None \<Rightarrow> None
            | Some n \<Rightarrow> if 0 \<le> n \<and> n < 2 ^ 128 then Some (word_of_int n) else None))"

section \<open>Facts about the string methods\<close>

lemma contains_iff: "contains pat s \<longleftrightarrow> (\<exists>a b. s = a @ pat @ b)"
proof
  assume "contains pat s"
  then obtain i where "take (length pat) (drop i s) = pat" by (auto simp: contains_def list_ex_iff)
  then have "s = take i s @ pat @ drop (length pat) (drop i s)" by (metis append_take_drop_id)
  then show "\<exists>a b. s = a @ pat @ b" by blast
next
  assume "\<exists>a b. s = a @ pat @ b"
  then obtain a b where "s = a @ pat @ b" by blast
  then show "contains pat s"
    unfolding contains_def list_ex_iff by (intro bexI [of _ "length a"]) simp_all
qed

lemma dropWhile_none: "\<forall>c\<in>set s. \<not> P c \<Longrightarrow> dropWhile P s = s"
  by (cases s) auto

lemma py_strip_of_none: "\<forall>c\<in>set s. \<not> P c \<Longrightarrow> py_strip_of P s = s"
  by (simp add: py_strip_of_def dropWhile_none)

lemma py_strip_of_all: "\<forall>c\<in>set s. P c \<Longrightarrow> py_strip_of P s = []"
  unfolding py_strip_of_def by (metis dropWhile.simps(1) dropWhile_eq_Nil_conv rev.simps(1))

lemma py_strip_of_pad:
  assumes "\<forall>c\<in>set a. P c" and "\<forall>c\<in>set b. P c"
  shows "py_strip_of P (a @ s @ b) = py_strip_of P s"
proof -
  have "py_strip_of P (t @ b) = py_strip_of P t" for t
  proof (cases "\<forall>c\<in>set t. P c")
    case True
    with assms(2) have "\<forall>c\<in>set (t @ b). P c" by auto
    with True show ?thesis using py_strip_of_all by metis
  next
    case False
    then have "dropWhile P (t @ b) = dropWhile P t @ b" by (auto intro: dropWhile_append1)
    moreover have "dropWhile P (rev b @ u) = dropWhile P u" for u
      using assms(2) by (intro dropWhile_append2) simp
    ultimately show ?thesis by (simp add: py_strip_of_def)
  qed
  moreover have "py_strip_of P (a @ t) = py_strip_of P t" for t
    using assms(1) by (simp add: py_strip_of_def dropWhile_append2)
  ultimately show ?thesis by simp
qed

lemma py_strip_of_split:
  obtains a b where "s = a @ py_strip_of P s @ b" and "\<forall>c\<in>set a. P c" and "\<forall>c\<in>set b. P c"
proof -
  let ?d = "dropWhile P s"
  have "s = takeWhile P s @ ?d" by simp
  also have "?d = rev (takeWhile P (rev ?d) @ dropWhile P (rev ?d))" by simp
  also have "\<dots> = py_strip_of P s @ rev (takeWhile P (rev ?d))"
    unfolding rev_append by (simp add: py_strip_of_def)
  finally show thesis
    by (rule that) (auto dest: set_takeWhileD)
qed

lemma py_strip_of_hd: "py_strip_of P s \<noteq> [] \<Longrightarrow> \<not> P (hd (py_strip_of P s))"
proof -
  assume ne: "py_strip_of P s \<noteq> []"
  let ?d = "dropWhile P s"
  have d: "?d = py_strip_of P s @ rev (takeWhile P (rev ?d))"
    unfolding py_strip_of_def rev_append [symmetric] by simp
  with ne have "?d \<noteq> []" "hd ?d = hd (py_strip_of P s)" by (metis append_is_Nil_conv, metis hd_append2)
  then show ?thesis using hd_dropWhile [of P s] by simp
qed

lemma py_remove_absent:
  assumes "c \<notin> set s"
  shows "py_remove (c # p) s = s"
  using assms by (induction s) (auto simp: py_startswith_def)

lemma py_remove_char: "py_remove [c] s = filter (\<lambda>x. x \<noteq> c) s"
  by (induction s) (auto simp: py_startswith_def)

lemma py_split_not_Nil [simp]: "py_split c s \<noteq> []"
  by (induction s) (auto split: list.splits)

lemma py_split_no_sep: "w \<in> set (py_split c s) \<Longrightarrow> c \<notin> set w"
  by (induction s arbitrary: w) (auto split: list.splits if_splits)

lemma lower_char_idem [simp]: "lower_char (lower_char c) = lower_char c"
  by (auto simp: lower_char_def char_isupper_def py_isupper_def Let_def)

lemma py_lower_idem [simp]: "py_lower (py_lower s) = py_lower s"
  by (simp add: py_lower_def)

section \<open>UUID round trip\<close>

lemma length_hex_fixed [simp]: "length (hex_fixed w n) = w"
  by (induction w arbitrary: n) auto

text \<open>The sixteen digits, checked one by one.\<close>

lemma hex_digit_ok_table:
  "list_all (\<lambda>n. hex_value (hex_digit n) = Some n \<and> \<not> py_isspace (hex_digit n)
     \<and> list_all (\<lambda>c. hex_digit n \<noteq> c) ''_-+xXu{}'') [0..<16]"
  by (simp add: upt_rec hex_digit_def hex_value_def py_isspace_def Let_def)

lemma hex_digit_facts:
  assumes "n < 16"
  shows "hex_value (hex_digit n) = Some n"
    and "\<not> py_isspace (hex_digit n)"
    and "c \<in> set ''_-+xXu{}'' \<Longrightarrow> hex_digit n \<noteq> c"
proof -
  have "n \<in> set [0..<16]" using assms by simp
  with hex_digit_ok_table
  have *: "hex_value (hex_digit n) = Some n \<and> \<not> py_isspace (hex_digit n)
      \<and> list_all (\<lambda>c. hex_digit n \<noteq> c) ''_-+xXu{}''"
    unfolding list_all_iff by blast
  from * show "hex_value (hex_digit n) = Some n" by (rule conjunct1)
  from * show "\<not> py_isspace (hex_digit n)" by blast
  show "hex_digit n \<noteq> c" if "c \<in> set ''_-+xXu{}''"
    using * that unfolding list_all_iff by blast
qed

lemma hex_fixed_chars: "c \<in> set (hex_fixed w n) \<Longrightarrow> \<exists>d<16. c = hex_digit d"
proof (induction w arbitrary: n)
  case 0
  then show ?case by simp
next
  case (Suc w)
  have "\<exists>d<16. hex_digit (n mod 16) = hex_digit d"
    using mod_less_divisor [of 16 n] by (intro exI [of _ "n mod 16"]) simp
  with Suc show ?case by auto
qed

lemma hex_fixed_avoid: "c \<in> set ''_-+xXu{}'' \<Longrightarrow> c \<notin> set (hex_fixed w n)"
  using hex_digit_facts(3) hex_fixed_chars by blast

lemma hex_fixed_nospace: "c \<in> set (hex_fixed w n) \<Longrightarrow> \<not> py_isspace c"
  using hex_digit_facts(2) hex_fixed_chars by blast

lemma parse_digits_append:
  assumes "xs \<noteq> []" and "parse_digits ok acc xs = Some v"
  shows "parse_digits ok acc (xs @ ys) = parse_digits True v ys"
  using assms
proof (induction xs arbitrary: ok acc)
  case Nil
  then show ?case by simp
next
  case (Cons c cs)
  show ?case
  proof (cases "cs = []")
    case True
    with Cons.prems show ?thesis by (simp split: if_splits option.splits)
  next
    case False
    then show ?thesis using Cons.prems(2) Cons.IH
      by (simp split: if_splits option.splits)
  qed
qed

lemma parse_digits_hex_fixed:
  "parse_digits ok 0 (hex_fixed (Suc w) n) = Some (n mod 16 ^ Suc w)"
proof (induction w arbitrary: n)
  case 0
  have "n mod 16 < 16" by simp
  then show ?case using hex_digit_facts(1,3) [of "n mod 16"] by simp
next
  case (Suc w)
  have d: "n mod 16 < 16" by simp
  have "hex_fixed (Suc w) (n div 16) \<noteq> []" by simp
  from parse_digits_append [OF this Suc.IH]
  have "parse_digits ok 0 (hex_fixed (Suc (Suc w)) n)
        = parse_digits True ((n div 16) mod 16 ^ Suc w) [hex_digit (n mod 16)]"
    by (simp only: hex_fixed.simps(2) [of "Suc w" n])
  also have "\<dots> = Some (n mod 16 ^ Suc (Suc w))"
    using hex_digit_facts(1,3) [OF d] mod_mult2_eq [of n 16 "16 ^ Suc w"] by simp
  finally show ?case .
qed

lemma strip_0x_hex_fixed [simp]: "strip_0x (hex_fixed w n) = hex_fixed w n"
proof -
  have "CHR ''x'' \<notin> set (take 2 (hex_fixed w n))" "CHR ''X'' \<notin> set (take 2 (hex_fixed w n))"
    using hex_fixed_avoid [of _ w n] by (auto dest: in_set_takeD)
  then have "take 2 (hex_fixed w n) \<noteq> ''0x''" "take 2 (hex_fixed w n) \<noteq> ''0X''" by auto
  then show ?thesis by (simp add: strip_0x_def)
qed

lemma py_int_base16_hex_fixed:
  "py_int_base16 (hex_fixed (Suc w) n) = Some (int (n mod 16 ^ Suc w))"
proof -
  let ?h = "hex_fixed (Suc w) n"
  have strip: "py_strip ?h = ?h"
    using hex_fixed_nospace by (simp add: py_strip_def py_strip_of_none del: hex_fixed.simps)
  obtain c cs where h: "?h = c # cs"
    by (metis length_hex_fixed length_Suc_conv)
  have "c \<noteq> CHR ''-''" "c \<noteq> CHR ''+''"
    using hex_fixed_avoid [of _ "Suc w" n] h by (auto simp del: hex_fixed.simps)
  then show ?thesis
    using h strip parse_digits_hex_fixed [of False w n] strip_0x_hex_fixed [of "Suc w" n]
    by (simp add: py_int_base16_def Let_def del: hex_fixed.simps)
qed

lemma str_uuid_chars:
  assumes "c \<in> set (str_uuid u)"
  shows "c = CHR ''-'' \<or> c \<in> set (uuid_hex u)"
  using assms by (auto simp: str_uuid_def Let_def dest!: in_set_takeD in_set_dropD)

lemma filter_dash_hex: "filter (\<lambda>x. x \<noteq> CHR ''-'') (uuid_hex u) = uuid_hex u"
  using hex_fixed_avoid [of "CHR ''-''"] by (auto simp: uuid_hex_def filter_id_conv)

lemma str_uuid_undashed: "filter (\<lambda>x. x \<noteq> CHR ''-'') (str_uuid u) = uuid_hex u"
proof -
  let ?f = "filter (\<lambda>x. x \<noteq> CHR ''-'')" and ?h = "uuid_hex u"
  have part: "?f xs = xs" if "set xs \<subseteq> set ?h" for xs
    using that hex_fixed_avoid [of "CHR ''-''"] by (auto simp: uuid_hex_def filter_id_conv)
  have "set (take i (drop j ?h)) \<subseteq> set ?h" "set (drop j ?h) \<subseteq> set ?h" "set (take i ?h) \<subseteq> set ?h"
    for i j by (auto dest!: in_set_takeD in_set_dropD)
  then have "?f (str_uuid u) = take 8 ?h @ take 4 (drop 8 ?h) @ take 4 (drop 12 ?h)
      @ take 4 (drop 16 ?h) @ drop 20 ?h"
    by (simp add: str_uuid_def Let_def part)
  also have "\<dots> = ?h"
  proof -
    have "take 4 (drop n ?h) @ drop (n + 4) ?h = drop n ?h" for n
      by (metis add.commute append_take_drop_id drop_drop)
    from this [of 16] this [of 12] this [of 8] show ?thesis by simp
  qed
  finally show ?thesis .
qed

lemma uuid_of_string_str_uuid [simp]: "uuid_of_string (str_uuid u) = Some u"
proof -
  have avoid: "c \<notin> set (str_uuid u)" if "c \<in> set ''_-+xXu{}''" and "c \<noteq> CHR ''-''" for c
    using str_uuid_chars [of c u] hex_fixed_avoid [OF that(1), of 32 "unat u"] that(2)
    unfolding uuid_hex_def by blast
  have u: "CHR ''u'' \<notin> set (str_uuid u)"
    and braces: "\<forall>c\<in>set (str_uuid u). \<not> (c = CHR ''{'' \<or> c = CHR ''}'')"
    using avoid by fastforce+
  have "py_remove ''-'' (py_strip_of (\<lambda>c. c = CHR ''{'' \<or> c = CHR ''}'')
          (py_remove ''uuid:'' (py_remove ''urn:'' (str_uuid u)))) = uuid_hex u"
    unfolding py_remove_absent [OF u] py_strip_of_none [OF braces] py_remove_char
    by (rule str_uuid_undashed)
  moreover have "py_int_base16 (uuid_hex u) = Some (uint u)"
    using py_int_base16_hex_fixed [of 31 "unat u"] unsigned_less [of u, where ?'a = nat]
    by (simp add: uuid_hex_def del: hex_fixed.simps)
  moreover have "uint u < 2 ^ 128" using unsigned_less [of u, where ?'a = int] by simp
  moreover have "length (uuid_hex u) = 32" by (simp add: uuid_hex_def)
  ultimately show ?thesis by (simp add: uuid_of_string_def Let_def)
qed

lemma str_uuid_inject [simp]: "str_uuid u = str_uuid v \<longleftrightarrow> u = v"
  by (metis option.inject uuid_of_string_str_uuid)

end
