(* ===== verification/Json.thy ===== *)
theory Json
  imports Py_Std "HOL-Library.Multiset" "HOL-Library.List_Lexorder" "HOL-Library.Char_ord"
    "HOL-Library.AList"
begin

text \<open>
  JSON values as the program builds them (the \<open>dict[str, Any]\<close> payloads of events, the
  \<open>details\<close> of errors) and \<open>json.dumps(\<dots>, sort_keys=True)\<close>, the canonical text that
  \<open>EventEnvelope.content_hash\<close> and \<open>make_dedupe_id\<close> hash. A dict is an association list in
  insertion order. Floating point numbers do not occur in the payloads the program builds and
  are left out; with them go the values only \<open>default=str\<close> could write, which are not JSON either.
\<close>

datatype json =
    JNull
  | JBool bool
  | JInt int
  | JStr string
  | JList "json list"
  | JDict "(string \<times> json) list"

text \<open>\<open>json.dumps\<close> with the default separators and \<open>ensure_ascii\<close>.\<close>

definition json_escape_char :: "char \<Rightarrow> string" where
  "json_escape_char c =
     (let n = of_char c :: nat in
      if c = CHR ''\"'' then [CHR 0x5C, CHR 0x22]
      else if n = 92 then [CHR 0x5C, CHR 0x5C]
      else if n = 10 then [CHR 0x5C, CHR ''n'']
      else if n = 13 then [CHR 0x5C, CHR ''r'']
      else if n = 9 then [CHR 0x5C, CHR ''t'']
      else if n = 12 then [CHR 0x5C, CHR ''f'']
      else if n = 8 then [CHR 0x5C, CHR ''b'']
      else if 32 \<le> n \<and> n \<le> 126 then [c]
      else [CHR 0x5C, CHR ''u''] @ hex_fixed 4 n)"

definition json_quote :: "string \<Rightarrow> string" where
  "json_quote s = [CHR 0x22] @ concat (map json_escape_char s) @ [CHR 0x22]"

primrec json_dumps :: "json \<Rightarrow> string" where
  "json_dumps JNull = ''null''"
| "json_dumps (JBool b) = (if b then ''true'' else ''false'')"
| "json_dumps (JInt n) = py_str_int n"
| "json_dumps (JStr s) = json_quote s"
| "json_dumps (JList xs) = ''['' @ join '', '' (map json_dumps xs) @ '']''"
| "json_dumps (JDict kvs) =
     ''{'' @ join '', '' (map (\<lambda>(k, t). json_quote k @ '': '' @ t) (map (map_prod id json_dumps) kvs)) @ ''}''"

text \<open>\<open>repr\<close> and \<open>str\<close> of the Python value of a JSON document.\<close>

primrec py_repr_json :: "json \<Rightarrow> string" where
  "py_repr_json JNull = ''None''"
| "py_repr_json (JBool b) = (if b then ''True'' else ''False'')"
| "py_repr_json (JInt n) = py_str_int n"
| "py_repr_json (JStr s) = py_repr_str s"
| "py_repr_json (JList xs) = ''['' @ join '', '' (map py_repr_json xs) @ '']''"
| "py_repr_json (JDict kvs) =
     ''{'' @ join '', '' (map (\<lambda>(k, t). py_repr_str k @ '': '' @ t) (map (map_prod id py_repr_json) kvs)) @ ''}''"

definition py_str_json :: "json \<Rightarrow> string" where
  "py_str_json j = (case j of JStr s \<Rightarrow> s | _ \<Rightarrow> py_repr_json j)"

text \<open>\<open>sort_keys=True\<close> orders the items of every dict, at every level, by key.\<close>

primrec sort_keys :: "json \<Rightarrow> json" where
  "sort_keys JNull = JNull"
| "sort_keys (JBool b) = JBool b"
| "sort_keys (JInt n) = JInt n"
| "sort_keys (JStr s) = JStr s"
| "sort_keys (JList xs) = JList (map sort_keys xs)"
| "sort_keys (JDict kvs) = JDict (sort_key fst (map (map_prod id sort_keys) kvs))"

definition canonical :: "json \<Rightarrow> string" where
  "canonical j = json_dumps (sort_keys j)"

text \<open>
  Two values are the same Python value up to the insertion order of their dicts (Python's
  \<open>==\<close> on dicts ignores the order, at every level).
\<close>

inductive same_json :: "json \<Rightarrow> json \<Rightarrow> bool" where
  refl: "same_json j j"
| list: "list_all2 same_json xs ys \<Longrightarrow> same_json (JList xs) (JList ys)"
| dict: "distinct (map fst xs) \<Longrightarrow> list_all2 (rel_prod (=) same_json) xs zs \<Longrightarrow>
         mset zs = mset ys \<Longrightarrow> same_json (JDict xs) (JDict ys)"
monos list_all2_mono prod.rel_mono

text \<open>\<open>d.get(k)\<close> on a value: \<open>Inl ()\<close> when it is not a dict (\<open>AttributeError\<close>).\<close>

definition json_get :: "json \<Rightarrow> string \<Rightarrow> unit + json option" where
  "json_get j k = (case j of JDict kvs \<Rightarrow> Inr (map_of kvs k) | _ \<Rightarrow> Inl ())"

text \<open>\<open>d.update(e)\<close>: a key of both keeps its place and takes the new value.\<close>

definition dict_update :: "(string \<times> json) list \<Rightarrow> (string \<times> json) list \<Rightarrow> (string \<times> json) list" where
  "dict_update d e = fold (\<lambda>(k, v). AList.update k v) e d"

section \<open>Facts\<close>

lemma sort_key_fst_unique:
  assumes "mset xs = mset ys" and "distinct (map fst xs)"
  shows "sort_key fst xs = sort_key fst ys"
proof (rule sort_key_inj_key_eq)
  show "mset xs = mset (sort_key fst ys)" using assms(1) by simp
  show "inj_on fst (set xs)" using assms(2) by (simp add: distinct_map)
  show "sorted (map fst (sort_key fst ys))" by simp
qed

lemma same_json_sort_keys: "same_json a b \<Longrightarrow> sort_keys a = sort_keys b"
proof (induction rule: same_json.induct)
  case (refl j)
  show ?case ..
next
  case (list xs ys)
  then have "map sort_keys xs = map sort_keys ys"
    by (induction rule: list_all2_induct) auto
  then show ?case by simp
next
  case (dict xs zs ys)
  from dict.IH have eq: "map (map_prod id sort_keys) xs = map (map_prod id sort_keys) zs"
    by (induction rule: list_all2_induct) (auto simp: rel_prod_sel prod_eq_iff)
  have "mset (map (map_prod id sort_keys) zs) = mset (map (map_prod id sort_keys) ys)"
    using dict.hyps by simp
  moreover have "distinct (map fst (map (map_prod id sort_keys) zs))"
    unfolding eq [symmetric] using dict.hyps by (simp add: comp_def)
  ultimately show ?case using eq by (simp add: sort_key_fst_unique)
qed

lemma canonical_same_json: "same_json a b \<Longrightarrow> canonical a = canonical b"
  by (simp add: canonical_def same_json_sort_keys)

lemma map_of_dict_update: "map_of (dict_update d e) = map_of d ++ map_of (rev e)"
proof (induction e arbitrary: d)
  case Nil
  then show ?case by (simp add: dict_update_def)
next
  case (Cons kv e)
  obtain k v where kv: "kv = (k, v)" by (cases kv)
  have "map_of (dict_update d (kv # e)) = map_of (AList.update k v d) ++ map_of (rev e)"
    using Cons.IH [of "AList.update k v d"] by (simp add: dict_update_def kv)
  also have "map_of (AList.update k v d) = (map_of d)(k \<mapsto> v)" by (simp add: update_conv')
  finally show ?case by (simp add: kv map_add_upd_left map_add_def fun_eq_iff split: option.splits)
qed

lemma distinct_dict_update:
  "distinct (map fst d) \<Longrightarrow> distinct (map fst (dict_update d e))"
  unfolding dict_update_def by (induction e arbitrary: d) (auto simp: distinct_update)

end
