(* ===== verification/Exceptions.thy ===== *)
theory Exceptions
  imports Json
begin

text \<open>
  The exception hierarchy of \<open>src/core/exceptions.py\<close>, with the subclasses the modules
  declare, the exceptions of the libraries that cross the program's own \<open>except\<close> clauses,
  and the FastAPI handlers that turn an exception into a response.
\<close>

section \<open>Classes and class attributes\<close>

datatype nimbus_class =
    NimbusError | DomainError | ResourceNotFoundError | ConflictError | IdempotencyConflictError
  | ValidationFailedError | AuthenticationError | PermissionDeniedError | RateLimitedError
  | InfrastructureError | DatabaseLockError | DatabaseConnectionError | CacheUnavailableError
  | BrokerUnavailableError | NimbusTimeoutError
  | PaymentNotFoundError | OutOfStockError | ConcurrentUpdateError | StockNotFoundError
  | OrderNotFoundError | UserAlreadyExistsError | InvalidCredentialsError | UserNotFoundError
  | TokenError

fun base_class :: "nimbus_class \<Rightarrow> nimbus_class option" where
  "base_class NimbusError = None"
| "base_class IdempotencyConflictError = Some ConflictError"
| "base_class DatabaseLockError = Some InfrastructureError"
| "base_class DatabaseConnectionError = Some InfrastructureError"
| "base_class CacheUnavailableError = Some InfrastructureError"
| "base_class BrokerUnavailableError = Some InfrastructureError"
| "base_class PaymentNotFoundError = Some ResourceNotFoundError"
| "base_class OutOfStockError = Some ConflictError"
| "base_class ConcurrentUpdateError = Some ConflictError"
| "base_class StockNotFoundError = Some ResourceNotFoundError"
| "base_class OrderNotFoundError = Some ResourceNotFoundError"
| "base_class UserAlreadyExistsError = Some ConflictError"
| "base_class InvalidCredentialsError = Some AuthenticationError"
| "base_class UserNotFoundError = Some ResourceNotFoundError"
| "base_class TokenError = Some AuthenticationError"
| "base_class c = Some NimbusError"

fun class_depth :: "nimbus_class \<Rightarrow> nat" where
  "class_depth c = (case c of NimbusError \<Rightarrow> 0
     | DomainError \<Rightarrow> 1 | ResourceNotFoundError \<Rightarrow> 1 | ConflictError \<Rightarrow> 1
     | ValidationFailedError \<Rightarrow> 1 | AuthenticationError \<Rightarrow> 1 | PermissionDeniedError \<Rightarrow> 1
     | RateLimitedError \<Rightarrow> 1 | InfrastructureError \<Rightarrow> 1 | NimbusTimeoutError \<Rightarrow> 1
     | _ \<Rightarrow> 2)"

lemma base_class_depth: "base_class c = Some b \<Longrightarrow> class_depth b < class_depth c"
  by (cases c) auto

declare class_depth.simps [simp del]

text \<open>\<open>issubclass(c, d)\<close>, which is what an \<open>except d\<close> clause tests.\<close>

function is_subclass :: "nimbus_class \<Rightarrow> nimbus_class \<Rightarrow> bool" where
  "is_subclass c d = (c = d \<or> (case base_class c of None \<Rightarrow> False | Some b \<Rightarrow> is_subclass b d))"
  by pat_completeness auto
termination
  by (relation "measure (\<lambda>(c, d). class_depth c)") (auto dest: base_class_depth)

text \<open>The value of a class attribute: the class's own, or that of the nearest base.\<close>

function class_attr :: "(nimbus_class \<Rightarrow> 'a option) \<Rightarrow> nimbus_class \<Rightarrow> 'a option" where
  "class_attr own c =
     (case own c of Some v \<Rightarrow> Some v
      | None \<Rightarrow> (case base_class c of None \<Rightarrow> None | Some b \<Rightarrow> class_attr own b))"
  by pat_completeness auto
termination
  by (relation "measure (\<lambda>(own, c). class_depth c)") (auto dest: base_class_depth)

declare is_subclass.simps [simp del] class_attr.simps [simp del]

fun own_status_code :: "nimbus_class \<Rightarrow> int option" where
  "own_status_code NimbusError = Some 500"
| "own_status_code DomainError = Some 422"
| "own_status_code ResourceNotFoundError = Some 404"
| "own_status_code ConflictError = Some 409"
| "own_status_code ValidationFailedError = Some 400"
| "own_status_code AuthenticationError = Some 401"
| "own_status_code PermissionDeniedError = Some 403"
| "own_status_code RateLimitedError = Some 429"
| "own_status_code InfrastructureError = Some 503"
| "own_status_code NimbusTimeoutError = Some 504"
| "own_status_code c = None"

fun own_code :: "nimbus_class \<Rightarrow> string option" where
  "own_code NimbusError = Some ''nimbus.internal_error''"
| "own_code DomainError = Some ''nimbus.domain_error''"
| "own_code ResourceNotFoundError = Some ''nimbus.not_found''"
| "own_code ConflictError = Some ''nimbus.conflict''"
| "own_code IdempotencyConflictError = Some ''nimbus.idempotency_conflict''"
| "own_code ValidationFailedError = Some ''nimbus.validation_failed''"
| "own_code AuthenticationError = Some ''nimbus.unauthenticated''"
| "own_code PermissionDeniedError = Some ''nimbus.forbidden''"
| "own_code RateLimitedError = Some ''nimbus.rate_limited''"
| "own_code InfrastructureError = Some ''nimbus.infrastructure_error''"
| "own_code DatabaseLockError = Some ''nimbus.db_lock''"
| "own_code DatabaseConnectionError = Some ''nimbus.db_connection''"
| "own_code CacheUnavailableError = Some ''nimbus.cache_unavailable''"
| "own_code BrokerUnavailableError = Some ''nimbus.broker_unavailable''"
| "own_code NimbusTimeoutError = Some ''nimbus.timeout''"
| "own_code PaymentNotFoundError = Some ''payments.not_found''"
| "own_code OutOfStockError = Some ''inventory.out_of_stock''"
| "own_code ConcurrentUpdateError = Some ''inventory.concurrent_update''"
| "own_code StockNotFoundError = Some ''inventory.not_found''"
| "own_code OrderNotFoundError = Some ''orders.not_found''"
| "own_code UserAlreadyExistsError = Some ''users.email_taken''"
| "own_code InvalidCredentialsError = Some ''users.invalid_credentials''"
| "own_code UserNotFoundError = Some ''users.not_found''"
| "own_code TokenError = None"

fun own_safe_message :: "nimbus_class \<Rightarrow> string option" where
  "own_safe_message NimbusError = Some ''An internal error occurred.''"
| "own_safe_message DomainError = Some ''A business rule was violated.''"
| "own_safe_message ResourceNotFoundError = Some ''The requested resource was not found.''"
| "own_safe_message ConflictError = Some ''The request conflicts with the current state.''"
| "own_safe_message IdempotencyConflictError =
     Some ''A request with this idempotency key is already in progress.''"
| "own_safe_message ValidationFailedError = Some ''Input validation failed.''"
| "own_safe_message AuthenticationError = Some ''Authentication required.''"
| "own_safe_message PermissionDeniedError =
     Some ''You do not have permission to perform this action.''"
| "own_safe_message RateLimitedError = Some ''Too many requests. Please retry later.''"
| "own_safe_message InfrastructureError = Some ''A downstream dependency is unavailable.''"
| "own_safe_message DatabaseLockError = Some ''The database is busy. Please retry.''"
| "own_safe_message DatabaseConnectionError = Some ''Cannot reach the database.''"
| "own_safe_message CacheUnavailableError = Some ''The cache layer is unavailable.''"
| "own_safe_message BrokerUnavailableError = Some ''The message broker is unavailable.''"
| "own_safe_message NimbusTimeoutError = Some ''The operation timed out.''"
| "own_safe_message PaymentNotFoundError = Some ''Payment not found.''"
| "own_safe_message OutOfStockError = Some ''Insufficient stock for the requested quantity.''"
| "own_safe_message ConcurrentUpdateError =
     Some ''The stock was modified concurrently. Please retry.''"
| "own_safe_message StockNotFoundError = Some ''Stock not found.''"
| "own_safe_message OrderNotFoundError = Some ''Order not found.''"
| "own_safe_message UserAlreadyExistsError = Some ''An account with that email already exists.''"
| "own_safe_message InvalidCredentialsError = Some ''Invalid email or password.''"
| "own_safe_message UserNotFoundError = Some ''User not found.''"
| "own_safe_message TokenError = None"

definition status_code :: "nimbus_class \<Rightarrow> int" where
  "status_code c = (case class_attr own_status_code c of Some v \<Rightarrow> v | None \<Rightarrow> 500)"

definition error_code :: "nimbus_class \<Rightarrow> string" where
  "error_code c = (case class_attr own_code c of Some v \<Rightarrow> v | None \<Rightarrow> [])"

definition safe_message :: "nimbus_class \<Rightarrow> string" where
  "safe_message c = (case class_attr own_safe_message c of Some v \<Rightarrow> v | None \<Rightarrow> [])"

section \<open>Exceptions\<close>

text \<open>
  An exception value: a \<open>NimbusError\<close> with its message and its \<open>details\<close>, or one of the other
  classes the program raises or catches. \<open>RedisError\<close>, \<open>KafkaTimeoutError\<close>,
  \<open>KafkaConnectionError\<close>, \<open>KafkaError\<close>, \<open>OperationalError\<close>, \<open>IntegrityError\<close> and
  \<open>DBAPIError\<close> are raised by the drivers, \<open>OtherError\<close> is any other subclass of
  \<open>Exception\<close>, with the name of its type and its text.
\<close>

datatype exc =
    Nimbus nimbus_class string "(string \<times> json) list"
  | ValueError string
  | RuntimeError string
  | AttributeError string
  | PaymentAlreadyProcessedError string
  | PasswordError string
  | RedisError string
  | KafkaTimeoutError string
  | KafkaConnectionError string
  | KafkaError string
  | OperationalError string
  | IntegrityError string
  | DBAPIError string
  | BuiltinTimeoutError
  | RequestValidationError json
  | HTTPException int json
  | OtherError string string

text \<open>
  The constructor \<open>NimbusError(message, details=\<dots>)\<close>: a missing message is the class's safe
  message, missing details are the empty dict.
\<close>

definition nimbus_error :: "nimbus_class \<Rightarrow> string option \<Rightarrow> (string \<times> json) list option \<Rightarrow> exc" where
  "nimbus_error c msg details =
     Nimbus c (case msg of None \<Rightarrow> safe_message c
               | Some m \<Rightarrow> if m = [] then safe_message c else m)
       (case details of None \<Rightarrow> [] | Some d \<Rightarrow> d)"

definition exc_isinstance :: "exc \<Rightarrow> nimbus_class \<Rightarrow> bool" where
  "exc_isinstance e c = (case e of Nimbus d _ _ \<Rightarrow> is_subclass d c | _ \<Rightarrow> False)"

section \<open>Responses\<close>

record response =
  resp_status :: int
  resp_content :: json
  resp_headers :: "(string \<times> string) list"

definition error_payload :: "string \<Rightarrow> string \<Rightarrow> (string \<times> json) list option \<Rightarrow> json" where
  "error_payload code message details =
     JDict [(''error'', JDict [(''code'', JStr code), (''message'', JStr message),
       (''details'', JDict (case details of None \<Rightarrow> [] | Some d \<Rightarrow> d))])]"

definition nimbus_error_handler :: "nimbus_class \<Rightarrow> (string \<times> json) list \<Rightarrow> response" where
  "nimbus_error_handler c details =
     \<lparr>resp_status = status_code c,
      resp_content = error_payload (error_code c) (safe_message c) (Some details),
      resp_headers = [(''X-Error-Code'', error_code c)]\<rparr>"

definition validation_handler :: "json \<Rightarrow> response" where
  "validation_handler errors =
     \<lparr>resp_status = 422,
      resp_content = error_payload ''nimbus.invalid_request''
        ''The request payload failed validation.'' (Some [(''errors'', errors)]),
      resp_headers = []\<rparr>"

definition http_exception_handler :: "int \<Rightarrow> json \<Rightarrow> response" where
  "http_exception_handler status detail =
     \<lparr>resp_status = status,
      resp_content = error_payload (''http.'' @ py_str_int status)
        (case detail of JStr m \<Rightarrow> m | _ \<Rightarrow> ''HTTP error.'') None,
      resp_headers = []\<rparr>"

definition unhandled_exception_handler :: response where
  "unhandled_exception_handler =
     \<lparr>resp_status = 500,
      resp_content = error_payload ''nimbus.internal_error'' ''An internal error occurred.'' None,
      resp_headers = []\<rparr>"

text \<open>
  \<open>_install_handlers\<close>: the framework calls the handler registered for the nearest class of the
  exception.
\<close>

definition handle_exception :: "exc \<Rightarrow> response" where
  "handle_exception e =
     (case e of
        Nimbus c _ details \<Rightarrow> nimbus_error_handler c details
      | RequestValidationError errors \<Rightarrow> validation_handler errors
      | HTTPException status detail \<Rightarrow> http_exception_handler status detail
      | _ \<Rightarrow> unhandled_exception_handler)"

section \<open>Facts\<close>

lemma is_subclass_refl [simp]: "is_subclass c c"
  by (simp add: is_subclass.simps)

lemma is_subclass_step: "base_class c = Some b \<Longrightarrow> is_subclass b d \<Longrightarrow> is_subclass c d"
  by (simp add: is_subclass.simps [of c d])

lemma is_subclass_trans:
  "is_subclass c d \<Longrightarrow> is_subclass d e \<Longrightarrow> is_subclass c e"
proof (induction c d rule: is_subclass.induct)
  case (1 c d)
  from "1.prems"(1) show ?case
    unfolding is_subclass.simps [of c d]
  proof
    assume "c = d"
    with "1.prems"(2) show ?thesis by simp
  next
    assume "case base_class c of None \<Rightarrow> False | Some b \<Rightarrow> is_subclass b d"
    then obtain b where b: "base_class c = Some b" and sub: "is_subclass b d"
      by (auto split: option.splits)
    from "1.IH" [OF b sub "1.prems"(2)] b show ?thesis by (blast intro: is_subclass_step)
  qed
qed

lemma is_subclass_NimbusError: "is_subclass c NimbusError"
  by (cases c) (simp_all add: is_subclass.simps)

lemma exc_isinstance_simps [simp]:
  "exc_isinstance (Nimbus c m d) b = is_subclass c b"
  "\<not> exc_isinstance (ValueError s) b"
  "\<not> exc_isinstance (RuntimeError s) b"
  "\<not> exc_isinstance (AttributeError s) b"
  "\<not> exc_isinstance (PaymentAlreadyProcessedError s) b"
  "\<not> exc_isinstance (RedisError s) b"
  "\<not> exc_isinstance (OperationalError s) b"
  "\<not> exc_isinstance (IntegrityError s) b"
  "\<not> exc_isinstance (DBAPIError s) b"
  "\<not> exc_isinstance (OtherError s t) b"
  by (simp_all add: exc_isinstance_def)

lemma infrastructure_subclasses [simp]:
  "is_subclass BrokerUnavailableError InfrastructureError"
  "is_subclass CacheUnavailableError InfrastructureError"
  "\<not> is_subclass InfrastructureError BrokerUnavailableError"
  "\<not> is_subclass BrokerUnavailableError CacheUnavailableError"
  "\<not> is_subclass IdempotencyConflictError CacheUnavailableError"
  by (simp_all add: is_subclass.simps)

lemma conflict_subclasses [simp]:
  "\<not> is_subclass OutOfStockError ConcurrentUpdateError"
  "\<not> is_subclass StockNotFoundError ConcurrentUpdateError"
  by (simp_all add: is_subclass.simps)

text \<open>Every class is mapped to an error status, and a subclass keeps the status of its family.\<close>

lemma status_code_range: "400 \<le> status_code c \<and> status_code c < 600"
  by (cases c) (simp_all add: status_code_def class_attr.simps)

lemma error_code_not_Nil: "error_code c \<noteq> []"
  by (cases c) (simp_all add: error_code_def class_attr.simps)

section \<open>Properties\<close>

text \<open>
  Every exception becomes a well-formed error response: the body has a non-empty code and, for
  the program's own exceptions, the class's fixed safe message (the text of the exception is not
  shown) and the class's status, which is an error status; an exception of any other type becomes
  a plain 500 that shows nothing of it.
\<close>

theorem every_exception_is_answered:
  shows "handle_exception (Nimbus c msg details) =
      \<lparr>resp_status = status_code c,
       resp_content = error_payload (error_code c) (safe_message c) (Some details),
       resp_headers = [(''X-Error-Code'', error_code c)]\<rparr>
    \<and> 400 \<le> status_code c \<and> status_code c < 600 \<and> error_code c \<noteq> []
    \<and> (is_subclass c InfrastructureError \<longrightarrow> status_code c = 503)
    \<and> handle_exception (OtherError ty txt) = handle_exception (RedisError txt')
    \<and> resp_status (handle_exception (OtherError ty txt)) = 500"
proof -
  have "status_code c = 503" if "is_subclass c InfrastructureError"
    using that by (cases c) (simp_all add: is_subclass.simps status_code_def class_attr.simps)
  then show ?thesis using status_code_range [of c] error_code_not_Nil [of c]
    by (simp add: handle_exception_def nimbus_error_handler_def unhandled_exception_handler_def)
qed

theorem every_exception_is_answered_witness:
  "resp_status (handle_exception (Nimbus CacheUnavailableError ''redis is down'' [])) = 503"
  using every_exception_is_answered [of CacheUnavailableError "''redis is down''" "[]"] by simp

end
