(* ===== verification/Redis.thy ===== *)
theory Redis
  imports Exceptions
begin

text \<open>
  The Redis client the program depends on. \<open>src/core/protocols.py\<close> names the methods the code
  may call (\<open>RedisLike\<close>); the server itself is not part of the repository, so it is a
  parameter: a record of operations on an abstract server state, with the documented behaviour
  of Redis as the laws of the locale \<open>redis_like\<close>. The repository ships one implementation of
  the protocol, \<open>FakeRedis\<close> in \<open>tests/fakes/fake_redis.py\<close>, on which the locale is
  interpreted.

  Times are integers in microseconds (the code formats \<open>time.time()\<close> with six decimals);
  TTLs are in seconds, as in the code.
\<close>

section \<open>The protocol\<close>

record 'r redis_ops =
  rd_set :: "int \<Rightarrow> string \<Rightarrow> string \<Rightarrow> int option \<Rightarrow> bool \<Rightarrow> 'r \<Rightarrow> bool \<times> 'r"
  rd_get :: "int \<Rightarrow> string \<Rightarrow> 'r \<Rightarrow> string option \<times> 'r"
  rd_exists :: "int \<Rightarrow> string \<Rightarrow> 'r \<Rightarrow> int \<times> 'r"
  rd_delete :: "int \<Rightarrow> string list \<Rightarrow> 'r \<Rightarrow> int \<times> 'r"
  rd_zadd :: "int \<Rightarrow> string \<Rightarrow> string \<Rightarrow> int \<Rightarrow> 'r \<Rightarrow> int \<times> 'r"
  rd_zremrangebyscore :: "int \<Rightarrow> string \<Rightarrow> int \<Rightarrow> 'r \<Rightarrow> int \<times> 'r"
  rd_zcard :: "int \<Rightarrow> string \<Rightarrow> 'r \<Rightarrow> int \<times> 'r"
  rd_expire :: "int \<Rightarrow> string \<Rightarrow> int \<Rightarrow> 'r \<Rightarrow> bool \<times> 'r"

definition seconds :: "int \<Rightarrow> int" where
  "seconds n = n * 1000000"

text \<open>
  One request of the client to the server: it is executed and answered, it is not executed, or
  it is executed and the answer is lost. In the last two cases the driver raises.
\<close>

datatype delivery = Delivered | NotDelivered exc | ReplyLost exc

definition round_trip :: "delivery \<Rightarrow> ('r \<Rightarrow> 'a \<times> 'r) \<Rightarrow> ('r, exc, 'a) comp" where
  "round_trip d cmd r =
     (case d of
        Delivered \<Rightarrow> (case cmd r of (x, r') \<Rightarrow> (Inr x, r'))
      | NotDelivered e \<Rightarrow> (Inl e, r)
      | ReplyLost e \<Rightarrow> (Inl e, snd (cmd r)))"

text \<open>The script \<open>_LOCK_RELEASE_LUA\<close> of the payments module: compare and delete.\<close>

definition lock_release_lua :: "'r redis_ops \<Rightarrow> int \<Rightarrow> string \<Rightarrow> string \<Rightarrow> 'r \<Rightarrow> int \<times> 'r" where
  "lock_release_lua R now key token r =
     (case rd_get R now key r of (v, r1) \<Rightarrow>
        if v = Some token then rd_delete R now [key] r1 else (0, r1))"

section \<open>Laws\<close>

text \<open>
  \<open>live t r k\<close> is the string value that key \<open>k\<close> shows at time \<open>t\<close>, \<open>zset t r k\<close> the sorted
  set. The laws speak of later observations (\<open>t \<le> t'\<close>) because keys expire; at the very
  instant of a deadline nothing is promised.
\<close>

locale redis_like =
  fixes R :: "'r redis_ops"
    and live :: "int \<Rightarrow> 'r \<Rightarrow> string \<Rightarrow> string option"
    and zset :: "int \<Rightarrow> 'r \<Rightarrow> string \<Rightarrow> (int \<times> string) list option"
  assumes live_antimono: "t \<le> t' \<Longrightarrow> live t' r k = Some v \<Longrightarrow> live t r k = Some v"
    and get_value: "fst (rd_get R t k r) = live t r k"
    and get_live: "t \<le> t' \<Longrightarrow> live t' (snd (rd_get R t k r)) k' = live t' r k'"
    and get_zset: "t \<le> t' \<Longrightarrow> k' \<noteq> k \<Longrightarrow> zset t' (snd (rd_get R t k r)) k' = zset t' r k'"
    and exists_string: "zset t r k = None \<Longrightarrow>
          fst (rd_exists R t k r) = (if live t r k = None then 0 else 1)"
    and exists_live: "t \<le> t' \<Longrightarrow> live t' (snd (rd_exists R t k r)) k' = live t' r k'"
    and exists_zset: "t \<le> t' \<Longrightarrow> zset t' (snd (rd_exists R t k r)) k' = zset t' r k'"
    and set_ok: "fst (rd_set R t k v ex nx r) \<longleftrightarrow> \<not> nx \<or> live t r k = None"
    and set_live: "0 < ttl \<Longrightarrow> \<not> nx \<or> live t r k = None \<Longrightarrow> t \<le> t' \<Longrightarrow> t' < t + seconds ttl \<Longrightarrow>
          live t' (snd (rd_set R t k v (Some ttl) nx r)) k = Some v"
    and set_expired: "0 < ttl \<Longrightarrow> \<not> nx \<or> live t r k = None \<Longrightarrow> t + seconds ttl < t' \<Longrightarrow>
          live t' (snd (rd_set R t k v (Some ttl) nx r)) k = None"
    and set_refused: "nx \<Longrightarrow> live t r k \<noteq> None \<Longrightarrow> t \<le> t' \<Longrightarrow>
          live t' (snd (rd_set R t k v ex nx r)) k' = live t' r k'"
    and set_other: "k' \<noteq> k \<Longrightarrow> t \<le> t' \<Longrightarrow>
          live t' (snd (rd_set R t k v ex nx r)) k' = live t' r k'"
    and set_zset: "k' \<noteq> k \<Longrightarrow> t \<le> t' \<Longrightarrow>
          zset t' (snd (rd_set R t k v ex nx r)) k' = zset t' r k'"
    and delete_live: "t \<le> t' \<Longrightarrow>
          live t' (snd (rd_delete R t ks r)) k = (if k \<in> set ks then None else live t' r k)"
    and delete_count: "live t r k \<noteq> None \<Longrightarrow> 0 < fst (rd_delete R t [k] r)"
begin

lemma delete_key [simp]: "t \<le> t' \<Longrightarrow> live t' (snd (rd_delete R t [k] r)) k = None"
  by (simp add: delete_live)

lemma delete_other [simp]:
  "t \<le> t' \<Longrightarrow> k' \<noteq> k \<Longrightarrow> live t' (snd (rd_delete R t [k] r)) k' = live t' r k'"
  by (simp add: delete_live)

lemma delete_result_nonneg_observed:
  "live t r k = Some v \<Longrightarrow> 0 < fst (rd_delete R t [k] (snd (rd_get R t k r)))"
  by (intro delete_count) (simp add: get_live)

text \<open>The release script deletes the key exactly when it still holds the caller's token.\<close>

lemma release_script_owner:
  assumes "live t r k = Some token"
  shows "0 < fst (lock_release_lua R t k token r)"
    and "t \<le> t' \<Longrightarrow> live t' (snd (lock_release_lua R t k token r)) k = None"
  using assms get_value [of t k r] delete_result_nonneg_observed [of t r k token]
  by (auto simp: lock_release_lua_def split: prod.splits)

lemma release_script_other_owner:
  assumes "live t r k \<noteq> Some token"
  shows "fst (lock_release_lua R t k token r) = 0"
    and "t \<le> t' \<Longrightarrow> live t' (snd (lock_release_lua R t k token r)) k' = live t' r k'"
  using assms get_value [of t k r] get_live [of t t' k r k']
  by (auto simp: lock_release_lua_def split: prod.splits)

lemma release_script_other_key:
  assumes "t \<le> t'" and "k' \<noteq> k"
  shows "live t' (snd (lock_release_lua R t k token r)) k' = live t' r k'"
  using assms get_live [of t t' k r k']
  by (auto simp: lock_release_lua_def split: prod.splits)

text \<open>
  A value that is not the caller's survives the caller's release: the release of a lock never
  removes a lock someone else has acquired since.
\<close>

lemma release_script_safe:
  assumes "t \<le> t'" and "live t' r k' = Some v" and "k' = k \<Longrightarrow> v \<noteq> token"
  shows "live t' (snd (lock_release_lua R t k token r)) k' = Some v"
proof (cases "k' = k")
  case True
  then have "live t r k \<noteq> Some token"
    using assms live_antimono [OF assms(1,2)] by auto
  with assms show ?thesis using release_script_other_owner(2) by auto
next
  case False
  with assms show ?thesis by (simp add: release_script_other_key)
qed

end

section \<open>Sorted sets\<close>

text \<open>
  The entries of a sorted set, and the laws of the commands the rate limiter uses. \<open>ZADD\<close>
  is only described for a member that is not in the set yet; \<open>EXPIRE\<close> only for a key that has
  entries.
\<close>

definition entries :: "(int \<times> string) list option \<Rightarrow> (int \<times> string) list" where
  "entries z = (case z of None \<Rightarrow> [] | Some xs \<Rightarrow> xs)"

lemma entries_simps [simp]: "entries None = []" "entries (Some xs) = xs"
  by (simp_all add: entries_def)

locale redis_sorted_sets = redis_like +
  assumes zset_antimono: "t \<le> t' \<Longrightarrow> zset t r k = None \<Longrightarrow> zset t' r k = None"
    and zset_fades: "t \<le> t' \<Longrightarrow> entries (zset t' r k) \<in> {[], entries (zset t r k)}"
    and set_zset_key: "zset t r k = None \<Longrightarrow> t \<le> t' \<Longrightarrow>
          zset t' (snd (rd_set R t k v ex nx r)) k = None"
    and zrem_entries: "t \<le> t' \<Longrightarrow> entries (zset t' (snd (rd_zremrangebyscore R t k m r)) k)
          = filter (\<lambda>e. m < fst e) (entries (zset t' r k))"
    and zrem_live: "t \<le> t' \<Longrightarrow> live t' (snd (rd_zremrangebyscore R t k m r)) k' = live t' r k'"
    and zrem_other: "t \<le> t' \<Longrightarrow> k' \<noteq> k \<Longrightarrow>
          zset t' (snd (rd_zremrangebyscore R t k m r)) k' = zset t' r k'"
    and zadd_entries: "member \<notin> snd ` set (entries (zset t r k)) \<Longrightarrow>
          mset (entries (zset t (snd (rd_zadd R t k member score r)) k))
          = add_mset (score, member) (mset (entries (zset t r k)))"
    and zadd_live: "t \<le> t' \<Longrightarrow> live t' (snd (rd_zadd R t k member score r)) k' = live t' r k'"
    and zadd_other: "t \<le> t' \<Longrightarrow> k' \<noteq> k \<Longrightarrow>
          zset t' (snd (rd_zadd R t k member score r)) k' = zset t' r k'"
    and expire_entries: "0 < secs \<Longrightarrow> entries (zset t r k) \<noteq> [] \<Longrightarrow> t \<le> t' \<Longrightarrow> t' < t + seconds secs \<Longrightarrow>
          entries (zset t' (snd (rd_expire R t k secs r)) k) = entries (zset t r k)"
    and expire_other: "t \<le> t' \<Longrightarrow> k' \<noteq> k \<Longrightarrow>
          live t' (snd (rd_expire R t k secs r)) k' = live t' r k'
          \<and> zset t' (snd (rd_expire R t k secs r)) k' = zset t' r k'"
    and zcard_value: "fst (rd_zcard R t k r) = int (length (entries (zset t r k)))"
    and zcard_frame: "t \<le> t' \<Longrightarrow> live t' (snd (rd_zcard R t k r)) k' = live t' r k'
          \<and> zset t' (snd (rd_zcard R t k r)) k' = zset t' r k'"

section \<open>FakeRedis\<close>

record fake_redis =
  fk_store :: "string \<Rightarrow> string option"
  fk_sorted_sets :: "string \<Rightarrow> (int \<times> string) list option"
  fk_expirations :: "string \<Rightarrow> int option"

definition fake_empty :: fake_redis where
  "fake_empty = \<lparr>fk_store = Map.empty, fk_sorted_sets = Map.empty, fk_expirations = Map.empty\<rparr>"

definition fake_is_expired :: "int \<Rightarrow> string \<Rightarrow> fake_redis \<Rightarrow> bool" where
  "fake_is_expired now key r =
     (case fk_expirations r key of None \<Rightarrow> False | Some deadline \<Rightarrow> deadline < now)"

definition fake_evict_if_expired :: "int \<Rightarrow> string \<Rightarrow> fake_redis \<Rightarrow> fake_redis" where
  "fake_evict_if_expired now key r =
     (if fake_is_expired now key r
      then r\<lparr>fk_store := (fk_store r)(key := None),
             fk_sorted_sets := (fk_sorted_sets r)(key := None),
             fk_expirations := (fk_expirations r)(key := None)\<rparr>
      else r)"

definition fake_set :: "int \<Rightarrow> string \<Rightarrow> string \<Rightarrow> int option \<Rightarrow> bool \<Rightarrow> fake_redis \<Rightarrow> bool \<times> fake_redis" where
  "fake_set now key value ex nx r0 =
     (let r = fake_evict_if_expired now key r0 in
      if nx \<and> fk_store r key \<noteq> None then (False, r)
      else (True,
        (let r1 = r\<lparr>fk_store := (fk_store r)(key := Some value)\<rparr> in
         case ex of None \<Rightarrow> r1
         | Some ttl \<Rightarrow> r1\<lparr>fk_expirations := (fk_expirations r1)(key := Some (now + seconds ttl))\<rparr>)))"

definition fake_get :: "int \<Rightarrow> string \<Rightarrow> fake_redis \<Rightarrow> string option \<times> fake_redis" where
  "fake_get now key r0 = (let r = fake_evict_if_expired now key r0 in (fk_store r key, r))"

definition fake_exists :: "int \<Rightarrow> string \<Rightarrow> fake_redis \<Rightarrow> int \<times> fake_redis" where
  "fake_exists now key r0 =
     (let r = fake_evict_if_expired now key r0 in
      (if fk_store r key \<noteq> None \<or> fk_sorted_sets r key \<noteq> None then 1 else 0, r))"

fun fake_delete :: "string list \<Rightarrow> fake_redis \<Rightarrow> int \<times> fake_redis" where
  "fake_delete [] r = (0, r)"
| "fake_delete (key # keys) r =
     (let d1 = (if fk_store r key \<noteq> None then 1 else 0);
          d2 = (if fk_sorted_sets r key \<noteq> None then 1 else 0);
          r1 = r\<lparr>fk_store := (fk_store r)(key := None),
                 fk_sorted_sets := (fk_sorted_sets r)(key := None),
                 fk_expirations := (fk_expirations r)(key := None)\<rparr>
      in case fake_delete keys r1 of (n, r2) \<Rightarrow> (d1 + d2 + n, r2))"

definition zentries :: "fake_redis \<Rightarrow> string \<Rightarrow> (int \<times> string) list" where
  "zentries r key = (case fk_sorted_sets r key of None \<Rightarrow> [] | Some xs \<Rightarrow> xs)"

definition fake_zadd :: "int \<Rightarrow> string \<Rightarrow> string \<Rightarrow> int \<Rightarrow> fake_redis \<Rightarrow> int \<times> fake_redis" where
  "fake_zadd now key member score r0 =
     (let r = fake_evict_if_expired now key r0;
          xs = zentries r key in
      (if member \<in> snd ` set xs then 0 else 1,
       r\<lparr>fk_sorted_sets := (fk_sorted_sets r)(key \<mapsto> sort_key fst (xs @ [(score, member)]))\<rparr>))"

definition fake_zremrangebyscore :: "int \<Rightarrow> string \<Rightarrow> int \<Rightarrow> fake_redis \<Rightarrow> int \<times> fake_redis" where
  "fake_zremrangebyscore now key max_score r0 =
     (let r = fake_evict_if_expired now key r0;
          before = zentries r key;
          after = filter (\<lambda>(s, m). \<not> s \<le> max_score) before in
      (int (length before) - int (length after),
       r\<lparr>fk_sorted_sets := (fk_sorted_sets r)(key \<mapsto> after)\<rparr>))"

definition fake_zcard :: "int \<Rightarrow> string \<Rightarrow> fake_redis \<Rightarrow> int \<times> fake_redis" where
  "fake_zcard now key r0 =
     (let r = fake_evict_if_expired now key r0 in (int (length (zentries r key)), r))"

definition fake_expire :: "int \<Rightarrow> string \<Rightarrow> int \<Rightarrow> fake_redis \<Rightarrow> bool \<times> fake_redis" where
  "fake_expire now key secs r =
     (True, r\<lparr>fk_expirations := (fk_expirations r)(key \<mapsto> now + seconds secs)\<rparr>)"

definition fake_redis_ops :: "fake_redis redis_ops" where
  "fake_redis_ops =
     \<lparr>rd_set = fake_set, rd_get = fake_get, rd_exists = fake_exists,
      rd_delete = (\<lambda>now. fake_delete), rd_zadd = fake_zadd,
      rd_zremrangebyscore = fake_zremrangebyscore, rd_zcard = fake_zcard, rd_expire = fake_expire\<rparr>"

lemma fake_redis_ops_simps [simp]:
  "rd_set fake_redis_ops = fake_set"
  "rd_get fake_redis_ops = fake_get"
  "rd_exists fake_redis_ops = fake_exists"
  "rd_delete fake_redis_ops = (\<lambda>now. fake_delete)"
  "rd_zadd fake_redis_ops = fake_zadd"
  "rd_zremrangebyscore fake_redis_ops = fake_zremrangebyscore"
  "rd_zcard fake_redis_ops = fake_zcard"
  "rd_expire fake_redis_ops = fake_expire"
  by (simp_all add: fake_redis_ops_def)

text \<open>What a key shows at a time: the stored value unless its deadline has passed.\<close>

definition fake_live :: "int \<Rightarrow> fake_redis \<Rightarrow> string \<Rightarrow> string option" where
  "fake_live t r k = (if fake_is_expired t k r then None else fk_store r k)"

definition fake_zset :: "int \<Rightarrow> fake_redis \<Rightarrow> string \<Rightarrow> (int \<times> string) list option" where
  "fake_zset t r k = (if fake_is_expired t k r then None else fk_sorted_sets r k)"

lemmas fake_defs = fake_live_def fake_zset_def fake_is_expired_def fake_evict_if_expired_def

lemma fake_evict_live [simp]:
  "t \<le> t' \<Longrightarrow> fake_live t' (fake_evict_if_expired t k r) k' = fake_live t' r k'"
  by (auto simp: fake_defs split: option.splits)

lemma fake_evict_zset [simp]:
  "t \<le> t' \<Longrightarrow> fake_zset t' (fake_evict_if_expired t k r) k' = fake_zset t' r k'"
  by (auto simp: fake_defs split: option.splits)

lemma fake_evict_store [simp]: "fk_store (fake_evict_if_expired t k r) k = fake_live t r k"
  by (simp add: fake_defs)

lemma fake_evict_sorted_sets [simp]:
  "fk_sorted_sets (fake_evict_if_expired t k r) k = fake_zset t r k"
  by (simp add: fake_defs)

lemma fake_drop_live:
  "fake_live t (r\<lparr>fk_store := (fk_store r)(k := None),
       fk_sorted_sets := (fk_sorted_sets r)(k := None),
       fk_expirations := (fk_expirations r)(k := None)\<rparr>) k'
   = (if k' = k then None else fake_live t r k')"
  by (simp add: fake_live_def fake_is_expired_def)

lemma fake_delete_live:
  "fake_live t (snd (fake_delete ks r)) k = (if k \<in> set ks then None else fake_live t r k)"
proof (induction ks arbitrary: r)
  case Nil
  show ?case by simp
next
  case (Cons k' ks)
  show ?case by (simp add: Let_def split_beta Cons.IH fake_drop_live)
qed

lemma fake_set_refused:
  "fake_live t r k \<noteq> None \<Longrightarrow> snd (fake_set t k v ex True r) = fake_evict_if_expired t k r"
  by (simp add: fake_set_def Let_def)

lemma fake_set_done:
  assumes "\<not> nx \<or> fake_live t r k = None"
  shows "fake_live t' (snd (fake_set t k v (Some ttl) nx r)) k
         = (if t + seconds ttl < t' then None else Some v)"
  using assms by (auto simp: fake_set_def Let_def fake_live_def fake_is_expired_def)

lemma fake_set_other_key:
  assumes "k' \<noteq> k" and "t \<le> t'"
  shows "fake_live t' (snd (fake_set t k v ex nx r)) k' = fake_live t' r k'"
    and "fake_zset t' (snd (fake_set t k v ex nx r)) k' = fake_zset t' r k'"
  using assms fake_evict_live [OF assms(2), of k r k'] fake_evict_zset [OF assms(2), of k r k']
  by (auto simp: fake_set_def Let_def fake_live_def fake_zset_def fake_is_expired_def
      split: option.splits if_splits)

interpretation fake: redis_like fake_redis_ops fake_live fake_zset
proof (unfold_locales, goal_cases)
  case (1 t t' r k v)
  then show ?case by (auto simp: fake_defs split: option.splits if_splits)
next
  case (2 t k r)
  show ?case by (simp add: fake_get_def Let_def)
next
  case (3 t t' k r k')
  then show ?case by (simp add: fake_get_def Let_def)
next
  case (4 t t' k' k r)
  then show ?case by (simp add: fake_get_def Let_def)
next
  case (5 t r k)
  then show ?case by (simp add: fake_exists_def Let_def)
next
  case (6 t t' k r k')
  then show ?case by (simp add: fake_exists_def Let_def)
next
  case (7 t t' k r k')
  then show ?case by (simp add: fake_exists_def Let_def)
next
  case (8 t k v ex nx r)
  then show ?case by (auto simp: fake_set_def Let_def)
next
  case (9 ttl nx t r k t' v)
  then show ?case by (simp add: fake_set_done)
next
  case (10 ttl nx t r k t' v)
  then show ?case by (simp add: fake_set_done)
next
  case (11 nx t r k t' v ex k')
  then show ?case by (simp add: fake_set_refused)
next
  case (12 k' k t t' v ex nx r)
  then show ?case by (simp add: fake_set_other_key)
next
  case (13 k' k t t' v ex nx r)
  then show ?case by (simp add: fake_set_other_key)
next
  case (14 t t' ks r k)
  then show ?case by (simp add: fake_delete_live)
next
  case (15 t r k)
  then show ?case by (auto simp: Let_def fake_live_def split: if_splits)
qed

lemma fake_zentries: "zentries (fake_evict_if_expired t k r) k = entries (fake_zset t r k)"
  by (simp add: zentries_def entries_def)

lemma fake_evict_expired:
  "fake_is_expired t' k' (fake_evict_if_expired t k r)
   = (if k' = k \<and> fake_is_expired t k r then False else fake_is_expired t' k' r)"
  by (simp add: fake_is_expired_def fake_evict_if_expired_def)

text \<open>Writing the sorted set of a key that was evicted first.\<close>

lemma fake_write_zset:
  assumes "t \<le> t'" and r'_def: "r' = (fake_evict_if_expired t k r)
    \<lparr>fk_sorted_sets := (fk_sorted_sets (fake_evict_if_expired t k r))(k \<mapsto> xs)\<rparr>"
  shows "fake_live t' r' k' = fake_live t' r k'"
    and "k' \<noteq> k \<Longrightarrow> fake_zset t' r' k' = fake_zset t' r k'"
    and "fake_zset t' r' k = (if \<not> fake_is_expired t k r \<and> fake_is_expired t' k r then None else Some xs)"
proof -
  have e: "fake_is_expired t' j r' = fake_is_expired t' j (fake_evict_if_expired t k r)" for j
    by (simp add: r'_def fake_is_expired_def)
  show "fake_live t' r' k' = fake_live t' r k'"
    using fake_evict_live [OF assms(1), of k r k'] e [of k']
    by (auto simp: fake_live_def r'_def split: if_splits)
  show "fake_zset t' r' k' = fake_zset t' r k'" if "k' \<noteq> k"
    using fake_evict_zset [OF assms(1), of k r k'] e [of k'] that
    by (auto simp: fake_zset_def r'_def split: if_splits)
  show "fake_zset t' r' k = (if \<not> fake_is_expired t k r \<and> fake_is_expired t' k r then None else Some xs)"
    using e [of k] by (simp add: fake_zset_def r'_def fake_evict_expired)
qed

lemma fake_expired_mono: "t \<le> t' \<Longrightarrow> fake_is_expired t k r \<Longrightarrow> fake_is_expired t' k r"
  by (auto simp: fake_is_expired_def split: option.splits)

interpretation fake_sets: redis_sorted_sets fake_redis_ops fake_live fake_zset
proof (unfold_locales, goal_cases)
  case (1 t t' r k)
  then show ?case using fake_expired_mono [of t t' k r] by (auto simp: fake_zset_def split: if_splits)
next
  case (2 t t' r k)
  then show ?case using fake_expired_mono [of t t' k r] by (auto simp: fake_zset_def)
next
  case (3 t r k t' v ex nx)
  then show ?case
    by (auto simp: fake_set_def Let_def fake_zset_def fake_is_expired_def fake_evict_if_expired_def
        split: option.splits if_splits)
next
  case (4 t t' k m r)
  then show ?case using fake_expired_mono [of t t' k r] fake_write_zset(3) [OF 4 HOL.refl, of k r]
    by (auto simp: fake_zremrangebyscore_def Let_def fake_zentries fake_zset_def not_le
        case_prod_beta' intro!: arg_cong2 [where f = filter])
next
  case (5 t t' k m r k')
  then show ?case by (simp add: fake_zremrangebyscore_def Let_def fake_write_zset [OF _ HOL.refl])
next
  case (6 t t' k' k m r)
  then show ?case by (simp add: fake_zremrangebyscore_def Let_def fake_write_zset [OF _ HOL.refl])
next
  case (7 member t r k score)
  then show ?case by (simp add: fake_zadd_def Let_def fake_zentries fake_write_zset [OF _ HOL.refl])
next
  case (8 t t' k member score r k')
  then show ?case by (simp add: fake_zadd_def Let_def fake_write_zset [OF _ HOL.refl])
next
  case (9 t t' k' k member score r)
  then show ?case by (simp add: fake_zadd_def Let_def fake_write_zset [OF _ HOL.refl])
next
  case (10 secs t r k t')
  then show ?case by (auto simp: fake_expire_def fake_zset_def fake_is_expired_def split: if_splits)
next
  case (11 t t' k' k secs r)
  then show ?case by (simp add: fake_expire_def fake_zset_def fake_live_def fake_is_expired_def)
next
  case (12 t k r)
  then show ?case by (simp add: fake_zcard_def Let_def fake_zentries)
next
  case (13 t t' k r k')
  then show ?case by (simp add: fake_zcard_def Let_def)
qed

end
