(* ===== verification/Cache.thy ===== *)
theory Cache
  imports Redis
begin

text \<open>
  The circuit breaker of \<open>src/core/cache.py\<close>. Its methods \<open>_maybe_transition_to_half_open\<close>,
  \<open>_record_failure\<close> and \<open>_record_success\<close> each run under the breaker's lock; a \<open>call\<close>
  releases the lock while the wrapped function runs, so calls of several tasks interleave at
  these three points. Times are readings of \<open>time.monotonic()\<close> in microseconds.
\<close>

section \<open>State and operations\<close>

datatype breaker_state = Closed | Open | HalfOpen

record breaker =
  br_name :: string
  br_fail_max :: int
  br_reset_timeout :: int
  br_state :: breaker_state
  br_failure_count :: int
  br_opened_at :: "int option"

definition new_breaker :: "string \<Rightarrow> int \<Rightarrow> int \<Rightarrow> exc + breaker" where
  "new_breaker name fail_max reset_timeout =
     (if fail_max \<le> 0 then Inl (ValueError ''fail_max must be > 0'')
      else if reset_timeout \<le> 0 then Inl (ValueError ''reset_timeout must be > 0'')
      else Inr \<lparr>br_name = name, br_fail_max = fail_max, br_reset_timeout = reset_timeout,
                br_state = Closed, br_failure_count = 0, br_opened_at = None\<rparr>)"

definition maybe_transition_to_half_open :: "int \<Rightarrow> breaker \<Rightarrow> breaker" where
  "maybe_transition_to_half_open now b =
     (case br_opened_at b of
        None \<Rightarrow> b
      | Some opened \<Rightarrow>
          if br_state b = Open \<and> now - opened \<ge> br_reset_timeout b
          then b\<lparr>br_state := HalfOpen\<rparr> else b)"

definition record_failure :: "int \<Rightarrow> breaker \<Rightarrow> breaker" where
  "record_failure now b =
     (let b1 = b\<lparr>br_failure_count := br_failure_count b + 1\<rparr> in
      if br_state b1 = HalfOpen \<or> br_failure_count b1 \<ge> br_fail_max b1
      then b1\<lparr>br_state := Open, br_opened_at := Some now\<rparr> else b1)"

definition record_success :: "breaker \<Rightarrow> breaker" where
  "record_success b = b\<lparr>br_state := Closed, br_failure_count := 0, br_opened_at := None\<rparr>"

definition breaker_reset :: "breaker \<Rightarrow> breaker" where
  "breaker_reset b = b\<lparr>br_state := Closed, br_failure_count := 0, br_opened_at := None\<rparr>"

definition breaker_open_error :: "breaker \<Rightarrow> exc" where
  "breaker_open_error b = nimbus_error CacheUnavailableError
     (Some (''Circuit breaker '' @ py_repr_str (br_name b) @ '' is open'')) None"

text \<open>
  \<open>call(func)\<close> without interference of other tasks; \<open>t0\<close> is the clock at entry, \<open>t1\<close> when a
  failure is recorded.
\<close>

definition breaker_call ::
    "int \<Rightarrow> int \<Rightarrow> ('s, exc, 'a) comp \<Rightarrow> (breaker \<times> 's, exc, 'a) comp" where
  "breaker_call t0 t1 func bs =
     (let b = maybe_transition_to_half_open t0 (fst bs) in
      if br_state b = Open then (Inl (breaker_open_error b), (b, snd bs))
      else (case func (snd bs) of
              (Inl e, s) \<Rightarrow> (Inl e, (record_failure t1 b, s))
            | (Inr x, s) \<Rightarrow> (Inr x, (record_success b, s))))"

text \<open>The atomic sections of concurrent calls; an interleaving is a list of them.\<close>

datatype breaker_action = Enter int | Fail int | Succeed | Reset

fun breaker_event :: "breaker_action \<Rightarrow> breaker \<Rightarrow> breaker" where
  "breaker_event (Enter now) b = maybe_transition_to_half_open now b"
| "breaker_event (Fail now) b = record_failure now b"
| "breaker_event Succeed b = record_success b"
| "breaker_event Reset b = breaker_reset b"

lemmas breaker_defs = maybe_transition_to_half_open_def record_failure_def record_success_def
  breaker_reset_def

section \<open>Invariant\<close>

text \<open>
  The breaker is closed exactly while fewer than \<open>fail_max\<close> failures are counted, and has an
  opening time exactly while it is not closed.
\<close>

definition breaker_inv :: "breaker \<Rightarrow> bool" where
  "breaker_inv b \<longleftrightarrow>
     0 < br_fail_max b \<and> 0 < br_reset_timeout b \<and> 0 \<le> br_failure_count b \<and>
     (br_state b = Closed \<longleftrightarrow> br_failure_count b < br_fail_max b) \<and>
     (br_state b = Closed \<longleftrightarrow> br_opened_at b = None)"

lemma new_breaker_inv: "new_breaker n m t = Inr b \<Longrightarrow> breaker_inv b"
  by (auto simp: new_breaker_def breaker_inv_def split: if_splits)

lemma maybe_transition_inv [inv_intros]:
  "breaker_inv b \<Longrightarrow> breaker_inv (maybe_transition_to_half_open now b)"
  by (auto simp: breaker_inv_def breaker_defs split: option.splits)

lemma record_failure_inv [inv_intros]: "breaker_inv b \<Longrightarrow> breaker_inv (record_failure now b)"
  by (auto simp: breaker_inv_def breaker_defs Let_def)

lemma record_success_inv [inv_intros]: "breaker_inv b \<Longrightarrow> breaker_inv (record_success b)"
  by (auto simp: breaker_inv_def breaker_defs)

lemma breaker_reset_inv [inv_intros]: "breaker_inv b \<Longrightarrow> breaker_inv (breaker_reset b)"
  by (auto simp: breaker_inv_def breaker_defs)

lemma breaker_event_inv: "breaker_inv b \<Longrightarrow> breaker_inv (breaker_event e b)"
  by (cases e) (auto intro: inv_intros)

lemma breaker_events_inv: "breaker_inv b \<Longrightarrow> breaker_inv (fold breaker_event es b)"
  by (induction es arbitrary: b) (auto intro: breaker_event_inv)

lemma breaker_call_inv:
  "breaker_inv (fst bs) \<Longrightarrow> breaker_inv (fst (snd (breaker_call t0 t1 f bs)))"
  by (auto simp: breaker_call_def Let_def intro: inv_intros split: prod.splits sum.splits)

section \<open>Behaviour of a call\<close>

text \<open>The two ways a call can go: refused without running the function, or exactly one run.\<close>

lemma breaker_call_cases:
  obtains (refused) b where "breaker_call t0 t1 f (b0, s) = (Inl (breaker_open_error b), (b, s))"
      and "br_state b = Open"
    | (failed) e s' b where "f s = (Inl e, s')" and "breaker_call t0 t1 f (b0, s) = (Inl e, (b, s'))"
    | (succeeded) x s' b where "f s = (Inr x, s')"
      and "breaker_call t0 t1 f (b0, s) = (Inr x, (b, s'))" and "br_state b = Closed"
proof -
  let ?b = "maybe_transition_to_half_open t0 b0"
  show thesis
  proof (cases "br_state ?b = Open")
    case True
    then show thesis by (intro refused [of ?b]) (simp_all add: breaker_call_def Let_def)
  next
    case False
    obtain r s' where f: "f s = (r, s')" by (cases "f s")
    show thesis
    proof (cases r)
      case (Inl e)
      with False f show thesis
        by (intro failed [of e s' "record_failure t1 ?b"]) (simp_all add: breaker_call_def Let_def)
    next
      case (Inr x)
      with False f show thesis
        by (intro succeeded [of x s' "record_success ?b"])
          (simp_all add: breaker_call_def Let_def record_success_def)
    qed
  qed
qed

lemma breaker_call_admitted:
  assumes "br_state b \<noteq> Open"
  shows "breaker_call t0 t1 f (b, s) =
    (case f s of (Inl e, s') \<Rightarrow> (Inl e, (record_failure t1 b, s'))
     | (Inr x, s') \<Rightarrow> (Inr x, (record_success b, s')))"
  using assms
  by (simp add: breaker_call_def maybe_transition_to_half_open_def Let_def split: option.splits)

lemma breaker_call_refused:
  assumes "br_state b = Open" and "br_opened_at b = Some o'" and "t0 - o' < br_reset_timeout b"
  shows "breaker_call t0 t1 f (b, s) = (Inl (breaker_open_error b), (b, s))"
  using assms by (simp add: breaker_call_def maybe_transition_to_half_open_def Let_def)

lemma breaker_call_trial:
  assumes "br_state b = Open" and "br_opened_at b = Some o'" and "br_reset_timeout b \<le> t0 - o'"
  shows "breaker_call t0 t1 f (b, s) =
    (case f s of
       (Inl e, s') \<Rightarrow> (Inl e, (b\<lparr>br_failure_count := br_failure_count b + 1,
                                br_opened_at := Some t1\<rparr>, s'))
     | (Inr x, s') \<Rightarrow> (Inr x, (record_success b, s')))"
  using assms
  by (auto simp: breaker_call_def breaker_defs Let_def split: prod.splits sum.splits)

text \<open>A run of calls that all fail, with their clock readings.\<close>

fun failing_calls :: "(int \<times> int) list \<Rightarrow> ('s, exc, 'a) comp \<Rightarrow> breaker \<times> 's \<Rightarrow> breaker \<times> 's" where
  "failing_calls [] f bs = bs"
| "failing_calls ((t0, t1) # ts) f bs = failing_calls ts f (snd (breaker_call t0 t1 f bs))"

lemma failing_calls_closed:
  assumes "breaker_inv b" and "br_state b = Closed" and "\<And>s. f s = (Inl e, s)"
    and "br_failure_count b + int (length ts) < br_fail_max b"
  shows "failing_calls ts f (b, s)
         = (b\<lparr>br_failure_count := br_failure_count b + int (length ts)\<rparr>, s)"
  using assms
proof (induction ts arbitrary: b)
  case Nil
  show ?case by simp
next
  case (Cons t ts)
  obtain t0 t1 where t: "t = (t0, t1)" by (cases t)
  let ?b = "b\<lparr>br_failure_count := br_failure_count b + 1\<rparr>"
  have step: "breaker_call t0 t1 f (b, s) = (Inl e, (?b, s))"
    using Cons.prems by (simp add: breaker_call_admitted record_failure_def Let_def)
  have "breaker_inv ?b" using Cons.prems by (simp add: breaker_inv_def)
  moreover have "br_state ?b = Closed" using Cons.prems by simp
  moreover have "br_failure_count ?b + int (length ts) < br_fail_max ?b" using Cons.prems by simp
  ultimately have "failing_calls ts f (?b, s)
      = (?b\<lparr>br_failure_count := br_failure_count ?b + int (length ts)\<rparr>, s)"
    using Cons.IH [of ?b] Cons.prems(3) by blast
  then show ?case by (simp add: t step algebra_simps)
qed

lemma failing_calls_append: "failing_calls (ts @ us) f bs = failing_calls us f (failing_calls ts f bs)"
  by (induction ts f bs rule: failing_calls.induct) auto

lemma breaker_call_timeout [frame]:
  "br_reset_timeout (fst (snd (breaker_call t0 t1 f bs))) = br_reset_timeout (fst bs)"
  by (auto simp: breaker_call_def breaker_defs Let_def split: prod.splits sum.splits option.splits)

lemma failing_calls_timeout [frame]:
  "br_reset_timeout (fst (failing_calls ts f bs)) = br_reset_timeout (fst bs)"
  by (induction ts f bs rule: failing_calls.induct) (simp_all add: breaker_call_timeout)

lemma breaker_opens:
  assumes "new_breaker n m timeout = Inr b" and "\<And>s. f s = (Inl e, s)" and "int (length ts) = m"
  shows "br_state (fst (failing_calls ts f (b, s))) = Open"
    and "br_opened_at (fst (failing_calls ts f (b, s))) = Some (snd (last ts))"
proof -
  have inv: "breaker_inv b" using assms(1) by (rule new_breaker_inv)
  have b: "br_state b = Closed" "br_failure_count b = 0" "br_fail_max b = m" "0 < m"
    using assms(1) by (auto simp: new_breaker_def split: if_splits)
  with assms(3) have "ts \<noteq> []" by auto
  then obtain us t0 t1 where ts: "ts = us @ [(t0, t1)]" by (metis rev_exhaust surj_pair)
  let ?b = "b\<lparr>br_failure_count := int (length us)\<rparr>"
  have "failing_calls us f (b, s) = (?b, s)"
    using failing_calls_closed [OF inv b(1) assms(2), of us s] b assms(3) ts by simp
  then have "failing_calls ts f (b, s) = snd (breaker_call t0 t1 f (?b, s))"
    by (simp add: ts failing_calls_append)
  also have "\<dots> = (record_failure t1 ?b, s)"
    using b assms(2) by (simp add: breaker_call_admitted)
  finally show "br_state (fst (failing_calls ts f (b, s))) = Open"
    and "br_opened_at (fst (failing_calls ts f (b, s))) = Some (snd (last ts))"
    using b assms(3) ts by (simp_all add: record_failure_def Let_def)
qed

section \<open>Properties\<close>

text \<open>
  The breaker's invariant holds in every state that any interleaving of concurrent calls can
  reach: closed exactly while fewer than \<open>fail_max\<close> failures are counted, and with an opening time
  exactly while it is not closed.
\<close>

theorem breaker_invariant:
  assumes "new_breaker name fail_max reset_timeout = Inr b"
  shows "breaker_inv (fold breaker_event es b)
    \<and> br_fail_max (fold breaker_event es b) = fail_max
    \<and> br_reset_timeout (fold breaker_event es b) = reset_timeout"
proof -
  have keep: "br_fail_max (breaker_event e b) = br_fail_max b \<and> br_reset_timeout (breaker_event e b) = br_reset_timeout b"
    for e b by (cases e) (simp_all add: breaker_defs Let_def split: option.splits)
  have "br_fail_max (fold breaker_event es b) = br_fail_max b
      \<and> br_reset_timeout (fold breaker_event es b) = br_reset_timeout b"
    by (induction es arbitrary: b) (simp_all add: keep)
  moreover have "br_fail_max b = fail_max \<and> br_reset_timeout b = reset_timeout"
    using assms by (auto simp: new_breaker_def split: if_splits)
  ultimately show ?thesis using breaker_events_inv [OF new_breaker_inv [OF assms]] by simp
qed

theorem breaker_invariant_witness:
  "breaker_inv (fold breaker_event [Enter 0, Fail 1, Enter 2, Fail 3, Enter 40, Succeed]
     (projr (new_breaker ''redis'' 2 30)))"
proof -
  have "new_breaker ''redis'' 2 30 = Inr (projr (new_breaker ''redis'' 2 30))" by (simp add: new_breaker_def)
  from breaker_invariant [OF this] show ?thesis by blast
qed

text \<open>
  C27: After \<open>fail_max\<close> failing calls in a row the breaker refuses calls without running them, until
  \<open>reset_timeout\<close> has passed since the last failure; then one call is let through, and its outcome
  decides: a success closes the breaker and clears the count, a failure opens it again from that
  moment.
\<close>

theorem breaker_protects:
  assumes "new_breaker name fail_max reset_timeout = Inr b" and "\<And>s. f s = (Inl e, s)"
    and "int (length ts) = fail_max" and "b' = fst (failing_calls ts f (b, s))"
  shows "(t0 - snd (last ts) < reset_timeout \<longrightarrow>
        breaker_call t0 t1 g (b', s') = (Inl (breaker_open_error b'), (b', s')))
    \<and> (reset_timeout \<le> t0 - snd (last ts) \<longrightarrow>
        breaker_call t0 t1 g (b', s') = (case g s' of
          (Inl e', s'') \<Rightarrow> (Inl e', (b'\<lparr>br_failure_count := br_failure_count b' + 1, br_opened_at := Some t1\<rparr>, s''))
        | (Inr x, s'') \<Rightarrow> (Inr x, (b'\<lparr>br_state := Closed, br_failure_count := 0, br_opened_at := None\<rparr>, s''))))"
proof -
  have "br_reset_timeout b' = br_reset_timeout b" using assms(4) by (simp add: failing_calls_timeout)
  also have "\<dots> = reset_timeout" using assms(1) by (auto simp: new_breaker_def split: if_splits)
  finally have rt: "br_reset_timeout b' = reset_timeout" .
  note opens = breaker_opens [OF assms(1-3), of s, folded assms(4)]
  show ?thesis
    using breaker_call_refused [OF opens, of t0 t1 g s'] breaker_call_trial [OF opens, of t0 t1 g s'] rt
    by (auto simp: record_success_def split: prod.splits sum.splits)
qed

definition tripped :: breaker where
  "tripped = fst (failing_calls [(0, 1), (2, 3)] (\<lambda>s::nat. (Inl (RedisError ''down''), s) :: (exc + nat) \<times> nat)
     (projr (new_breaker ''redis'' 2 30), 0))"

theorem breaker_protects_witness:
  "breaker_call 10 11 (\<lambda>s::nat. (Inr s, s) :: (exc + nat) \<times> nat) (tripped, 5)
   = (Inl (breaker_open_error tripped), (tripped, 5))"
proof -
  have n: "new_breaker ''redis'' 2 30 = Inr (projr (new_breaker ''redis'' 2 30))" by (simp add: new_breaker_def)
  from breaker_protects [OF n, of "\<lambda>s::nat. (Inl (RedisError ''down''), s) :: (exc + nat) \<times> nat"
      "RedisError ''down''" "[(0, 1), (2, 3)]" tripped 0 10 11 "\<lambda>s::nat. (Inr s, s) :: (exc + nat) \<times> nat" 5]
  show ?thesis by (simp add: tripped_def)
qed

end
