(* ===== verification/Dedupe.thy ===== *)
theory Dedupe
  imports Cache
begin

text \<open>
  \<open>RedisDedupe\<close> of \<open>src/core/dedupe.py\<close>: an atomic check-and-set of a key with a TTL, made
  through the circuit breaker.
\<close>

section \<open>One Redis request through the breaker\<close>

text \<open>
  What the outside world decides about one guarded request: the wall clock at the server, the
  monotonic clock at entry and at a failure, and the fate of the request.
\<close>

record redis_io =
  io_now :: int
  io_mono :: int
  io_mono_fail :: int
  io_delivery :: delivery

definition guarded_request ::
    "redis_io \<Rightarrow> ('r \<Rightarrow> 'a \<times> 'r) \<Rightarrow> (breaker \<times> 'r, exc, 'a) comp" where
  "guarded_request io cmd = breaker_call (io_mono io) (io_mono_fail io) (round_trip (io_delivery io) cmd)"

section \<open>check\_and\_record\<close>

definition dedupe_default_ttl :: int where
  "dedupe_default_ttl = 7 * 24 * 60 * 60"

definition dedupe_key :: "string \<Rightarrow> string \<Rightarrow> string" where
  "dedupe_key prefix dedupe_id = prefix @ dedupe_id"

definition check_and_record ::
    "'r redis_ops \<Rightarrow> redis_io \<Rightarrow> string \<Rightarrow> string \<Rightarrow> int option \<Rightarrow> (breaker \<times> 'r, exc, bool) comp" where
  "check_and_record R io prefix dedupe_id ttl_seconds =
     (if dedupe_id = [] then raise_exc (ValueError ''dedupe_id must be a non-empty string'')
      else let ttl = (case ttl_seconds of Some n \<Rightarrow> n | None \<Rightarrow> dedupe_default_ttl) in
      if ttl \<le> 0 then raise_exc (ValueError ''ttl_seconds must be > 0'')
      else
        try_except
          (guarded_request io
             (rd_set R (io_now io) (dedupe_key prefix dedupe_id) ''1'' (Some ttl) True))
          (\<lambda>e. if exc_isinstance e CacheUnavailableError then ret True else raise_exc e))"

section \<open>Facts about guarded requests\<close>

lemma guarded_request_cases:
  obtains (refused) b where
      "guarded_request io cmd (b0, r) = (Inl (breaker_open_error b), (b, r))"
    | (lost) e b r' where "guarded_request io cmd (b0, r) = (Inl e, (b, r'))"
        and "io_delivery io = NotDelivered e \<and> r' = r \<or> io_delivery io = ReplyLost e \<and> r' = snd (cmd r)"
    | (answered) b where "io_delivery io = Delivered" and "br_state b = Closed"
        and "guarded_request io cmd (b0, r) = (Inr (fst (cmd r)), (b, snd (cmd r)))"
proof (cases rule: breaker_call_cases [of "io_mono io" "io_mono_fail io"
      "round_trip (io_delivery io) cmd" b0 r])
  case (refused b)
  then show ?thesis using that(1) by (simp add: guarded_request_def)
next
  case (failed e s' b)
  then show ?thesis using that(2) [of e b s']
    by (auto simp: guarded_request_def round_trip_def split: delivery.splits prod.splits)
next
  case (succeeded x s' b)
  then show ?thesis using that(3) [of b]
    by (auto simp: guarded_request_def round_trip_def split: delivery.splits prod.splits)
qed

lemma guarded_request_delivered:
  assumes "br_state b = Closed" and "io_delivery io = Delivered"
  shows "guarded_request io cmd (b, r) = (Inr (fst (cmd r)), (record_success b, snd (cmd r)))"
  using assms
  by (simp add: guarded_request_def breaker_call_admitted round_trip_def split: prod.splits)

lemma breaker_open_error_isinstance [simp]:
  "exc_isinstance (breaker_open_error b) CacheUnavailableError"
  by (simp add: breaker_open_error_def nimbus_error_def)

section \<open>Facts about check\_and\_record\<close>

lemma check_and_record_unfold:
  assumes "dedupe_id \<noteq> []" and "0 < ttl"
  shows "check_and_record R io prefix dedupe_id (Some ttl) = try_except
      (guarded_request io (rd_set R (io_now io) (dedupe_key prefix dedupe_id) ''1'' (Some ttl) True))
      (\<lambda>e. if exc_isinstance e CacheUnavailableError then ret True else raise_exc e)"
  using assms by (simp add: check_and_record_def)

lemma check_and_record_default:
  "check_and_record R io prefix dedupe_id None
   = check_and_record R io prefix dedupe_id (Some dedupe_default_ttl)"
  by (simp add: check_and_record_def)

context redis_like
begin

text \<open>An answered check says whether the key was absent, and leaves it present.\<close>

lemma check_and_record_answered:
  assumes "dedupe_id \<noteq> []" and "0 < ttl" and "br_state b = Closed" and "io_delivery io = Delivered"
  shows "check_and_record R io prefix dedupe_id (Some ttl) (b, r) =
    (Inr (live (io_now io) r (dedupe_key prefix dedupe_id) = None),
     (record_success b,
      snd (rd_set R (io_now io) (dedupe_key prefix dedupe_id) ''1'' (Some ttl) True r)))"
  using assms
  by (simp add: check_and_record_unfold try_except_def guarded_request_delivered set_ok)

lemma recorded_live:
  assumes "0 < ttl" and "t \<le> t'" and "t' < t + seconds ttl"
    and "live t r k = None \<or> live t' r k \<noteq> None"
  shows "live t' (snd (rd_set R t k v (Some ttl) True r)) k \<noteq> None"
proof (cases "live t r k = None")
  case True
  then show ?thesis using assms set_live [of ttl True t r k t' v] by simp
next
  case False
  then show ?thesis using assms set_refused [of True t r k t' v "Some ttl" k] by auto
qed

end

section \<open>Properties\<close>

text \<open>
  The dedupe check answers True exactly once per key while the key lives: an answered check says
  whether the key was absent and leaves it present. Only an open breaker makes the check fail open
  (True, nothing recorded); an error of Redis itself is raised to the caller.
\<close>

theorem check_and_record_outcomes:
  assumes "redis_like R live zset" and "dedupe_id \<noteq> []" and "0 < ttl"
    and "k = dedupe_key prefix dedupe_id" and "t = io_now io"
  shows "(br_state b = Closed \<and> io_delivery io = Delivered \<longrightarrow>
      fst (check_and_record R io prefix dedupe_id (Some ttl) (b, r)) = Inr (live t r k = None)
      \<and> (\<forall>t'. t \<le> t' \<and> t' < t + seconds ttl \<and> live t r k = None \<longrightarrow>
           live t' (snd (snd (check_and_record R io prefix dedupe_id (Some ttl) (b, r)))) k = Some ''1''))
    \<and> (br_state b = Open \<and> br_opened_at b = Some o' \<and> io_mono io - o' < br_reset_timeout b \<longrightarrow>
      check_and_record R io prefix dedupe_id (Some ttl) (b, r) = (Inr True, (b, r)))
    \<and> (br_state b = Closed \<and> io_delivery io = NotDelivered (RedisError m) \<longrightarrow>
      fst (check_and_record R io prefix dedupe_id (Some ttl) (b, r)) = Inl (RedisError m))"
proof (intro conjI impI)
  assume h: "br_state b = Closed \<and> io_delivery io = Delivered"
  note ans = redis_like.check_and_record_answered [OF assms(1-3), of b io prefix r] h
  show "fst (check_and_record R io prefix dedupe_id (Some ttl) (b, r)) = Inr (live t r k = None)"
    using ans assms(4,5) by simp
  show "\<forall>t'. t \<le> t' \<and> t' < t + seconds ttl \<and> live t r k = None \<longrightarrow>
      live t' (snd (snd (check_and_record R io prefix dedupe_id (Some ttl) (b, r)))) k = Some ''1''"
    using ans assms(3-5) redis_like.set_live [OF assms(1)] by simp
next
  assume "br_state b = Open \<and> br_opened_at b = Some o' \<and> io_mono io - o' < br_reset_timeout b"
  then show "check_and_record R io prefix dedupe_id (Some ttl) (b, r) = (Inr True, (b, r))"
    using assms(2,3)
    by (simp add: check_and_record_unfold try_except_def guarded_request_def breaker_call_refused)
next
  assume "br_state b = Closed \<and> io_delivery io = NotDelivered (RedisError m)"
  then show "fst (check_and_record R io prefix dedupe_id (Some ttl) (b, r)) = Inl (RedisError m)"
    using assms(2,3)
    by (simp add: check_and_record_unfold try_except_def guarded_request_def breaker_call_admitted
        round_trip_def)
qed

theorem check_and_record_outcomes_witness:
  "fst (check_and_record fake_redis_ops \<lparr>io_now = 0, io_mono = 0, io_mono_fail = 0, io_delivery = Delivered\<rparr>
     ''d:'' ''x'' (Some 60)
     (\<lparr>br_name = ''redis'', br_fail_max = 5, br_reset_timeout = 30, br_state = Closed,
       br_failure_count = 0, br_opened_at = None\<rparr>, fake_empty)) = Inr True"
  using check_and_record_outcomes [where R = fake_redis_ops and live = fake_live and zset = fake_zset
      and dedupe_id = "''x''" and ttl = 60 and k = "''d:x''" and prefix = "''d:''" and t = 0
      and io = "\<lparr>io_now = 0, io_mono = 0, io_mono_fail = 0, io_delivery = Delivered\<rparr>"
      and b = "\<lparr>br_name = ''redis'', br_fail_max = 5, br_reset_timeout = 30, br_state = Closed,
       br_failure_count = 0, br_opened_at = None\<rparr>" and r = fake_empty, OF fake.redis_like_axioms]
  by (simp add: dedupe_key_def fake_live_def fake_empty_def)

end
