(* ===== verification/Messaging.thy ===== *)
theory Messaging
  imports Exceptions
begin

text \<open>
  The publisher side of \<open>src/core/messaging.py\<close>: the event envelope, its content hash, and the
  Kafka producer wrapper. Pydantic (validation and JSON dump of the envelope), SHA-1
  (\<open>uuid.uuid5\<close>) and aiokafka are not part of the repository: the record \<open>codec\<close> holds the
  functions the code calls, and each send to the broker has an outcome given from outside.
  A \<open>datetime\<close> is represented by its ISO 8601 text.
\<close>

section \<open>Event envelope\<close>

record event_envelope =
  event_id :: uuid
  event_type :: string
  schema_version :: int
  aggregate_type :: string
  aggregate_id :: string
  correlation_id :: "string option"
  causation_id :: "uuid option"
  occurred_at :: string
  payload :: json

text \<open>The field constraints of the class (\<open>min_length\<close>, \<open>max_length\<close>, \<open>ge\<close>).\<close>

definition envelope_valid :: "event_envelope \<Rightarrow> bool" where
  "envelope_valid e \<longleftrightarrow>
     1 \<le> length (event_type e) \<and> length (event_type e) \<le> 255 \<and> 1 \<le> schema_version e \<and>
     1 \<le> length (aggregate_type e) \<and> length (aggregate_type e) \<le> 64 \<and>
     1 \<le> length (aggregate_id e) \<and> length (aggregate_id e) \<le> 128"

text \<open>
  \<open>cd_dump\<close> is \<open>model_dump(mode="json")\<close>, \<open>cd_validate\<close> is \<open>model_validate\<close>, \<open>cd_to_bytes\<close> and
  \<open>cd_from_bytes\<close> the wire format, \<open>cd_uuid5\<close> is \<open>uuid.uuid5(NIMBUS_EVENT_NAMESPACE, s).hex\<close>.
\<close>

record 'w codec =
  cd_dump :: "event_envelope \<Rightarrow> json"
  cd_validate :: "json \<Rightarrow> exc + event_envelope"
  cd_to_bytes :: "event_envelope \<Rightarrow> 'w"
  cd_from_bytes :: "'w \<Rightarrow> exc + event_envelope"
  cd_uuid5 :: "string \<Rightarrow> string"

text \<open>What the code relies on: a valid envelope survives both serialisations.\<close>

definition codec_ok :: "'w codec \<Rightarrow> bool" where
  "codec_ok C \<longleftrightarrow>
     (\<forall>e. envelope_valid e \<longrightarrow>
        cd_validate C (cd_dump C e) = Inr e \<and> cd_from_bytes C (cd_to_bytes C e) = Inr e)"

definition content :: "event_envelope \<Rightarrow> json" where
  "content e = JDict
     [(''event_type'', JStr (event_type e)),
      (''aggregate_type'', JStr (aggregate_type e)),
      (''aggregate_id'', JStr (aggregate_id e)),
      (''schema_version'', JInt (schema_version e)),
      (''payload'', payload e)]"

definition content_hash :: "'w codec \<Rightarrow> event_envelope \<Rightarrow> string" where
  "content_hash C e = cd_uuid5 C (canonical (content e))"

definition make_dedupe_id :: "'w codec \<Rightarrow> json \<Rightarrow> string" where
  "make_dedupe_id C p = cd_uuid5 C (canonical p)"

section \<open>Producer\<close>

record producer =
  pr_started :: bool
  pr_producer :: bool  \<comment> \<open>the aiokafka producer object exists\<close>
  pr_bootstrap_servers :: "string list"

definition new_producer :: "string list \<Rightarrow> producer" where
  "new_producer servers = \<lparr>pr_started = False, pr_producer = False, pr_bootstrap_servers = servers\<rparr>"

record publish_result =
  pub_topic :: string
  pub_partition :: int
  pub_offset :: int
  pub_event_id :: uuid

record 'w wire_message =
  wm_topic :: string
  wm_value :: 'w
  wm_key :: string
  wm_headers :: "(string \<times> string) list"

text \<open>
  The fate of one send: acknowledged with partition and offset, refused without effect, or
  written to the log although the acknowledgement is lost.
\<close>

datatype send_outcome = Ack int int | Refused exc | AckLost exc

text \<open>\<open>start()\<close>, given what \<open>AIOKafkaProducer.start()\<close> raises, if anything.\<close>

definition is_kafka_error :: "exc \<Rightarrow> bool" where
  "is_kafka_error e = (case e of KafkaTimeoutError _ \<Rightarrow> True | KafkaConnectionError _ \<Rightarrow> True
     | KafkaError _ \<Rightarrow> True | _ \<Rightarrow> False)"

definition exc_text :: "exc \<Rightarrow> string" where
  "exc_text e = (case e of Nimbus _ m _ \<Rightarrow> m | ValueError m \<Rightarrow> m | RuntimeError m \<Rightarrow> m
     | AttributeError m \<Rightarrow> m | PaymentAlreadyProcessedError m \<Rightarrow> m | PasswordError m \<Rightarrow> m
     | RedisError m \<Rightarrow> m | KafkaTimeoutError m \<Rightarrow> m | KafkaConnectionError m \<Rightarrow> m | KafkaError m \<Rightarrow> m
     | OperationalError m \<Rightarrow> m | IntegrityError m \<Rightarrow> m | DBAPIError m \<Rightarrow> m
     | BuiltinTimeoutError \<Rightarrow> [] | RequestValidationError _ \<Rightarrow> [] | HTTPException _ _ \<Rightarrow> []
     | OtherError _ m \<Rightarrow> m)"

definition producer_start :: "exc option \<Rightarrow> (producer, exc, unit) comp" where
  "producer_start outcome p =
     (if pr_started p then (Inr (), p)
      else (case outcome of
              None \<Rightarrow> (Inr (), p\<lparr>pr_producer := True, pr_started := True\<rparr>)
            | Some e \<Rightarrow>
                (Inl (if is_kafka_error e
                      then nimbus_error BrokerUnavailableError (Some ''Cannot reach Kafka cluster.'')
                        (Some [(''bootstrap_servers'', JList (map JStr (pr_bootstrap_servers p))),
                               (''driver_error'', JStr (exc_text e))])
                      else e), p)))"

text \<open>
  \<open>stop()\<close>: \<open>flush\<close> may raise; the \<open>finally\<close> block stops the driver and, unless that raises
  too, clears the fields.
\<close>

definition producer_stop :: "exc option \<Rightarrow> exc option \<Rightarrow> (producer, exc, unit) comp" where
  "producer_stop flush_outcome stop_outcome p =
     (if \<not> pr_started p then (Inr (), p)
      else (case stop_outcome of
              Some e \<Rightarrow> (Inl e, p)
            | None \<Rightarrow>
                ((case flush_outcome of None \<Rightarrow> Inr () | Some e \<Rightarrow> Inl e),
                 p\<lparr>pr_producer := False, pr_started := False\<rparr>)))"

definition effective_key :: "string option \<Rightarrow> event_envelope \<Rightarrow> string" where
  "effective_key key e = (case key of None \<Rightarrow> aggregate_id e
     | Some k \<Rightarrow> if k = [] then aggregate_id e else k)"

definition wire_headers :: "(string \<times> string) list \<Rightarrow> event_envelope \<Rightarrow> (string \<times> string) list" where
  "wire_headers headers e = headers @
     [(''event_id'', str_uuid (event_id e)),
      (''event_type'', event_type e),
      (''schema_version'', py_str_int (schema_version e))]"

definition publish_error :: "string \<Rightarrow> exc \<Rightarrow> exc" where
  "publish_error topic e =
     (let details = Some [(''topic'', JStr topic), (''driver_error'', JStr (exc_text e))] in
      case e of
        KafkaTimeoutError _ \<Rightarrow>
          nimbus_error BrokerUnavailableError (Some ''Kafka publish timed out.'') details
      | KafkaConnectionError _ \<Rightarrow>
          nimbus_error BrokerUnavailableError (Some ''Lost connection to Kafka during publish.'') details
      | KafkaError _ \<Rightarrow>
          nimbus_error InfrastructureError (Some ''Kafka rejected the message.'') details
      | _ \<Rightarrow> e)"

text \<open>\<open>publish\<close> on the producer and the log of messages the broker has accepted.\<close>

definition publish ::
    "'w codec \<Rightarrow> send_outcome \<Rightarrow> event_envelope \<Rightarrow> string \<Rightarrow> string option \<Rightarrow> (string \<times> string) list
     \<Rightarrow> (producer \<times> 'w wire_message list, exc, publish_result) comp" where
  "publish C outcome envelope topic key headers pl =
     (let (p, log) = pl;
          m = \<lparr>wm_topic = topic, wm_value = cd_to_bytes C envelope,
               wm_key = effective_key key envelope, wm_headers = wire_headers headers envelope\<rparr> in
      if \<not> pr_started p \<or> \<not> pr_producer p
      then (Inl (nimbus_error BrokerUnavailableError
                   (Some ''Producer has not been started. Call start() first.'') None), pl)
      else (case outcome of
              Ack part off \<Rightarrow>
                (Inr \<lparr>pub_topic = topic, pub_partition = part, pub_offset = off,
                      pub_event_id = event_id envelope\<rparr>, (p, log @ [m]))
            | Refused e \<Rightarrow> (Inl (publish_error topic e), pl)
            | AckLost e \<Rightarrow> (Inl (publish_error topic e), (p, log @ [m]))))"

fun publish_many ::
    "'w codec \<Rightarrow> (send_outcome \<times> event_envelope \<times> string) list
     \<Rightarrow> (producer \<times> 'w wire_message list, exc, publish_result list) comp" where
  "publish_many C [] = ret []"
| "publish_many C ((outcome, envelope, topic) # rest) =
     seq (publish C outcome envelope topic None [])
       (\<lambda>r. seq (publish_many C rest) (\<lambda>rs. ret (r # rs)))"

text \<open>\<open>health_check\<close>, given the result of the metadata request.\<close>

definition producer_health_check :: "exc + bool \<Rightarrow> producer \<Rightarrow> bool" where
  "producer_health_check metadata p =
     (if \<not> pr_started p \<or> \<not> pr_producer p then False
      else (case metadata of Inr found \<Rightarrow> found | Inl _ \<Rightarrow> False))"

section \<open>Facts\<close>

lemma content_hash_cong:
  assumes "event_type e = event_type e'" and "aggregate_type e = aggregate_type e'"
    and "aggregate_id e = aggregate_id e'" and "schema_version e = schema_version e'"
    and "same_json (payload e) (payload e')"
  shows "content_hash C e = content_hash C e'"
proof -
  have "same_json (content e) (content e')"
    unfolding content_def assms(1-4)
    by (rule same_json.dict [OF _ _ HOL.refl])
      (use assms(5) in \<open>auto simp: rel_prod_sel intro: same_json.refl\<close>)
  then show ?thesis by (simp add: content_hash_def canonical_same_json)
qed

lemma publish_ack:
  assumes "pr_started p" and "pr_producer p"
  shows "publish C (Ack n off) e topic key hs (p, log) =
    (Inr \<lparr>pub_topic = topic, pub_partition = n, pub_offset = off, pub_event_id = event_id e\<rparr>,
     (p, log @ [\<lparr>wm_topic = topic, wm_value = cd_to_bytes C e, wm_key = effective_key key e,
                 wm_headers = wire_headers hs e\<rparr>]))"
  using assms by (simp add: publish_def Let_def)

lemma publish_producer [frame]: "fst (snd (publish C oc e topic key hs (p, log))) = p"
  by (auto simp: publish_def Let_def split: send_outcome.splits)

lemma publish_log_prefix:
  "\<exists>ms. snd (snd (publish C oc e topic key hs (p, log))) = log @ ms \<and> length ms \<le> 1"
  by (auto simp: publish_def Let_def split: send_outcome.splits)

lemma publish_error_class:
  "exc_isinstance (publish_error topic e) BrokerUnavailableError \<longleftrightarrow>
     (case e of KafkaTimeoutError _ \<Rightarrow> True | KafkaConnectionError _ \<Rightarrow> True
      | _ \<Rightarrow> exc_isinstance e BrokerUnavailableError)"
  by (simp add: publish_error_def Let_def nimbus_error_def exc_isinstance_def split: exc.splits)

text \<open>\<open>publish_many\<close> returns one result per envelope, in order, and logs each message once.\<close>

lemma publish_many_Inr:
  assumes "publish_many C xs (p, log) = (Inr rs, (p', log'))"
  shows "map pub_event_id rs = map (\<lambda>(_, e, _). event_id e) xs \<and> p' = p \<and>
    map wm_value log' = map wm_value log @ map (\<lambda>(_, e, _). cd_to_bytes C e) xs"
  using assms
proof (induction xs arbitrary: log rs p' log')
  case Nil
  then show ?case by simp
next
  case (Cons x xs)
  obtain oc e topic where x: "x = (oc, e, topic)" by (cases x)
  from Cons.prems obtain r pl where pub: "publish C oc e topic None [] (p, log) = (Inr r, pl)"
    and rest: "seq (publish_many C xs) (\<lambda>rs. ret (r # rs)) pl = (Inr rs, (p', log'))"
    by (auto simp: x elim: seq_InrE)
  from pub have r: "pub_event_id r = event_id e"
    and pl: "fst pl = p" "map wm_value (snd pl) = map wm_value log @ [cd_to_bytes C e]"
    by (auto simp: publish_def Let_def split: send_outcome.splits if_splits)
  from rest obtain rs' where rs': "publish_many C xs (p, snd pl) = (Inr rs', (p', log'))"
    and "rs = r # rs'"
    using pl(1) by (cases pl) (auto elim: seq_InrE)
  with Cons.IH [OF rs'] r pl show ?case by (simp add: x)
qed

section \<open>Properties\<close>

text \<open>
  The dedupe identifier depends on the content only: two envelopes about the same aggregate, with
  the same event type, version and payload, have the same content hash whatever their event
  identifiers, timestamps, correlation identifiers and the insertion order of the payload's dicts at
  every level.
\<close>

theorem content_hash_depends_on_content:
  assumes "event_type e = event_type e'" and "aggregate_type e = aggregate_type e'"
    and "aggregate_id e = aggregate_id e'" and "schema_version e = schema_version e'"
    and "same_json (payload e) (payload e')"
  shows "content_hash C e = content_hash C e'"
  using assms by (rule content_hash_cong)

end
