(* ===== verification/Models.thy ===== *)
theory Models
  imports Messaging
begin

text \<open>
  The rows of the five tables, from the SQLAlchemy models of the modules: \<open>Payment\<close> and
  \<open>OutboxEvent\<close> (\<open>payments/models.py\<close>), \<open>Order\<close> (\<open>orders/models.py\<close>), \<open>Stock\<close>
  (\<open>inventory/models.py\<close>) and \<open>User\<close> (\<open>users/models.py\<close>), with their column types and
  CHECK constraints as bool-valued functions. Timestamps are integers in microseconds.
\<close>

section \<open>Payments\<close>

datatype payment_status =
  P_PENDING | P_AUTHORIZED | P_CAPTURED | P_SETTLED | P_REFUNDED | P_DECLINED | P_FAILED

fun payment_status_value :: "payment_status \<Rightarrow> string" where
  "payment_status_value P_PENDING = ''pending''"
| "payment_status_value P_AUTHORIZED = ''authorized''"
| "payment_status_value P_CAPTURED = ''captured''"
| "payment_status_value P_SETTLED = ''settled''"
| "payment_status_value P_REFUNDED = ''refunded''"
| "payment_status_value P_DECLINED = ''declined''"
| "payment_status_value P_FAILED = ''failed''"

record payment =
  p_id :: uuid
  p_status :: payment_status
  p_amount_minor_units :: int
  p_currency :: string
  p_created_at :: int
  p_updated_at :: int

definition payment_columns_ok :: "payment \<Rightarrow> bool" where
  "payment_columns_ok p \<longleftrightarrow> int64_ok (p_amount_minor_units p) \<and> length (p_currency p) \<le> 3"

definition payment_checks :: "payment \<Rightarrow> bool" where
  "payment_checks p \<longleftrightarrow> 0 \<le> p_amount_minor_units p \<and> length (p_currency p) = 3"

record outbox_event =
  ob_id :: uuid
  ob_aggregate_type :: string
  ob_aggregate_id :: string
  ob_event_type :: string
  ob_topic :: string
  ob_payload :: json
  ob_dedupe_id :: string
  ob_processed :: bool
  ob_created_at :: int
  ob_processed_at :: "int option"
  ob_attempt_count :: int
  ob_failed :: bool
  ob_last_error :: "string option"

definition outbox_columns_ok :: "outbox_event \<Rightarrow> bool" where
  "outbox_columns_ok r \<longleftrightarrow>
     length (ob_aggregate_type r) \<le> 64 \<and> length (ob_aggregate_id r) \<le> 128 \<and>
     length (ob_event_type r) \<le> 255 \<and> length (ob_topic r) \<le> 255 \<and>
     length (ob_dedupe_id r) \<le> 64 \<and> int32_ok (ob_attempt_count r) \<and>
     (case ob_last_error r of None \<Rightarrow> True | Some m \<Rightarrow> length m \<le> 1024)"

text \<open>The column defaults of a new \<open>OutboxEvent\<close>.\<close>

definition new_outbox_event ::
    "int \<Rightarrow> uuid \<Rightarrow> string \<Rightarrow> string \<Rightarrow> string \<Rightarrow> string \<Rightarrow> json \<Rightarrow> string \<Rightarrow> outbox_event" where
  "new_outbox_event now i agg_type agg_id ev_type topic body dedupe =
     \<lparr>ob_id = i, ob_aggregate_type = agg_type, ob_aggregate_id = agg_id, ob_event_type = ev_type,
      ob_topic = topic, ob_payload = body, ob_dedupe_id = dedupe, ob_processed = False,
      ob_created_at = now, ob_processed_at = None, ob_attempt_count = 0, ob_failed = False,
      ob_last_error = None\<rparr>"

section \<open>Orders\<close>

datatype order_status = O_PENDING | O_RESERVED | O_PAID | O_FAILED | O_SHIPPED

fun order_status_value :: "order_status \<Rightarrow> string" where
  "order_status_value O_PENDING = ''pending''"
| "order_status_value O_RESERVED = ''reserved''"
| "order_status_value O_PAID = ''paid''"
| "order_status_value O_FAILED = ''failed''"
| "order_status_value O_SHIPPED = ''shipped''"

record order =
  or_id :: uuid
  or_user_id :: uuid
  or_stock_id :: uuid
  or_quantity :: int
  or_expected_version :: int
  or_total_amount_minor_units :: int
  or_currency :: string
  or_status :: order_status
  or_created_at :: int
  or_updated_at :: int

definition order_columns_ok :: "order \<Rightarrow> bool" where
  "order_columns_ok x \<longleftrightarrow>
     int32_ok (or_quantity x) \<and> int32_ok (or_expected_version x) \<and>
     int32_ok (or_total_amount_minor_units x) \<and> length (or_currency x) \<le> 3"

definition order_checks :: "order \<Rightarrow> bool" where
  "order_checks x \<longleftrightarrow> 0 < or_quantity x \<and> 0 \<le> or_total_amount_minor_units x"

section \<open>Inventory\<close>

record stock =
  st_id :: uuid
  st_sku :: string
  st_name :: string
  st_price_minor_units :: int
  st_currency :: string
  st_available :: int
  st_version :: int
  st_created_at :: int
  st_updated_at :: int

definition stock_columns_ok :: "stock \<Rightarrow> bool" where
  "stock_columns_ok x \<longleftrightarrow>
     int32_ok (st_price_minor_units x) \<and> int32_ok (st_available x) \<and> int32_ok (st_version x) \<and>
     length (st_sku x) \<le> 64 \<and> length (st_name x) \<le> 255 \<and> length (st_currency x) \<le> 3"

definition stock_checks :: "stock \<Rightarrow> bool" where
  "stock_checks x \<longleftrightarrow> 0 \<le> st_available x \<and> 0 \<le> st_price_minor_units x \<and> 0 \<le> st_version x"

section \<open>Users\<close>

record user =
  us_id :: uuid
  us_email :: string
  us_password_hash :: string
  us_created_at :: int
  us_updated_at :: int

definition user_columns_ok :: "user \<Rightarrow> bool" where
  "user_columns_ok u \<longleftrightarrow> length (us_email u) \<le> 255 \<and> length (us_password_hash u) \<le> 255"

definition user_checks :: "user \<Rightarrow> bool" where
  "user_checks u \<longleftrightarrow> 3 \<le> length (us_email u) \<and> length (us_email u) \<le> 254 \<and>
     us_email u = py_lower (us_email u)"

section \<open>Facts\<close>

lemma payment_status_value_inject [simp]:
  "payment_status_value a = payment_status_value b \<longleftrightarrow> a = b"
  by (cases a; cases b) simp_all

lemma order_status_value_inject [simp]:
  "order_status_value a = order_status_value b \<longleftrightarrow> a = b"
  by (cases a; cases b) simp_all

lemma length_payment_status_value: "length (payment_status_value s) \<le> 10"
  by (cases s) simp_all

lemma length_str_uuid [simp]: "length (str_uuid u) = 36"
  by (simp add: str_uuid_def Let_def uuid_hex_def)

end
