(* ===== verification/Database.thy ===== *)
theory Database
  imports Models
begin

text \<open>
  Transactions as the services see them through an \<open>AsyncSession\<close>, and the session helpers of
  \<open>src/core/database.py\<close>.

  The committed tables are maps from primary keys to rows (the outbox, which is read in order,
  and the users, which are only inserted, are lists). A session holds the rows its own transaction has written and not committed, the
  rows it has locked with \<open>FOR UPDATE\<close>, the objects added to the unit of work and not flushed
  (the factories set \<open>autoflush=False\<close>), and the \<open>Stock\<close> objects it has loaded (the identity
  map). Other transactions commit between the statements of this one, at the isolation level
  READ COMMITTED: \<open>se_env\<close> lists what they do, one change of the database per statement of this
  session. They cannot change a row this transaction has written or locked.
\<close>

section \<open>Tables and sessions\<close>

record db =
  payments_t :: "uuid \<Rightarrow> payment option"
  orders_t :: "uuid \<Rightarrow> order option"
  stock_t :: "uuid \<Rightarrow> stock option"
  users_t :: "user list"
  outbox_t :: "outbox_event list"

definition empty_db :: db where
  "empty_db = \<lparr>payments_t = Map.empty, orders_t = Map.empty, stock_t = Map.empty,
               users_t = [], outbox_t = []\<rparr>"

datatype row =
    UpdatePayment payment
  | InsertOrder order
  | UpdateOrder order
  | InsertUser user
  | InsertOutbox outbox_event

record session =
  se_db :: db
  se_writes :: db
  se_locked_payments :: "uuid set"
  se_locked_orders :: "uuid set"
  se_pending :: "row list"
  se_stock_objs :: "uuid \<Rightarrow> stock option"
  se_env :: "(db \<Rightarrow> db) list"
  se_now :: int

definition new_session :: "db \<Rightarrow> (db \<Rightarrow> db) list \<Rightarrow> int \<Rightarrow> session" where
  "new_session d env now =
     \<lparr>se_db = d, se_writes = empty_db, se_locked_payments = {}, se_locked_orders = {},
      se_pending = [], se_stock_objs = Map.empty, se_env = env, se_now = now\<rparr>"

text \<open>What the statements of the transaction see: its own writes over the committed rows.\<close>

definition view :: "session \<Rightarrow> db" where
  "view s =
     \<lparr>payments_t = payments_t (se_db s) ++ payments_t (se_writes s),
      orders_t = orders_t (se_db s) ++ orders_t (se_writes s),
      stock_t = stock_t (se_db s) ++ stock_t (se_writes s),
      users_t = users_t (se_db s) @ users_t (se_writes s),
      outbox_t = outbox_t (se_db s) @ outbox_t (se_writes s)\<rparr>"

definition keep_rows :: "uuid set \<Rightarrow> (uuid \<Rightarrow> 'a option) \<Rightarrow> (uuid \<Rightarrow> 'a option) \<Rightarrow> (uuid \<Rightarrow> 'a option)" where
  "keep_rows held old new = (\<lambda>k. if k \<in> held then old k else new k)"

definition others_commit :: "session \<Rightarrow> session" where
  "others_commit s =
     (case se_env s of
        [] \<Rightarrow> s
      | f # fs \<Rightarrow>
          (let old = se_db s; new = f old; w = se_writes s in
           s\<lparr>se_env := fs,
             se_db :=
               \<lparr>payments_t = keep_rows (dom (payments_t w) \<union> se_locked_payments s)
                              (payments_t old) (payments_t new),
                orders_t = keep_rows (dom (orders_t w) \<union> se_locked_orders s)
                              (orders_t old) (orders_t new),
                stock_t = keep_rows (dom (stock_t w)) (stock_t old) (stock_t new),
                users_t = users_t new,
                outbox_t = outbox_t new\<rparr>\<rparr>))"

section \<open>Commit, rollback, flush\<close>

definition session_rollback :: "session \<Rightarrow> session" where
  "session_rollback s =
     s\<lparr>se_writes := empty_db, se_locked_payments := {}, se_locked_orders := {},
       se_pending := [], se_stock_objs := Map.empty\<rparr>"

text \<open>\<open>session.add(obj)\<close> for a new or a changed object.\<close>

definition session_add :: "row \<Rightarrow> (session, exc, unit) comp" where
  "session_add r = modify (\<lambda>s. s\<lparr>se_pending := se_pending s @ [r]\<rparr>)"

text \<open>
  One INSERT or UPDATE of the flush: column types, CHECK constraints and unique keys are checked
  by the database against what the transaction sees.
\<close>

definition flush_row :: "row \<Rightarrow> session \<Rightarrow> exc + session" where
  "flush_row r s =
     (let v = view s; w = se_writes s in
      case r of
        UpdatePayment p \<Rightarrow>
          if \<not> payment_columns_ok p then Inl (DBAPIError ''payments'')
          else if \<not> payment_checks p then Inl (IntegrityError ''ck_payments'')
          else Inr (s\<lparr>se_writes := w\<lparr>payments_t := (payments_t w)(p_id p \<mapsto> p\<lparr>p_updated_at := se_now s\<rparr>)\<rparr>\<rparr>)
      | InsertOrder x \<Rightarrow>
          if \<not> order_columns_ok x then Inl (DBAPIError ''orders'')
          else if \<not> order_checks x then Inl (IntegrityError ''ck_orders'')
          else if orders_t v (or_id x) \<noteq> None then Inl (IntegrityError ''orders_pkey'')
          else Inr (s\<lparr>se_writes := w\<lparr>orders_t := (orders_t w)(or_id x \<mapsto> x)\<rparr>\<rparr>)
      | UpdateOrder x \<Rightarrow>
          if \<not> order_columns_ok x then Inl (DBAPIError ''orders'')
          else if \<not> order_checks x then Inl (IntegrityError ''ck_orders'')
          else Inr (s\<lparr>se_writes := w\<lparr>orders_t := (orders_t w)(or_id x \<mapsto> x\<lparr>or_updated_at := se_now s\<rparr>)\<rparr>\<rparr>)
      | InsertUser u \<Rightarrow>
          if \<not> user_columns_ok u then Inl (DBAPIError ''users'')
          else if \<not> user_checks u then Inl (IntegrityError ''ck_users'')
          else if \<exists>u'\<in>set (users_t v). us_id u' = us_id u \<or> us_email u' = us_email u
          then Inl (IntegrityError ''users_key'')
          else Inr (s\<lparr>se_writes := w\<lparr>users_t := users_t w @ [u]\<rparr>\<rparr>)
      | InsertOutbox x \<Rightarrow>
          if \<not> outbox_columns_ok x then Inl (DBAPIError ''outbox_events'')
          else if \<exists>y\<in>set (outbox_t v). ob_id y = ob_id x \<or> ob_dedupe_id y = ob_dedupe_id x
          then Inl (IntegrityError ''outbox_events_key'')
          else Inr (s\<lparr>se_writes := w\<lparr>outbox_t := outbox_t w @ [x]\<rparr>\<rparr>))"

fun flush_rows :: "row list \<Rightarrow> session \<Rightarrow> exc + session" where
  "flush_rows [] s = Inr s"
| "flush_rows (r # rs) s = (case flush_row r s of Inl e \<Rightarrow> Inl e | Inr s' \<Rightarrow> flush_rows rs s')"

text \<open>\<open>session.flush()\<close>: a failing flush rolls the transaction back.\<close>

definition session_flush :: "(session, exc, unit) comp" where
  "session_flush s0 =
     (let s = others_commit s0 in
      case flush_rows (se_pending s) s of
        Inl e \<Rightarrow> (Inl e, session_rollback s)
      | Inr s' \<Rightarrow> (Inr (), s'\<lparr>se_pending := []\<rparr>))"

text \<open>
  \<open>session.commit()\<close>: flush, then make the writes visible; \<open>outcome\<close> is the error of a commit
  the database refuses or does not confirm.
\<close>

definition session_commit :: "exc option \<Rightarrow> (session, exc, unit) comp" where
  "session_commit outcome =
     seq session_flush
       (\<lambda>_ s. case outcome of
          Some e \<Rightarrow> (Inl e, session_rollback s)
        | None \<Rightarrow> (Inr (), session_rollback (s\<lparr>se_db := view s\<rparr>)))"

section \<open>Session helpers\<close>

definition validate_schema_name :: "string \<Rightarrow> exc + string" where
  "validate_schema_name schema =
     (if schema = [] \<or> \<not> list_all (\<lambda>c. char_isalnum c \<or> c = CHR ''_'') schema
      then Inl (ValueError (''Invalid schema name '' @ py_repr_str schema
        @ '': must contain only alphanumerics and underscores.''))
      else if length schema > 63
      then Inl (ValueError (''Schema name '' @ py_repr_str schema @ '' too long (max 63 chars).''))
      else Inr schema)"

definition schema_ident_ok :: "string \<Rightarrow> bool" where
  "schema_ident_ok s \<longleftrightarrow>
     s \<noteq> [] \<and> list_all (\<lambda>c. char_isalnum c \<or> c = CHR ''_'') s \<and> \<not> char_isdigit (hd s)"

text \<open>
  \<open>with_schemas(session, *schemas)\<close>: the statement it sends before the body runs. Names are
  checked in order and the first bad one raises.
\<close>

definition with_schemas_statement :: "string list \<Rightarrow> exc + string" where
  "with_schemas_statement schemas =
     (if schemas = [] then Inl (ValueError ''at least one schema must be provided'')
      else case find (\<lambda>s. \<not> schema_ident_ok s) schemas of
        Some s \<Rightarrow> Inl (ValueError (''Invalid schema name '' @ py_repr_str s))
      | None \<Rightarrow> Inr (''SET LOCAL search_path TO '' @ join '', '' (schemas @ [''public''])))"

text \<open>\<open>with_schemas\<close> around a body: one statement, then the body.\<close>

definition with_schemas :: "string list \<Rightarrow> (session, exc, 'a) comp \<Rightarrow> (session, exc, 'a) comp" where
  "with_schemas schemas body =
     (case with_schemas_statement schemas of
        Inl e \<Rightarrow> raise_exc e
      | Inr _ \<Rightarrow> seq (modify others_commit) (\<lambda>_. body))"

text \<open>
  How \<open>get_session\<close> re-raises an exception that leaves its body. \<open>InterfaceError\<close> is a subclass of
  \<open>DBAPIError\<close>; \<open>DisconnectionError\<close> is not.
\<close>

definition session_error :: "string \<Rightarrow> exc \<Rightarrow> exc" where
  "session_error schema e =
     (let details = Some [(''schema'', JStr schema), (''driver_error'', JStr (exc_text e))] in
      case e of
        OperationalError m \<Rightarrow>
          if contains ''lock'' (py_lower m) \<or> contains ''timeout'' (py_lower m)
          then nimbus_error DatabaseLockError (Some ''Database was busy. Please retry.'') details
          else nimbus_error DatabaseConnectionError (Some ''Database is unreachable.'') details
      | IntegrityError _ \<Rightarrow>
          nimbus_error DatabaseConnectionError (Some ''Database connection failed.'') details
      | DBAPIError _ \<Rightarrow>
          nimbus_error DatabaseConnectionError (Some ''Database connection failed.'') details
      | OtherError ty _ \<Rightarrow>
          if ty = ''DisconnectionError''
          then nimbus_error DatabaseConnectionError (Some ''Database connection failed.'') details else e
      | BuiltinTimeoutError \<Rightarrow>
          nimbus_error NimbusTimeoutError (Some ''Database operation timed out.'')
            (Some [(''schema'', JStr schema)])
      | _ \<Rightarrow> e)"

text \<open>
  \<open>get_session(schema)\<close> around the body that uses the session: an exception rolls back and is
  translated; in any case the session is closed, which discards what was not committed.
\<close>

definition get_session ::
    "string option \<Rightarrow> string \<Rightarrow> (session, exc, 'a) comp \<Rightarrow> (session, exc, 'a) comp" where
  "get_session schema default_schema body =
     (case validate_schema_name (case schema of Some x \<Rightarrow> if x = [] then default_schema else x
                                 | None \<Rightarrow> default_schema) of
        Inl e \<Rightarrow> raise_exc e
      | Inr target \<Rightarrow>
          (\<lambda>s. case body s of
             (Inl e, s') \<Rightarrow> (Inl (session_error target e), session_rollback s')
           | (Inr x, s') \<Rightarrow> (Inr x, session_rollback s')))"

section \<open>Facts\<close>

lemma view_simps [simp]:
  "payments_t (view s) = payments_t (se_db s) ++ payments_t (se_writes s)"
  "orders_t (view s) = orders_t (se_db s) ++ orders_t (se_writes s)"
  "stock_t (view s) = stock_t (se_db s) ++ stock_t (se_writes s)"
  "users_t (view s) = users_t (se_db s) @ users_t (se_writes s)"
  "outbox_t (view s) = outbox_t (se_db s) @ outbox_t (se_writes s)"
  by (simp_all add: view_def)

lemma empty_db_simps [simp]:
  "payments_t empty_db = Map.empty" "orders_t empty_db = Map.empty"
  "stock_t empty_db = Map.empty" "users_t empty_db = []" "outbox_t empty_db = []"
  by (simp_all add: empty_db_def)

lemma others_commit_frame [simp]:
  "se_writes (others_commit s) = se_writes s"
  "se_locked_payments (others_commit s) = se_locked_payments s"
  "se_locked_orders (others_commit s) = se_locked_orders s"
  "se_pending (others_commit s) = se_pending s"
  "se_stock_objs (others_commit s) = se_stock_objs s"
  "se_now (others_commit s) = se_now s"
  by (simp_all add: others_commit_def Let_def split: list.splits)

lemma others_commit_none [simp]: "se_env s = [] \<Longrightarrow> others_commit s = s"
  by (simp add: others_commit_def)

text \<open>A row the transaction holds is not changed by others.\<close>

lemma others_commit_locked_payment:
  "k \<in> se_locked_payments s \<Longrightarrow> payments_t (se_db (others_commit s)) k = payments_t (se_db s) k"
  by (simp add: others_commit_def Let_def keep_rows_def split: list.splits)

lemma others_commit_locked_order:
  "k \<in> se_locked_orders s \<Longrightarrow> orders_t (se_db (others_commit s)) k = orders_t (se_db s) k"
  by (simp add: others_commit_def Let_def keep_rows_def split: list.splits)

lemma others_commit_written:
  "k \<in> dom (stock_t (se_writes s)) \<Longrightarrow> stock_t (view (others_commit s)) k = stock_t (view s) k"
  "k \<in> dom (orders_t (se_writes s)) \<Longrightarrow> orders_t (view (others_commit s)) k = orders_t (view s) k"
  by (auto simp: map_add_def split: option.splits)

lemma session_rollback_simps [simp]:
  "se_db (session_rollback s) = se_db s"
  "se_writes (session_rollback s) = empty_db"
  "se_pending (session_rollback s) = []"
  "se_env (session_rollback s) = se_env s"
  "se_now (session_rollback s) = se_now s"
  by (simp_all add: session_rollback_def)

lemma session_add_apply [simp]:
  "session_add r s = (Inr (), s\<lparr>se_pending := se_pending s @ [r]\<rparr>)"
  by (simp add: session_add_def)

lemma flush_row_frame:
  "flush_row r s = Inr s' \<Longrightarrow> se_db s' = se_db s \<and> se_env s' = se_env s \<and> se_now s' = se_now s
     \<and> se_stock_objs s' = se_stock_objs s \<and> stock_t (se_writes s') = stock_t (se_writes s)"
  by (auto simp: flush_row_def Let_def split: row.splits if_splits)

lemma flush_rows_frame:
  "flush_rows rs s = Inr s' \<Longrightarrow> se_db s' = se_db s \<and> se_env s' = se_env s \<and> se_now s' = se_now s
     \<and> se_stock_objs s' = se_stock_objs s \<and> stock_t (se_writes s') = stock_t (se_writes s)"
proof (induction rs arbitrary: s)
  case Nil
  then show ?case by simp
next
  case (Cons r rs)
  then obtain s1 where "flush_row r s = Inr s1" and "flush_rows rs s1 = Inr s'"
    by (auto split: sum.splits)
  with Cons.IH flush_row_frame [of r s s1] show ?case by metis
qed

lemma others_commit_pending [simp]:
  "others_commit (s\<lparr>se_pending := rs\<rparr>) = (others_commit s)\<lparr>se_pending := rs\<rparr>"
  by (simp add: others_commit_def Let_def split: list.splits)

lemma view_pending [simp]: "view (s\<lparr>se_pending := rs\<rparr>) = view s"
  by (simp add: view_def)

text \<open>Flushing a new order and its outbox row.\<close>

lemma flush_order_and_outbox:
  assumes "session_flush s = (Inr u, s')" and "se_pending s = [InsertOrder x, InsertOutbox y]"
  shows "se_writes s' = (se_writes s)\<lparr>orders_t := (orders_t (se_writes s))(or_id x \<mapsto> x),
           outbox_t := outbox_t (se_writes s) @ [y]\<rparr>
    \<and> order_columns_ok x \<and> order_checks x \<and> orders_t (view (others_commit s)) (or_id x) = None
    \<and> se_pending s' = [] \<and> se_db s' = se_db (others_commit s)
    \<and> se_env s' = se_env (others_commit s) \<and> se_now s' = se_now s"
  using assms
  by (auto simp: session_flush_def Let_def flush_row_def simp del: view_simps
      split: sum.splits if_splits)

text \<open>A transaction that fails at flush or at commit leaves no trace of its own.\<close>

lemma session_flush_error:
  "session_flush s = (Inl e, s') \<Longrightarrow> s' = session_rollback (others_commit s)"
  by (auto simp: session_flush_def Let_def split: sum.splits)

lemma session_commit_error:
  assumes "session_commit oc s = (Inl e, s')"
  shows "se_db s' = se_db (others_commit s) \<and> se_writes s' = empty_db \<and> se_pending s' = []"
  using assms unfolding session_commit_def
proof (cases rule: seq_InlE)
  case first
  then show ?thesis by (auto dest: session_flush_error)
next
  case (second x s1)
  then have "se_db s1 = se_db (others_commit s)"
    by (auto simp: session_flush_def Let_def split: sum.splits dest: flush_rows_frame)
  with second(2) show ?thesis by (auto split: option.splits)
qed

lemma validate_schema_name_Inr:
  "validate_schema_name s = Inr t \<Longrightarrow>
     t = s \<and> s \<noteq> [] \<and> length s \<le> 63 \<and> (\<forall>c\<in>set s. char_isalnum c \<or> c = CHR ''_'')"
  by (auto simp: validate_schema_name_def list_all_iff split: if_splits)

end
