(* ===== verification/Transactions.thy ===== *)
theory Transactions
  imports Database
begin

text \<open>
  The contract between the service functions and whoever owns the transaction. The services of
  the modules never commit: they read, write and add objects, and raise when something is wrong.
  Their caller (a route or an event handler) runs them inside \<open>get_session\<close> and commits. The
  locale \<open>service\<close> states what the caller relies on; each module interprets it on its functions.
\<close>

lemma new_session_simps [simp]:
  "se_db (new_session d env now) = d" "se_writes (new_session d env now) = empty_db"
  "se_pending (new_session d env now) = []" "se_env (new_session d env now) = env"
  "se_now (new_session d env now) = now" "se_stock_objs (new_session d env now) = Map.empty"
  "se_locked_orders (new_session d env now) = {}" "se_locked_payments (new_session d env now) = {}"
  by (simp_all add: new_session_def)

text \<open>The caller's side: \<open>async with get_session() as session: x = op(q); session.commit()\<close>.\<close>

definition run_request ::
    "string \<Rightarrow> exc option \<Rightarrow> (session, exc, 'a) comp \<Rightarrow> (session, exc, 'a) comp" where
  "run_request schema commit_outcome op =
     get_session None schema (seq op (\<lambda>x. seq (session_commit commit_outcome) (\<lambda>_. ret x)))"

locale service =
  fixes op :: "'q \<Rightarrow> (session, exc, 'a) comp"
  assumes no_commit: "se_env s = [] \<Longrightarrow> op q s = (r, s') \<Longrightarrow> se_db s' = se_db s \<and> se_env s' = []"
    and clean: "se_pending s = [] \<Longrightarrow> op q s = (Inl e, s') \<Longrightarrow>
      se_writes s' \<in> {se_writes s, empty_db} \<and> se_pending s' = []"
begin

text \<open>A request that raises, in the service, at flush or at commit, changes no table.\<close>

lemma failed_request_changes_nothing:
  assumes "run_request schema oc (op q) s = (Inl e, s')" and "se_env s = []"
  shows "se_db s' = se_db s"
proof (cases "validate_schema_name schema")
  case (Inl e')
  then show ?thesis using assms by (simp add: run_request_def get_session_def)
next
  case (Inr target)
  let ?body = "seq (op q) (\<lambda>x. seq (session_commit oc) (\<lambda>_. ret x))"
  from assms Inr obtain e1 s1 where b: "?body s = (Inl e1, s1)" and s': "se_db s' = se_db s1"
    by (auto simp: run_request_def get_session_def split: prod.splits sum.splits)
  from b have "se_db s1 = se_db s"
  proof (cases rule: seq_InlE)
    case first
    then show ?thesis using no_commit [OF assms(2)] by blast
  next
    case (second x s2)
    then have "session_commit oc s2 = (Inl e1, s1)" by (auto elim: seq_InlE)
    then show ?thesis
      using session_commit_error no_commit [OF assms(2) second(1)] by fastforce
  qed
  with s' show ?thesis by simp
qed

text \<open>Whatever happened, the session that is handed back holds no writes and no locks.\<close>

lemma request_closes_session:
  assumes "run_request schema oc (op q) s = (r, s')" and "validate_schema_name schema = Inr target"
  shows "se_writes s' = empty_db \<and> se_pending s' = [] \<and> se_locked_orders s' = {}
    \<and> se_locked_payments s' = {}"
  using assms
  by (auto simp: run_request_def get_session_def session_rollback_def split: prod.splits sum.splits)

text \<open>After a failure inside a fresh transaction the caller may go on and commit: nothing is lost or kept.\<close>

lemma commit_after_failure:
  assumes "op q s = (Inl e, s1)" and "se_env s = []" and "se_pending s = []"
    and "se_writes s = empty_db"
  shows "\<exists>s2. session_commit None s1 = (Inr (), s2) \<and> se_db s2 = se_db s"
proof -
  have "se_db s1 = se_db s" "se_env s1 = []" "se_writes s1 = empty_db" "se_pending s1 = []"
    using no_commit [OF assms(2,1)] clean [OF assms(3,1)] assms(4) by auto
  then show ?thesis
    by (simp add: session_commit_def session_flush_def Let_def seq_def view_def)
qed

end

end
