(* ===== verification/Event_Codec.thy ===== *)
theory Event_Codec
  imports Messaging "HOL-Library.Monad_Syntax"
begin

text \<open>
  A concrete codec: the JSON object that the documentation of Pydantic gives for
  \<open>EventEnvelope.model_dump(mode="json")\<close>, used both for the outbox column and on the wire, with
  the field constraints checked when it is read back. It meets \<open>codec_ok\<close>, the assumption about
  serialisation that the relay and the consumers are proved under.
\<close>

definition opt_str :: "string option \<Rightarrow> json" where
  "opt_str x = (case x of None \<Rightarrow> JNull | Some s \<Rightarrow> JStr s)"

definition json_dump_envelope :: "event_envelope \<Rightarrow> json" where
  "json_dump_envelope e = JDict
     [(''event_id'', JStr (str_uuid (event_id e))),
      (''event_type'', JStr (event_type e)),
      (''schema_version'', JInt (schema_version e)),
      (''aggregate_type'', JStr (aggregate_type e)),
      (''aggregate_id'', JStr (aggregate_id e)),
      (''correlation_id'', opt_str (correlation_id e)),
      (''causation_id'', opt_str (map_option str_uuid (causation_id e))),
      (''occurred_at'', JStr (occurred_at e)),
      (''payload'', payload e)]"

definition read_str :: "(string \<times> json) list \<Rightarrow> string \<Rightarrow> string option" where
  "read_str d k = (case map_of d k of Some (JStr s) \<Rightarrow> Some s | _ \<Rightarrow> None)"

definition read_opt_str :: "(string \<times> json) list \<Rightarrow> string \<Rightarrow> string option option" where
  "read_opt_str d k = (case map_of d k of Some (JStr s) \<Rightarrow> Some (Some s) | Some JNull \<Rightarrow> Some None
     | None \<Rightarrow> Some None | _ \<Rightarrow> None)"

definition read_int :: "(string \<times> json) list \<Rightarrow> string \<Rightarrow> int option" where
  "read_int d k = (case map_of d k of Some (JInt n) \<Rightarrow> Some n | _ \<Rightarrow> None)"

definition read_envelope :: "(string \<times> json) list \<Rightarrow> event_envelope option" where
  "read_envelope d = do {
     eid \<leftarrow> read_str d ''event_id'' \<bind> uuid_of_string;
     ty \<leftarrow> read_str d ''event_type'';
     v \<leftarrow> read_int d ''schema_version'';
     aty \<leftarrow> read_str d ''aggregate_type'';
     aid \<leftarrow> read_str d ''aggregate_id'';
     cor \<leftarrow> read_opt_str d ''correlation_id'';
     cau \<leftarrow> read_opt_str d ''causation_id'';
     cid \<leftarrow> (case cau of None \<Rightarrow> Some None | Some c \<Rightarrow> map_option Some (uuid_of_string c));
     at \<leftarrow> read_str d ''occurred_at'';
     p \<leftarrow> map_of d ''payload'';
     Some \<lparr>event_id = eid, event_type = ty, schema_version = v, aggregate_type = aty,
           aggregate_id = aid, correlation_id = cor, causation_id = cid, occurred_at = at, payload = p\<rparr> }"

definition json_validate_envelope :: "json \<Rightarrow> exc + event_envelope" where
  "json_validate_envelope j =
     (case j of
        JDict d \<Rightarrow> (case read_envelope d of
                      Some e \<Rightarrow> if envelope_valid e then Inr e else Inl (ValueError ''validation'')
                    | None \<Rightarrow> Inl (ValueError ''validation''))
      | _ \<Rightarrow> Inl (ValueError ''validation''))"

definition json_codec :: "json codec" where
  "json_codec =
     \<lparr>cd_dump = json_dump_envelope, cd_validate = json_validate_envelope,
      cd_to_bytes = json_dump_envelope, cd_from_bytes = json_validate_envelope,
      cd_uuid5 = (\<lambda>s. take 32 s)\<rparr>"

lemma read_envelope_dump:
  "json_dump_envelope e = JDict d \<Longrightarrow> read_envelope d = Some e"
  by (cases "correlation_id e"; cases "causation_id e")
    (auto simp: json_dump_envelope_def read_envelope_def read_str_def read_int_def
      read_opt_str_def opt_str_def)

lemma json_codec_ok: "codec_ok json_codec"
proof -
  have "json_validate_envelope (json_dump_envelope e) = Inr e" if "envelope_valid e" for e
  proof -
    obtain d where d: "json_dump_envelope e = JDict d" by (simp add: json_dump_envelope_def)
    with read_envelope_dump [OF d] that show ?thesis by (simp add: json_validate_envelope_def)
  qed
  then show ?thesis by (simp add: codec_ok_def json_codec_def)
qed

definition noted :: "uuid \<Rightarrow> json \<Rightarrow> event_envelope" where
  "noted i p = \<lparr>event_id = i, event_type = ''t'', schema_version = 1, aggregate_type = ''A'',
     aggregate_id = ''a'', correlation_id = None, causation_id = None, occurred_at = ''t0'', payload = p\<rparr>"

theorem content_hash_depends_on_content_witness:
  "content_hash json_codec (noted 1 (JDict [(''x'', JInt 1), (''y'', JDict [(''p'', JNull), (''q'', JBool True)])]))
   = content_hash json_codec (noted 2 (JDict [(''y'', JDict [(''q'', JBool True), (''p'', JNull)]), (''x'', JInt 1)]))"
proof (rule content_hash_depends_on_content)
  have inner: "same_json (JDict [(''p'', JNull), (''q'', JBool True)]) (JDict [(''q'', JBool True), (''p'', JNull)])"
    by (rule same_json.dict [of _ "[(''p'', JNull), (''q'', JBool True)]"]) (auto intro: same_json.refl)
  have "same_json (JDict [(''x'', JInt 1), (''y'', JDict [(''p'', JNull), (''q'', JBool True)])])
      (JDict [(''y'', JDict [(''q'', JBool True), (''p'', JNull)]), (''x'', JInt 1)])"
    by (rule same_json.dict [of _ "[(''x'', JInt 1), (''y'', JDict [(''q'', JBool True), (''p'', JNull)])]"])
      (auto intro: same_json.refl inner)
  then show "same_json (payload (noted 1 (JDict [(''x'', JInt 1), (''y'', JDict [(''p'', JNull), (''q'', JBool True)])])))
      (payload (noted 2 (JDict [(''y'', JDict [(''q'', JBool True), (''p'', JNull)]), (''x'', JInt 1)])))"
    by (simp add: noted_def)
qed (simp_all add: noted_def)

end
