(* ===== verification/Payments.thy ===== *)
theory Payments
  imports Dedupe Transactions Event_Codec
begin

text \<open>
  The payment services of \<open>src/modules/payments/services.py\<close>: the Redis lock on an
  Idempotency-Key, the event builders, the status machine and \<open>process_payment\<close>.

  The lock works on the breaker and the Redis server, the rest on the session, so the state of
  \<open>process_payment\<close> is a pair. Other clients of Redis and other tasks that use the breaker act
  while the lock is held: what they do is the argument \<open>li_others\<close>.
\<close>

section \<open>Idempotency lock\<close>

record IdempotencyLock =
  lk_key :: string
  lk_token :: string

definition redis_key :: "string \<Rightarrow> string" where
  "redis_key idempotency_key = ''idemp:'' @ idempotency_key"

definition lock_busy_error :: "string \<Rightarrow> exc" where
  "lock_busy_error idempotency_key = nimbus_error IdempotencyConflictError
     (Some ''A request with this Idempotency-Key is already in progress.'')
     (Some [(''idempotency_key'', JStr idempotency_key),
            (''lock_key'', JStr (redis_key idempotency_key))])"

text \<open>\<open>token\<close> is the \<open>uuid.uuid4()\<close> the function draws.\<close>

definition acquire_idempotency_lock ::
    "'r redis_ops \<Rightarrow> redis_io \<Rightarrow> uuid \<Rightarrow> string \<Rightarrow> int option
     \<Rightarrow> (breaker \<times> 'r, exc, IdempotencyLock) comp" where
  "acquire_idempotency_lock R io token idempotency_key ttl_seconds =
     (if idempotency_key = [] then raise_exc (ValueError ''idempotency_key must be a non-empty string'')
      else let key = redis_key idempotency_key;
               ttl = (case ttl_seconds of Some n \<Rightarrow> n | None \<Rightarrow> 30) in
      if ttl \<le> 0 then raise_exc (ValueError ''ttl_seconds must be > 0'')
      else seq (guarded_request io (rd_set R (io_now io) key (uuid_hex token) (Some ttl) True))
        (\<lambda>acquired.
           if \<not> acquired then raise_exc (lock_busy_error idempotency_key)
           else ret \<lparr>lk_key = key, lk_token = uuid_hex token\<rparr>))"

definition release_idempotency_lock ::
    "'r redis_ops \<Rightarrow> redis_io \<Rightarrow> IdempotencyLock \<Rightarrow> (breaker \<times> 'r, exc, bool) comp" where
  "release_idempotency_lock R io lock =
     try_except
       (seq (guarded_request io (lock_release_lua R (io_now io) (lk_key lock) (lk_token lock)))
          (\<lambda>released. ret (released > 0)))
       (\<lambda>e. if exc_isinstance e CacheUnavailableError then ret False else raise_exc e)"

record 'r lock_io =
  li_token :: uuid
  li_acquire :: redis_io
  li_release :: redis_io
  li_others :: "breaker \<times> 'r \<Rightarrow> breaker \<times> 'r"

text \<open>\<open>async with idempotency_lock(key): body\<close>.\<close>

definition idempotency_lock ::
    "'r redis_ops \<Rightarrow> 'r lock_io \<Rightarrow> string \<Rightarrow> int option
     \<Rightarrow> (IdempotencyLock \<Rightarrow> ((breaker \<times> 'r) \<times> 's, exc, 'a) comp)
     \<Rightarrow> ((breaker \<times> 'r) \<times> 's, exc, 'a) comp" where
  "idempotency_lock R io idempotency_key ttl_seconds body =
     seq (on_fst (acquire_idempotency_lock R (li_acquire io) (li_token io) idempotency_key ttl_seconds))
       (\<lambda>lock. try_finally (body lock)
          (on_fst (seq (modify (li_others io)) (\<lambda>_. release_idempotency_lock R (li_release io) lock))))"

section \<open>Events\<close>

definition base_payload :: "string \<Rightarrow> payment \<Rightarrow> (string \<times> json) list" where
  "base_payload now_iso p =
     [(''payment_id'', JStr (str_uuid (p_id p))),
      (''status'', JStr (payment_status_value (p_status p))),
      (''amount_minor_units'', JInt (p_amount_minor_units p)),
      (''currency'', JStr (p_currency p)),
      (''occurred_at'', JStr now_iso)]"

text \<open>The event identifier and the two clock readings are drawn inside the call.\<close>

record event_io =
  ev_event_id :: uuid
  ev_payload_now :: string
  ev_occurred_at :: string

definition build_payment_event ::
    "event_io \<Rightarrow> payment \<Rightarrow> string \<Rightarrow> (string \<times> json) list option \<Rightarrow> event_envelope" where
  "build_payment_event io p ev_type extra_payload =
     (let base = base_payload (ev_payload_now io) p;
          body = (case extra_payload of None \<Rightarrow> base
                  | Some extra \<Rightarrow> if extra = [] then base else dict_update base extra) in
      \<lparr>event_id = ev_event_id io, event_type = ev_type, schema_version = 1,
       aggregate_type = ''Payment'', aggregate_id = str_uuid (p_id p),
       correlation_id = None, causation_id = None, occurred_at = ev_occurred_at io,
       payload = JDict body\<rparr>)"

text \<open>\<open>dedupe_event(payload)\<close>, the module's name for the content-addressed id.\<close>

definition dedupe_event :: "'w codec \<Rightarrow> json \<Rightarrow> string" where
  "dedupe_event C p = make_dedupe_id C p"

definition build_outbox_event :: "'w codec \<Rightarrow> int \<Rightarrow> event_envelope \<Rightarrow> string \<Rightarrow> outbox_event" where
  "build_outbox_event C now e topic =
     new_outbox_event now (event_id e) (aggregate_type e) (aggregate_id e) (event_type e)
       topic (cd_dump C e) (content_hash C e)"

text \<open>
  Envelopes as Python objects, by reference: \<open>object.__setattr__\<close> goes past the frozen model and sets
  the hint on the object itself, so every holder of the reference sees it.
\<close>

record envelope_object =
  eo_envelope :: event_envelope
  eo_topic_hint :: "string option"

definition topic_hint :: "nat \<Rightarrow> (nat \<Rightarrow> envelope_object) \<Rightarrow> string option" where
  "topic_hint ref store = eo_topic_hint (store ref)"

definition set_topic_hint :: "nat \<Rightarrow> string \<Rightarrow> (nat \<Rightarrow> envelope_object) \<Rightarrow> nat \<times> (nat \<Rightarrow> envelope_object)" where
  "set_topic_hint ref topic store = (ref, store(ref := (store ref)\<lparr>eo_topic_hint := Some topic\<rparr>))"

section \<open>The status machine\<close>

fun allowed_transitions :: "payment_status \<Rightarrow> payment_status list" where
  "allowed_transitions P_PENDING = [P_AUTHORIZED, P_FAILED, P_DECLINED]"
| "allowed_transitions P_AUTHORIZED = [P_CAPTURED, P_DECLINED]"
| "allowed_transitions P_CAPTURED = [P_SETTLED, P_REFUNDED]"
| "allowed_transitions _ = []"

definition validate_transition :: "payment_status \<Rightarrow> payment_status \<Rightarrow> exc + unit" where
  "validate_transition current new =
     (if new \<in> set (allowed_transitions current) then Inr ()
      else Inl (PaymentAlreadyProcessedError
        (''Cannot transition payment from '' @ payment_status_value current @ '' to ''
         @ payment_status_value new @ ''.'')))"

section \<open>process\_payment\<close>

record ProcessPaymentRequest =
  pp_payment_id :: uuid
  pp_idempotency_key :: string
  pp_new_status :: payment_status
  pp_extra_payload :: "(string \<times> json) list option"

record ProcessPaymentResult =
  ppr_payment :: payment
  ppr_outbox_event :: outbox_event
  ppr_envelope :: event_envelope

fun pending_payment :: "uuid \<Rightarrow> row list \<Rightarrow> payment option" where
  "pending_payment pid [] = None"
| "pending_payment pid (r # rs) =
     (case pending_payment pid rs of Some p \<Rightarrow> Some p
      | None \<Rightarrow> (case r of UpdatePayment p \<Rightarrow> if p_id p = pid then Some p else None | _ \<Rightarrow> None))"

definition select_payment_for_update :: "uuid \<Rightarrow> (session, exc, payment option) comp" where
  "select_payment_for_update pid s0 =
     (let s = others_commit s0 in
      case payments_t (view s) pid of
        None \<Rightarrow> (Inr None, s)
      | Some row \<Rightarrow>
          (Inr (Some (case pending_payment pid (se_pending s) of Some p \<Rightarrow> p | None \<Rightarrow> row)),
           s\<lparr>se_locked_payments := insert pid (se_locked_payments s)\<rparr>))"

definition payment_not_found :: "uuid \<Rightarrow> exc" where
  "payment_not_found pid = nimbus_error PaymentNotFoundError (Some ''Payment does not exist.'')
     (Some [(''payment_id'', JStr (str_uuid pid))])"

definition payment_event_type :: "payment_status \<Rightarrow> string" where
  "payment_event_type new_status = ''payments.payment_'' @ payment_status_value new_status"

text \<open>The body of the \<open>async with\<close> block.\<close>

definition process_payment_body ::
    "'w codec \<Rightarrow> event_io \<Rightarrow> ProcessPaymentRequest \<Rightarrow> (session, exc, ProcessPaymentResult) comp" where
  "process_payment_body C io request =
     seq (select_payment_for_update (pp_payment_id request)) (\<lambda>found.
       case found of
         None \<Rightarrow> raise_exc (payment_not_found (pp_payment_id request))
       | Some p \<Rightarrow>
           (case validate_transition (p_status p) (pp_new_status request) of
              Inl e \<Rightarrow> raise_exc e
            | Inr _ \<Rightarrow>
                (\<lambda>s. let p' = p\<lparr>p_status := pp_new_status request\<rparr>;
                         env = build_payment_event io p'
                           (payment_event_type (pp_new_status request))
                           (pp_extra_payload request);
                         obx = build_outbox_event C (se_now s) env ''payments.events'' in
                     seq (session_add (UpdatePayment p')) (\<lambda>_.
                     seq (session_add (InsertOutbox obx)) (\<lambda>_.
                     ret \<lparr>ppr_payment = p', ppr_outbox_event = obx, ppr_envelope = env\<rparr>)) s)))"

definition process_payment ::
    "'r redis_ops \<Rightarrow> 'w codec \<Rightarrow> 'r lock_io \<Rightarrow> event_io \<Rightarrow> ProcessPaymentRequest
     \<Rightarrow> ((breaker \<times> 'r) \<times> session, exc, ProcessPaymentResult) comp" where
  "process_payment R C lio eio request =
     idempotency_lock R lio (pp_idempotency_key request) None
       (\<lambda>_. on_snd (process_payment_body C eio request))"

section \<open>The topic hint\<close>

text \<open>
  The hint changes nothing but what \<open>_topic_hint\<close> reads back: the returned object is the argument
  itself, and the outbox row built from it has the same topic as before.
\<close>

lemma topic_hint_ignored:
  assumes "set_topic_hint ref topic store = (ref', store')"
  shows "ref' = ref" and "topic_hint ref store' = Some topic"
    and "build_outbox_event C now (eo_envelope (store' k)) t = build_outbox_event C now (eo_envelope (store k)) t"
  using assms by (auto simp: set_topic_hint_def topic_hint_def)

section \<open>Facts about the lock\<close>

lemma redis_key_inject [simp]: "redis_key a = redis_key b \<longleftrightarrow> a = b"
  by (simp add: redis_key_def)

text \<open>What an acquisition or a release can have done to the server.\<close>

lemma acquire_server:
  assumes "acquire_idempotency_lock R io token key ttl_opt (b, r) = (x, (b', r'))"
  shows "r' = r \<or> (\<exists>ttl. 0 < ttl \<and>
    r' = snd (rd_set R (io_now io) (redis_key key) (uuid_hex token) (Some ttl) True r))"
proof (cases "key = [] \<or> (case ttl_opt of Some n \<Rightarrow> n | None \<Rightarrow> 30) \<le> 0")
  case True
  then show ?thesis using assms
    by (auto simp: acquire_idempotency_lock_def Let_def split: if_splits)
next
  case False
  let ?ttl = "case ttl_opt of Some n \<Rightarrow> n | None \<Rightarrow> 30"
  let ?cmd = "rd_set R (io_now io) (redis_key key) (uuid_hex token) (Some ?ttl) True"
  from False assms have "seq (guarded_request io ?cmd) (\<lambda>acquired.
      if \<not> acquired then raise_exc (lock_busy_error key)
      else ret \<lparr>lk_key = redis_key key, lk_token = uuid_hex token\<rparr>) (b, r) = (x, (b', r'))"
    by (simp add: acquire_idempotency_lock_def Let_def)
  then have "r' = r \<or> r' = snd (?cmd r)"
    by (cases rule: guarded_request_cases [of io ?cmd b r]) (auto simp: seq_def split: if_splits)
  moreover have "0 < ?ttl" using False by simp
  ultimately show ?thesis by blast
qed

lemma release_server:
  assumes "release_idempotency_lock R io lock (b, r) = (x, (b', r'))"
  shows "r' = r \<or> r' = snd (lock_release_lua R (io_now io) (lk_key lock) (lk_token lock) r)"
  using assms
  by (cases rule: guarded_request_cases
      [of io "lock_release_lua R (io_now io) (lk_key lock) (lk_token lock)" b r])
    (auto simp: release_idempotency_lock_def try_except_def seq_def split: if_splits)

lemma release_delivered:
  assumes "br_state b = Closed" and "io_delivery io = Delivered"
  shows "release_idempotency_lock R io lock (b, r) =
    (Inr (0 < fst (lock_release_lua R (io_now io) (lk_key lock) (lk_token lock) r)),
     (record_success b, snd (lock_release_lua R (io_now io) (lk_key lock) (lk_token lock) r)))"
  using assms
  by (simp add: release_idempotency_lock_def try_except_def guarded_request_delivered)

lemma acquire_InrE:
  assumes "acquire_idempotency_lock R io token key ttl_opt (b, r) = (Inr lock, (b', r'))"
  obtains ttl where "ttl = (case ttl_opt of Some n \<Rightarrow> n | None \<Rightarrow> 30)" and "0 < ttl" and "key \<noteq> []"
    and "lock = \<lparr>lk_key = redis_key key, lk_token = uuid_hex token\<rparr>"
    and "io_delivery io = Delivered" and "br_state b' = Closed"
    and "fst (rd_set R (io_now io) (redis_key key) (uuid_hex token) (Some ttl) True r)"
    and "r' = snd (rd_set R (io_now io) (redis_key key) (uuid_hex token) (Some ttl) True r)"
proof -
  let ?ttl = "case ttl_opt of Some n \<Rightarrow> n | None \<Rightarrow> 30"
  let ?cmd = "rd_set R (io_now io) (redis_key key) (uuid_hex token) (Some ?ttl) True"
  have ok: "key \<noteq> []" "0 < ?ttl"
    using assms by (auto simp: acquire_idempotency_lock_def Let_def split: if_splits)
  then have g: "seq (guarded_request io ?cmd) (\<lambda>acquired.
      if \<not> acquired then raise_exc (lock_busy_error key)
      else ret \<lparr>lk_key = redis_key key, lk_token = uuid_hex token\<rparr>) (b, r) = (Inr lock, (b', r'))"
    using assms by (simp add: acquire_idempotency_lock_def Let_def)
  show thesis
  proof (cases rule: guarded_request_cases [of io ?cmd b r])
    case (answered b1)
    with g ok show thesis by (intro that [of ?ttl]) (auto split: if_splits)
  qed (use g in \<open>auto simp: seq_def\<close>)
qed

text \<open>
  Everything the processes that use the lock can do to the server: each has a breaker of its
  own, and each request may be lost.
\<close>

datatype lock_action =
    TryAcquire breaker redis_io uuid string "int option"
  | TryRelease breaker redis_io IdempotencyLock

fun lock_step :: "'r redis_ops \<Rightarrow> lock_action \<Rightarrow> 'r \<Rightarrow> 'r" where
  "lock_step R (TryAcquire b io token key ttl) r =
     snd (snd (acquire_idempotency_lock R io token key ttl (b, r)))"
| "lock_step R (TryRelease b io lock) r = snd (snd (release_idempotency_lock R io lock (b, r)))"

fun lock_action_time :: "lock_action \<Rightarrow> int" where
  "lock_action_time (TryAcquire b io token key ttl) = io_now io"
| "lock_action_time (TryRelease b io lock) = io_now io"

fun releases :: "IdempotencyLock \<Rightarrow> lock_action \<Rightarrow> bool" where
  "releases lock (TryAcquire b io token key ttl) = False"
| "releases lock (TryRelease b io lock') = (lock' = lock)"

context redis_like
begin

text \<open>A held lock survives whatever the others do, until its holder releases it or it expires.\<close>

lemma lock_step_keeps:
  assumes held: "live t r k = Some token" and time: "lock_action_time a \<le> t"
    and other: "\<not> releases \<lparr>lk_key = k, lk_token = token\<rparr> a"
  shows "live t (lock_step R a r) k = Some token"
proof (cases a)
  case (TryAcquire b io tok key ttl_opt)
  obtain x b' r' where acq: "acquire_idempotency_lock R io tok key ttl_opt (b, r) = (x, (b', r'))"
    by (metis prod_cases3)
  have now: "io_now io \<le> t" using time TryAcquire by simp
  from acquire_server [OF acq] have "live t r' k = live t r k"
  proof
    assume "\<exists>ttl. 0 < ttl \<and>
      r' = snd (rd_set R (io_now io) (redis_key key) (uuid_hex tok) (Some ttl) True r)"
    then obtain ttl where
      r': "r' = snd (rd_set R (io_now io) (redis_key key) (uuid_hex tok) (Some ttl) True r)"
      by blast
    show ?thesis
    proof (cases "k = redis_key key")
      case True
      then have "live (io_now io) r (redis_key key) \<noteq> None"
        using live_antimono [OF now] held by auto
      then show ?thesis using r' now set_refused by simp
    next
      case False
      then show ?thesis using r' now set_other by simp
    qed
  qed simp
  with held TryAcquire acq show ?thesis by simp
next
  case (TryRelease b io lock)
  obtain x b' r' where rel: "release_idempotency_lock R io lock (b, r) = (x, (b', r'))"
    by (metis prod_cases3)
  have now: "io_now io \<le> t" using time TryRelease by simp
  have diff: "k = lk_key lock \<Longrightarrow> token \<noteq> lk_token lock" using other TryRelease by auto
  from release_server [OF rel] have "live t r' k = Some token"
  proof
    assume "r' = snd (lock_release_lua R (io_now io) (lk_key lock) (lk_token lock) r)"
    then show ?thesis using release_script_safe [OF now held] diff by simp
  qed (use held in simp)
  with TryRelease rel show ?thesis by simp
qed

lemma lock_steps_keep:
  assumes "live t r k = Some token" and "\<forall>a\<in>set acts. lock_action_time a \<le> t"
    and "\<forall>a\<in>set acts. \<not> releases \<lparr>lk_key = k, lk_token = token\<rparr> a"
  shows "live t (fold (lock_step R) acts r) k = Some token"
  using assms by (induction acts arbitrary: r) (auto simp: lock_step_keeps)

lemma acquired_live:
  assumes "acquire_idempotency_lock R io token key (Some ttl) (b, r) = (Inr lock, (b', r'))"
    and "io_now io \<le> t" and "t < io_now io + seconds ttl"
  shows "live t r' (redis_key key) = Some (uuid_hex token)"
proof -
  from assms(1) obtain ttl' where ttl: "ttl' = ttl" "0 < ttl'"
    and ok: "fst (rd_set R (io_now io) (redis_key key) (uuid_hex token) (Some ttl') True r)"
    and r': "r' = snd (rd_set R (io_now io) (redis_key key) (uuid_hex token) (Some ttl') True r)"
    by (rule acquire_InrE) simp
  then have "live (io_now io) r (redis_key key) = None" by (simp add: set_ok)
  with r' ttl assms(2,3) show ?thesis by (simp add: set_live)
qed

lemma acquire_busy:
  assumes "live (io_now io) r (redis_key key) \<noteq> None"
  shows "acquire_idempotency_lock R io token key ttl_opt (b, r) \<noteq> (Inr lock, (b', r'))"
  using assms by (auto simp: set_ok elim: acquire_InrE)

lemma acquire_busy_error:
  assumes "live (io_now io) r (redis_key key) \<noteq> None" and "key \<noteq> []" and "0 < ttl"
    and "br_state b = Closed" and "io_delivery io = Delivered"
  shows "fst (acquire_idempotency_lock R io token key (Some ttl) (b, r)) = Inl (lock_busy_error key)"
  using assms
  by (simp add: acquire_idempotency_lock_def Let_def guarded_request_delivered set_ok)

end

section \<open>Facts about the context manager\<close>

lemma idempotency_lock_refused:
  assumes "acquire_idempotency_lock R (li_acquire io) (li_token io) key ttl br = (Inl e, br1)"
  shows "idempotency_lock R io key ttl body (br, s) = (Inl e, (br1, s))"
  using assms by (simp add: idempotency_lock_def seq_def)

lemma idempotency_lock_acquired:
  assumes "acquire_idempotency_lock R (li_acquire io) (li_token io) key ttl br = (Inr lock, br1)"
    and "release_idempotency_lock R (li_release io) lock (li_others io br1) = (x, br2)"
  shows "idempotency_lock R io key ttl (\<lambda>_. on_snd m) (br, s)
    = ((case x of Inl e \<Rightarrow> Inl e | Inr _ \<Rightarrow> fst (m s)), (br2, snd (m s)))"
  using assms
  by (cases x) (simp_all add: idempotency_lock_def seq_def try_finally_def)

section \<open>Facts about the status machine\<close>

text \<open>The lifecycle as a relation; a payment's history is a path of it.\<close>

inductive payment_path :: "payment_status \<Rightarrow> payment_status list \<Rightarrow> payment_status \<Rightarrow> bool" where
  start: "payment_path a [] a"
| step: "validate_transition a b = Inr () \<Longrightarrow> payment_path b bs c \<Longrightarrow> payment_path a (b # bs) c"

inductive_simps payment_path_Nil: "payment_path a [] c"
inductive_simps payment_path_Cons: "payment_path a (b # bs) c"

fun payment_rank :: "payment_status \<Rightarrow> nat" where
  "payment_rank P_PENDING = 0"
| "payment_rank P_AUTHORIZED = 1"
| "payment_rank P_CAPTURED = 2"
| "payment_rank _ = 3"

lemma validate_transition_rank:
  "validate_transition a b = Inr () \<Longrightarrow> payment_rank a < payment_rank b"
  by (cases a) (auto simp: validate_transition_def split: if_splits)

lemma validate_transition_irrefl: "validate_transition a a \<noteq> Inr ()"
  using validate_transition_rank [of a a] by auto

lemma payment_path_rank: "payment_path a bs c \<Longrightarrow> payment_rank a + length bs \<le> payment_rank c"
  by (induction rule: payment_path.induct) (auto dest: validate_transition_rank)

section \<open>Facts about process\_payment\<close>

lemma length_event_type: "length (payment_event_type s) \<le> 27" "payment_event_type s \<noteq> []"
  using length_payment_status_value [of s] by (simp_all add: payment_event_type_def)

lemma payment_envelope_valid:
  "envelope_valid (build_payment_event io p (payment_event_type s) extra)"
  using length_event_type [of s]
  by (simp add: envelope_valid_def build_payment_event_def Let_def Suc_le_eq)

lemma build_event_simps [simp]:
  "aggregate_id (build_payment_event io p ty extra) = str_uuid (p_id p)"
  "event_type (build_payment_event io p ty extra) = ty"
  "ob_payload (build_outbox_event C now e topic) = cd_dump C e"
  "ob_dedupe_id (build_outbox_event C now e topic) = content_hash C e"
  "ob_processed (build_outbox_event C now e topic) = False"
  "ob_topic (build_outbox_event C now e topic) = topic"
  by (simp_all add: build_payment_event_def build_outbox_event_def new_outbox_event_def Let_def)

lemma pending_payment_p_id: "pending_payment pid rs = Some p \<Longrightarrow> p_id p = pid"
  by (induction rs) (auto split: option.splits row.splits if_splits)

lemma body_missing:
  assumes "payments_t (view (others_commit s)) (pp_payment_id req) = None"
  shows "process_payment_body C io req s
    = (Inl (payment_not_found (pp_payment_id req)), others_commit s)"
  using assms
  by (simp add: process_payment_body_def select_payment_for_update_def Let_def seq_def del: view_simps)

lemma body_refused:
  assumes "payments_t (view (others_commit s)) (pp_payment_id req) = Some row"
    and "pending_payment (pp_payment_id req) (se_pending s) = None"
    and "validate_transition (p_status row) (pp_new_status req) = Inl e"
  shows "process_payment_body C io req s = (Inl e, (others_commit s)
    \<lparr>se_locked_payments := insert (pp_payment_id req) (se_locked_payments s)\<rparr>)"
  using assms
  by (simp add: process_payment_body_def select_payment_for_update_def Let_def seq_def del: view_simps)

lemma body_accepted:
  assumes "payments_t (view (others_commit s)) (pp_payment_id req) = Some row"
    and "pending_payment (pp_payment_id req) (se_pending s) = None"
    and "validate_transition (p_status row) (pp_new_status req) = Inr ()"
    and "p' = row\<lparr>p_status := pp_new_status req\<rparr>"
    and "env = build_payment_event io p'
           (payment_event_type (pp_new_status req)) (pp_extra_payload req)"
    and "obx = build_outbox_event C (se_now s) env ''payments.events''"
  shows "process_payment_body C io req s =
    (Inr \<lparr>ppr_payment = p', ppr_outbox_event = obx, ppr_envelope = env\<rparr>,
     (others_commit s)\<lparr>
       se_locked_payments := insert (pp_payment_id req) (se_locked_payments s),
       se_pending := se_pending s @ [UpdatePayment p', InsertOutbox obx]\<rparr>)"
  using assms
  by (simp add: process_payment_body_def select_payment_for_update_def Let_def seq_def del: view_simps)

text \<open>The three ways the body can end.\<close>

lemma process_payment_body_cases:
  assumes "pending_payment (pp_payment_id req) (se_pending s) = None"
  obtains (missing) "payments_t (view (others_commit s)) (pp_payment_id req) = None"
      and "process_payment_body C io req s
        = (Inl (payment_not_found (pp_payment_id req)), others_commit s)"
    | (rejected) row e where "payments_t (view (others_commit s)) (pp_payment_id req) = Some row"
      and "validate_transition (p_status row) (pp_new_status req) = Inl e"
      and "process_payment_body C io req s = (Inl e, (others_commit s)
        \<lparr>se_locked_payments := insert (pp_payment_id req) (se_locked_payments s)\<rparr>)"
    | (accepted) row p' env obx where
      "payments_t (view (others_commit s)) (pp_payment_id req) = Some row"
      and "validate_transition (p_status row) (pp_new_status req) = Inr ()"
      and "p' = row\<lparr>p_status := pp_new_status req\<rparr>"
      and "env = build_payment_event io p'
           (payment_event_type (pp_new_status req)) (pp_extra_payload req)"
      and "obx = build_outbox_event C (se_now s) env ''payments.events''"
      and "process_payment_body C io req s =
        (Inr \<lparr>ppr_payment = p', ppr_outbox_event = obx, ppr_envelope = env\<rparr>,
         (others_commit s)\<lparr>
           se_locked_payments := insert (pp_payment_id req) (se_locked_payments s),
           se_pending := se_pending s @ [UpdatePayment p', InsertOutbox obx]\<rparr>)"
proof (cases "payments_t (view (others_commit s)) (pp_payment_id req)")
  case None
  show thesis by (rule missing [OF None body_missing [OF None]])
next
  case (Some row)
  show thesis
  proof (cases "validate_transition (p_status row) (pp_new_status req)")
    case (Inl e)
    show thesis by (rule rejected [OF Some Inl body_refused [OF Some assms Inl]])
  next
    case (Inr u)
    then have v: "validate_transition (p_status row) (pp_new_status req) = Inr ()" by simp
    show thesis
      by (rule accepted [OF Some v HOL.refl HOL.refl HOL.refl
            body_accepted [OF Some assms v HOL.refl HOL.refl HOL.refl]])
  qed
qed

text \<open>The commit of an accepted payment: both rows or none.\<close>

lemma commit_payment_and_outbox:
  assumes "session_commit None s = (Inr u, s')"
    and "se_pending s = [UpdatePayment p, InsertOutbox y]"
  shows "payments_t (se_db s') = (payments_t (view (others_commit s)))(p_id p \<mapsto> p\<lparr>p_updated_at := se_now s\<rparr>)
    \<and> outbox_t (se_db s') = outbox_t (view (others_commit s)) @ [y]
    \<and> orders_t (se_db s') = orders_t (view (others_commit s))
    \<and> stock_t (se_db s') = stock_t (view (others_commit s))
    \<and> users_t (se_db s') = users_t (view (others_commit s))"
  using assms
  by (auto simp: session_commit_def session_flush_def Let_def flush_row_def elim!: seq_InrE
      split: sum.splits if_splits)

lemma session_commit_outcome: "session_commit (Some e) s \<noteq> (Inr u, s')"
  by (auto simp: session_commit_def elim!: seq_InrE)

text \<open>The session after an accepted body still shows the row it has locked.\<close>

lemma locked_row_stable:
  assumes "pid \<in> se_locked_payments s" and "payments_t (view s) pid = Some row"
  shows "payments_t (view (others_commit s)) pid = Some row"
  using assms others_commit_locked_payment [OF assms(1)]
  by (auto simp: map_add_def split: option.splits)

text \<open>The two ways through the lock: not acquired, or acquired, the body run and released.\<close>

lemma process_payment_cases:
  obtains (refused) e br1 where
      "acquire_idempotency_lock R (li_acquire lio) (li_token lio) (pp_idempotency_key req) None br
         = (Inl e, br1)"
      and "process_payment R C lio eio req (br, s) = (Inl e, (br1, s))"
    | (entered) lock br1 y br2 where
      "acquire_idempotency_lock R (li_acquire lio) (li_token lio) (pp_idempotency_key req) None br
         = (Inr lock, br1)"
      and "release_idempotency_lock R (li_release lio) lock (li_others lio br1) = (y, br2)"
      and "process_payment R C lio eio req (br, s) =
        ((case y of Inl e \<Rightarrow> Inl e | Inr _ \<Rightarrow> fst (process_payment_body C eio req s)),
         (br2, snd (process_payment_body C eio req s)))"
proof -
  let ?acq = "acquire_idempotency_lock R (li_acquire lio) (li_token lio) (pp_idempotency_key req) None br"
  obtain x br1 where a: "?acq = (x, br1)" by (meson surj_pair)
  show thesis
  proof (cases x)
    case (Inl e)
    with a refused show thesis by (simp add: process_payment_def idempotency_lock_refused)
  next
    case (Inr lock)
    obtain y br2 where
      "release_idempotency_lock R (li_release lio) lock (li_others lio br1) = (y, br2)"
      by (meson surj_pair)
    with a Inr entered show thesis by (simp add: process_payment_def idempotency_lock_acquired)
  qed
qed

lemma process_payment_body_fst:
  assumes "fst (process_payment_body C eio req s) = Inl e"
    and "pending_payment (pp_payment_id req) (se_pending s) = None"
  shows "se_pending (snd (process_payment_body C eio req s)) = se_pending s
    \<and> se_writes (snd (process_payment_body C eio req s)) = se_writes s
    \<and> se_db (snd (process_payment_body C eio req s)) = se_db (others_commit s)"
  using assms(1) by (cases rule: process_payment_body_cases [OF assms(2), of C eio]) simp_all

lemma process_payment_body_frame:
  assumes "process_payment_body C eio req s = (r, s')"
  shows "se_db s' = se_db (others_commit s)" and "se_env s' = se_env (others_commit s)"
    and "r = Inl e \<Longrightarrow> se_pending s' = se_pending s \<and> se_writes s' = se_writes s"
  using assms
  by (auto simp: process_payment_body_def select_payment_for_update_def Let_def seq_def
      split: option.splits sum.splits)

interpretation payment_svc: service "\<lambda>(eio, req). process_payment_body C eio req" for C
  by unfold_locales (use process_payment_body_frame [of C] in \<open>auto split: prod.splits\<close>)

lemma process_payment_accepted:
  assumes "fst (process_payment R C lio eio req (br, s)) = Inr out"
    and "pending_payment (pp_payment_id req) (se_pending s) = None"
  shows "\<exists>row. payments_t (view (others_commit s)) (pp_payment_id req) = Some row
    \<and> pp_new_status req \<in> set (allowed_transitions (p_status row))
    \<and> ppr_payment out = row\<lparr>p_status := pp_new_status req\<rparr>
    \<and> envelope_valid (ppr_envelope out) \<and> aggregate_id (ppr_envelope out) = str_uuid (p_id row)
    \<and> ob_payload (ppr_outbox_event out) = cd_dump C (ppr_envelope out)
    \<and> ob_dedupe_id (ppr_outbox_event out) = content_hash C (ppr_envelope out)
    \<and> \<not> ob_processed (ppr_outbox_event out) \<and> ob_topic (ppr_outbox_event out) = ''payments.events''
    \<and> snd (snd (process_payment R C lio eio req (br, s))) = (others_commit s)\<lparr>
        se_locked_payments := insert (pp_payment_id req) (se_locked_payments s),
        se_pending := se_pending s @ [UpdatePayment (ppr_payment out), InsertOutbox (ppr_outbox_event out)]\<rparr>"
proof (cases rule: process_payment_cases [of R lio req br C eio s])
  case (refused e br1)
  then show ?thesis using assms(1) by simp
next
  case (entered lock br1 y br2)
  then have body: "fst (process_payment_body C eio req s) = Inr out"
    using assms(1) by (simp split: sum.splits)
  from entered(3) show ?thesis
    by (cases rule: process_payment_body_cases [OF assms(2), of C eio])
      (use body in \<open>auto simp: validate_transition_def payment_envelope_valid
        simp del: view_simps split: if_splits\<close>)
qed


section \<open>Properties\<close>

text \<open>
  C6: Mutual exclusion. From the moment a request has acquired the lock of an Idempotency-Key until
  its TTL runs out, whatever other processes do (any number of acquisitions and releases, on this
  key or on others, with requests and replies lost, each with a breaker in any state), as long as
  nobody releases this very lock, Redis keeps the holder's token and no acquisition of the same
  key succeeds.
\<close>

theorem lock_mutual_exclusion:
  assumes "redis_like R live zset"
    and "fst (acquire_idempotency_lock R io token key (Some ttl) (b, r)) = Inr lock"
    and "io_now io \<le> t" and "t < io_now io + seconds ttl"
    and "\<forall>a\<in>set acts. lock_action_time a \<le> t" and "\<forall>a\<in>set acts. \<not> releases lock a"
    and "r' = fold (lock_step R) acts
           (snd (snd (acquire_idempotency_lock R io token key (Some ttl) (b, r))))"
    and "io_now io' \<le> t"
  shows "live t r' (redis_key key) = Some (uuid_hex token)
    \<and> (\<exists>e. fst (acquire_idempotency_lock R io' token' key ttl' (b', r')) = Inl e)"
proof -
  obtain b1 r1 where
    acq: "acquire_idempotency_lock R io token key (Some ttl) (b, r) = (Inr lock, (b1, r1))"
    using assms(2) by (metis prod.collapse)
  have lock: "lock = \<lparr>lk_key = redis_key key, lk_token = uuid_hex token\<rparr>"
    using acq by (rule acquire_InrE) simp
  have "live t r1 (redis_key key) = Some (uuid_hex token)"
    by (rule redis_like.acquired_live [OF assms(1) acq assms(3,4)])
  then have held: "live t r' (redis_key key) = Some (uuid_hex token)"
    using redis_like.lock_steps_keep [OF assms(1), of t r1 "redis_key key" "uuid_hex token" acts]
      assms(5-7) acq lock by simp
  then have "live (io_now io') r' (redis_key key) \<noteq> None"
    using redis_like.live_antimono [OF assms(1,8)] by auto
  from redis_like.acquire_busy [OF assms(1) this]
  have "fst (acquire_idempotency_lock R io' token' key ttl' (b', r')) \<noteq> Inr lock'" for lock'
    by (metis prod.collapse)
  then show ?thesis using held by (metis old.sum.exhaust)
qed

definition open_for_requests :: breaker where
  "open_for_requests = \<lparr>br_name = ''redis'', br_fail_max = 5, br_reset_timeout = seconds 30,
     br_state = Closed, br_failure_count = 0, br_opened_at = None\<rparr>"

definition answered_at :: "int \<Rightarrow> redis_io" where
  "answered_at t = \<lparr>io_now = t, io_mono = t, io_mono_fail = t, io_delivery = Delivered\<rparr>"

theorem lock_mutual_exclusion_witness:
  "\<exists>e. fst (acquire_idempotency_lock fake_redis_ops (answered_at 9) 3 ''k'' None
     (open_for_requests,
      fold (lock_step fake_redis_ops)
        [TryAcquire open_for_requests (answered_at 4) 2 ''k'' (Some 60),
         TryRelease open_for_requests (answered_at 5) \<lparr>lk_key = ''idemp:k'', lk_token = uuid_hex 2\<rparr>]
        (snd (snd (acquire_idempotency_lock fake_redis_ops (answered_at 0) 1 ''k'' (Some 30)
          (open_for_requests, fake_empty)))))) = Inl e"
proof -
  let ?acts = "[TryAcquire open_for_requests (answered_at 4) 2 ''k'' (Some 60),
    TryRelease open_for_requests (answered_at 5) \<lparr>lk_key = ''idemp:k'', lk_token = uuid_hex 2\<rparr>]"
  have a: "fst (acquire_idempotency_lock fake_redis_ops (answered_at 0) 1 ''k'' (Some 30)
      (open_for_requests, fake_empty)) = Inr \<lparr>lk_key = ''idemp:k'', lk_token = uuid_hex 1\<rparr>"
    by code_simp
  have "uuid_hex 1 \<noteq> uuid_hex 2" by code_simp
  then have other: "\<forall>a\<in>set ?acts. \<not> releases \<lparr>lk_key = ''idemp:k'', lk_token = uuid_hex 1\<rparr> a"
    by simp
  have times: "\<forall>a\<in>set ?acts. lock_action_time a \<le> 10" by (simp add: answered_at_def)
  show ?thesis
    using lock_mutual_exclusion [OF fake.redis_like_axioms a _ _ times other HOL.refl, of "answered_at 9" 3 None]
    by (simp add: answered_at_def seconds_def)
qed

text \<open>
  A release never removes a lock of someone else. If a key holds a value that is not the
  caller's token (the caller's lock expired and another request has acquired the key, or the lock
  is on another key), the key still holds it after the release, whether or not the requests and
  replies get through; a release that is answered returns False in that case.
\<close>

theorem release_keeps_foreign_lock:
  assumes "redis_like R live zset" and "io_now io \<le> t" and "live t r k = Some v"
    and "k = lk_key lock \<Longrightarrow> v \<noteq> lk_token lock"
  shows "live t (snd (snd (release_idempotency_lock R io lock (b, r)))) k = Some v
    \<and> (k = lk_key lock \<and> br_state b = Closed \<and> io_delivery io = Delivered
       \<longrightarrow> fst (release_idempotency_lock R io lock (b, r)) = Inr False)"
proof
  obtain x b' r' where rel: "release_idempotency_lock R io lock (b, r) = (x, (b', r'))"
    by (metis prod_cases3)
  from release_server [OF rel]
  show "live t (snd (snd (release_idempotency_lock R io lock (b, r)))) k = Some v"
    using rel assms(3) redis_like.release_script_safe [OF assms(1,2,3), of "lk_key lock" "lk_token lock"]
      assms(4) by auto
  show "k = lk_key lock \<and> br_state b = Closed \<and> io_delivery io = Delivered
      \<longrightarrow> fst (release_idempotency_lock R io lock (b, r)) = Inr False"
  proof
    assume h: "k = lk_key lock \<and> br_state b = Closed \<and> io_delivery io = Delivered"
    then have "live (io_now io) r (lk_key lock) \<noteq> Some (lk_token lock)"
      using redis_like.live_antimono [OF assms(1-3)] assms(4) by auto
    with h show "fst (release_idempotency_lock R io lock (b, r)) = Inr False"
      by (simp add: release_delivered redis_like.release_script_other_owner(1) [OF assms(1)])
  qed
qed

theorem release_keeps_foreign_lock_witness:
  "fake_live 100 (snd (snd (release_idempotency_lock fake_redis_ops (answered_at 50)
      \<lparr>lk_key = ''idemp:k'', lk_token = ''stale''\<rparr>
      (open_for_requests, snd (fake_set 40 ''idemp:k'' ''fresh'' (Some 30) True fake_empty))))) ''idemp:k''
   = Some ''fresh''"
proof -
  let ?r = "snd (fake_set 40 ''idemp:k'' ''fresh'' (Some 30) True fake_empty)"
  have "fake_live 100 ?r ''idemp:k'' = Some ''fresh''" by code_simp
  then show ?thesis
    using release_keeps_foreign_lock [of fake_redis_ops fake_live fake_zset "answered_at 50" 100 ?r
        "''idemp:k''" "''fresh''" "\<lparr>lk_key = ''idemp:k'', lk_token = ''stale''\<rparr>" open_for_requests]
      fake.redis_like_axioms by (simp add: answered_at_def)
qed

text \<open>
  The lock is released on every path. Once \<open>process_payment\<close> has acquired the lock, then
  however its body ends (payment updated, payment missing, transition refused), and whatever
  others did meanwhile, a release that Redis executes leaves the key without the caller's token
  from then on, and the caller gets exactly the outcome of the body.
\<close>

theorem process_payment_releases_lock:
  assumes "redis_like R live zset"
    and "fst (acquire_idempotency_lock R (li_acquire lio) (li_token lio) (pp_idempotency_key req) None br)
         = Inr lock"
    and "li_others lio (snd (acquire_idempotency_lock R (li_acquire lio) (li_token lio)
           (pp_idempotency_key req) None br)) = (b, r)"
    and "br_state b = Closed" and "io_delivery (li_release lio) = Delivered"
    and "io_now (li_release lio) \<le> t"
  shows "live t (snd (fst (snd (process_payment R C lio eio req (br, s)))))
           (redis_key (pp_idempotency_key req)) \<noteq> Some (uuid_hex (li_token lio))
    \<and> fst (process_payment R C lio eio req (br, s)) = fst (process_payment_body C eio req s)"
proof (cases rule: process_payment_cases [of R lio req br C eio s])
  case (refused e br1)
  then show ?thesis using assms(2) by simp
next
  case (entered lock' br1 y br2)
  have lock: "lock' = \<lparr>lk_key = redis_key (pp_idempotency_key req), lk_token = uuid_hex (li_token lio)\<rparr>"
    using entered(1) acquire_InrE by (metis prod.collapse)
  let ?k = "redis_key (pp_idempotency_key req)" and ?tok = "uuid_hex (li_token lio)"
    and ?now = "io_now (li_release lio)"
  have "(y, br2) = (Inr (0 < fst (lock_release_lua R ?now ?k ?tok r)),
      (record_success b, snd (lock_release_lua R ?now ?k ?tok r)))"
    using entered(1,2) assms(3) release_delivered [OF assms(4,5), of R lock' r] lock by simp
  moreover have "live t (snd (lock_release_lua R ?now ?k ?tok r)) ?k \<noteq> Some ?tok"
  proof (cases "live ?now r ?k = Some ?tok")
    case True
    then show ?thesis using redis_like.release_script_owner(2) [OF assms(1) _ assms(6)] by simp
  next
    case False
    then show ?thesis
      using redis_like.release_script_other_owner(2) [OF assms(1) False assms(6)]
        redis_like.live_antimono [OF assms(1,6)] by auto
  qed
  ultimately show ?thesis using entered(3) by simp
qed


definition one_payment :: "payment_status \<Rightarrow> session" where
  "one_payment st = new_session (empty_db\<lparr>payments_t := [7 \<mapsto>
     \<lparr>p_id = 7, p_status = st, p_amount_minor_units = 500, p_currency = ''EUR'',
      p_created_at = 0, p_updated_at = 0\<rparr>]\<rparr>) [] 1000"

definition capture_request :: ProcessPaymentRequest where
  "capture_request = \<lparr>pp_payment_id = 7, pp_idempotency_key = ''k'', pp_new_status = P_CAPTURED,
     pp_extra_payload = None\<rparr>"

definition quiet_lock_io :: "fake_redis lock_io" where
  "quiet_lock_io = \<lparr>li_token = 1, li_acquire = answered_at 0, li_release = answered_at 9, li_others = (\<lambda>x. x)\<rparr>"

definition demo_event_io :: event_io where
  "demo_event_io = \<lparr>ev_event_id = 5, ev_payload_now = ''t0'', ev_occurred_at = ''t1''\<rparr>"

definition demo_run :: "payment_status \<Rightarrow> (exc + ProcessPaymentResult) \<times> (breaker \<times> fake_redis) \<times> session" where
  "demo_run st = process_payment fake_redis_ops json_codec quiet_lock_io demo_event_io capture_request
     ((open_for_requests, fake_empty), one_payment st)"

lemma demo_run_ok: "fst (demo_run P_AUTHORIZED) = Inr (projr (fst (demo_run P_AUTHORIZED)))"
proof -
  have "\<not> isl (fst (demo_run P_AUTHORIZED))" by code_simp
  then show ?thesis by (cases "fst (demo_run P_AUTHORIZED)") simp_all
qed

theorem process_payment_releases_lock_witness:
  "fake_live 9 (snd (fst (snd (demo_run P_PENDING)))) ''idemp:k'' \<noteq> Some (uuid_hex 1)"
proof -
  let ?acq = "acquire_idempotency_lock fake_redis_ops (li_acquire quiet_lock_io) (li_token quiet_lock_io)
    (pp_idempotency_key capture_request) None (open_for_requests, fake_empty)"
  have a: "fst ?acq = Inr \<lparr>lk_key = ''idemp:k'', lk_token = uuid_hex 1\<rparr>" by code_simp
  have o: "li_others quiet_lock_io x = x" for x by (simp add: quiet_lock_io_def)
  have c: "br_state (fst (snd ?acq)) = Closed" by code_simp
  have d: "io_delivery (li_release quiet_lock_io) = Delivered" "io_now (li_release quiet_lock_io) = 9"
    by (simp_all add: quiet_lock_io_def answered_at_def)
  show ?thesis
    using process_payment_releases_lock [OF fake.redis_like_axioms a,
        of "fst (snd ?acq)" "snd (snd ?acq)" 9 json_codec demo_event_io "one_payment P_PENDING"] c d
    by (simp add: o demo_run_def capture_request_def redis_key_def) (simp add: quiet_lock_io_def)
qed


text \<open>
  C1: The payment and its event commit together. After a successful \<open>process_payment\<close> in a fresh
  transaction, the row the decision was made on is still the committed one when the caller
  commits (no update is lost). The commit either makes the new status and exactly one new outbox
  row visible, or fails and leaves the committed tables as the other transactions made them.
\<close>

theorem payment_and_event_commit_together:
  assumes "fst (process_payment R C lio eio req (br, s)) = Inr out"
    and "se_pending s = []"
    and "\<And>row. payments_t (view (others_commit s)) (pp_payment_id req) = Some row
           \<Longrightarrow> p_id row = pp_payment_id req"
    and "s' = snd (snd (process_payment R C lio eio req (br, s)))"
  shows "\<exists>row. payments_t (view (others_commit s')) (pp_payment_id req) = Some row
      \<and> validate_transition (p_status row) (pp_new_status req) = Inr ()
      \<and> (\<forall>oc u s''. session_commit oc s' = (Inr u, s'') \<longrightarrow>
           payments_t (se_db s'') = (payments_t (view (others_commit s')))(pp_payment_id req \<mapsto>
             row\<lparr>p_status := pp_new_status req, p_updated_at := se_now s\<rparr>)
           \<and> outbox_t (se_db s'') = outbox_t (view (others_commit s')) @ [ppr_outbox_event out])
      \<and> (\<forall>oc e s''. session_commit oc s' = (Inl e, s'') \<longrightarrow>
           se_db s'' = se_db (others_commit s') \<and> se_writes s'' = empty_db)"
proof -
  from process_payment_accepted [OF assms(1)] assms(2,4) obtain row where
    row: "payments_t (view (others_commit s)) (pp_payment_id req) = Some row"
    and allowed: "pp_new_status req \<in> set (allowed_transitions (p_status row))"
    and pay: "ppr_payment out = row\<lparr>p_status := pp_new_status req\<rparr>"
    and s': "s' = (others_commit s)\<lparr>
        se_locked_payments := insert (pp_payment_id req) (se_locked_payments s),
        se_pending := [UpdatePayment (ppr_payment out), InsertOutbox (ppr_outbox_event out)]\<rparr>"
    by (auto simp del: view_simps)
  have stable: "payments_t (view (others_commit s')) (pp_payment_id req) = Some row"
    by (rule locked_row_stable) (use row s' in \<open>simp_all add: view_def\<close>)
  have "oc = None" if "session_commit oc s' = (Inr u, s'')" for oc u s''
    using that session_commit_outcome by (cases oc) auto
  then have committed: "payments_t (se_db s'') = (payments_t (view (others_commit s')))(p_id row \<mapsto>
        row\<lparr>p_status := pp_new_status req, p_updated_at := se_now s\<rparr>)
      \<and> outbox_t (se_db s'') = outbox_t (view (others_commit s')) @ [ppr_outbox_event out]"
    if "session_commit oc s' = (Inr u, s'')" for oc u s''
    using commit_payment_and_outbox [of s' u s'' "ppr_payment out" "ppr_outbox_event out"] that
    by (auto simp: s' pay simp del: view_simps)
  show ?thesis
  proof (intro exI [of _ row] conjI allI impI)
    show "validate_transition (p_status row) (pp_new_status req) = Inr ()"
      using allowed by (simp add: validate_transition_def)
  qed (use stable committed assms(3) [OF row] session_commit_error in \<open>auto simp del: view_simps\<close>)
qed

theorem payment_and_event_commit_together_witness:
  "\<exists>s''. session_commit None (snd (snd (demo_run P_AUTHORIZED))) = (Inr (), s'')
     \<and> map_option p_status (payments_t (se_db s'') 7) = Some P_CAPTURED
     \<and> map ob_event_type (outbox_t (se_db s'')) = [''payments.payment_captured'']"
proof -
  let ?s = "snd (snd (demo_run P_AUTHORIZED))"
  have key: "p_id row = pp_payment_id capture_request"
    if "payments_t (view (others_commit (one_payment P_AUTHORIZED))) (pp_payment_id capture_request) = Some row"
    for row using that by (auto simp: one_payment_def new_session_def capture_request_def)
  have pend: "se_pending (one_payment P_AUTHORIZED) = []" by (simp add: one_payment_def new_session_def)
  have ok: "\<not> isl (fst (session_commit None ?s))" by code_simp
  then obtain s'' where c: "session_commit None ?s = (Inr (), s'')"
    by (cases "session_commit None ?s"; cases "fst (session_commit None ?s)") auto
  from payment_and_event_commit_together [OF demo_run_ok [unfolded demo_run_def] pend key HOL.refl] c
  have "payments_t (se_db s'') 7 \<noteq> None \<and> map_option p_status (payments_t (se_db s'') 7) = Some P_CAPTURED
      \<and> outbox_t (se_db s'') = outbox_t (view (others_commit ?s)) @ [ppr_outbox_event (projr (fst (demo_run P_AUTHORIZED)))]"
    by (auto simp: demo_run_def capture_request_def simp del: view_simps)
  moreover have "outbox_t (view (others_commit ?s)) = []" by code_simp
  moreover have "ob_event_type (ppr_outbox_event (projr (fst (demo_run P_AUTHORIZED)))) = ''payments.payment_captured''"
    by code_simp
  ultimately show ?thesis using c by auto
qed

text \<open>
  A failing \<open>process_payment\<close> writes nothing and, unless what failed is the release of the lock
  after the work was done, leaves the unit of work as it was. The exception is the one of the
  lock, a missing payment, a refused transition, or the error of the release.
\<close>

theorem process_payment_failure_clean:
  assumes "fst (process_payment R C lio eio req (br, s)) = Inl e"
    and "pending_payment (pp_payment_id req) (se_pending s) = None"
    and "s' = snd (snd (process_payment R C lio eio req (br, s)))"
  shows "se_writes s' = se_writes s \<and> se_db s' \<in> {se_db s, se_db (others_commit s)} \<and>
    (se_pending s' = se_pending s \<or>
     (\<exists>lock br1 br2. release_idempotency_lock R (li_release lio) lock br1 = (Inl e, br2)))"
proof (cases rule: process_payment_cases [of R lio req br C eio s])
  case (refused e' br1)
  then show ?thesis using assms(3) by simp
next
  case (entered lock br1 y br2)
  show ?thesis
  proof (cases y)
    case (Inl e')
    then have "release_idempotency_lock R (li_release lio) lock (li_others lio br1) = (Inl e, br2)"
      using entered(2,3) assms(1) by simp
    moreover have "se_writes s' = se_writes s \<and> se_db s' = se_db (others_commit s)"
      using entered(3) assms(3)
      by (cases rule: process_payment_body_cases [OF assms(2), of C eio]) simp_all
    ultimately show ?thesis by blast
  next
    case (Inr ok)
    then have "fst (process_payment_body C eio req s) = Inl e" using entered(3) assms(1) by simp
    from process_payment_body_fst [OF this assms(2)] show ?thesis using entered(3) assms(3) by simp
  qed
qed

theorem process_payment_failure_clean_witness:
  "se_pending (snd (snd (demo_run P_SETTLED))) = [] \<and> se_writes (snd (snd (demo_run P_SETTLED))) = empty_db
     \<or> (\<exists>lock br1 br2 e. release_idempotency_lock fake_redis_ops (li_release quiet_lock_io) lock br1 = (Inl e, br2))"
proof -
  have "isl (fst (demo_run P_SETTLED))" by code_simp
  then have f: "fst (demo_run P_SETTLED) = Inl (projl (fst (demo_run P_SETTLED)))"
    by (cases "fst (demo_run P_SETTLED)") simp_all
  have "pending_payment (pp_payment_id capture_request) (se_pending (one_payment P_SETTLED)) = None"
    by code_simp
  from process_payment_failure_clean [OF f [unfolded demo_run_def] this HOL.refl] show ?thesis
    unfolding demo_run_def by (auto simp: one_payment_def new_session_def)
qed

text \<open>
  A replay is rejected. Once a payment has reached a status, a request to move it there again,
  now or after any number of further transitions, is refused and adds neither an update nor a
  second event, under any Idempotency-Key.
\<close>

theorem payment_replay_rejected:
  assumes "payments_t (view (others_commit s)) (pp_payment_id req) = Some row"
    and "payment_path (pp_new_status req) later (p_status row)"
    and "pending_payment (pp_payment_id req) (se_pending s) = None"
  shows "(\<exists>e. fst (process_payment R C lio eio req (br, s)) = Inl e)
    \<and> se_pending (snd (snd (process_payment R C lio eio req (br, s)))) = se_pending s
    \<and> fst (process_payment_body C eio req s) = Inl (PaymentAlreadyProcessedError
        (''Cannot transition payment from '' @ payment_status_value (p_status row) @ '' to ''
         @ payment_status_value (pp_new_status req) @ ''.''))"
proof -
  have "validate_transition (p_status row) (pp_new_status req) \<noteq> Inr ()"
    using payment_path_rank [OF assms(2)] validate_transition_rank by fastforce
  then have v: "validate_transition (p_status row) (pp_new_status req)
      = Inl (PaymentAlreadyProcessedError (''Cannot transition payment from ''
         @ payment_status_value (p_status row) @ '' to '' @ payment_status_value (pp_new_status req) @ ''.''))"
    unfolding validate_transition_def by presburger
  note body = body_refused [OF assms(1,3) v, of C eio]
  show ?thesis
    by (cases rule: process_payment_cases [of R lio req br C eio s])
      (simp_all add: body split: sum.splits del: append_Cons)
qed

theorem payment_replay_rejected_witness:
  "\<exists>e. fst (demo_run P_SETTLED) = Inl e"
proof -
  have row: "payments_t (view (others_commit (one_payment P_SETTLED))) (pp_payment_id capture_request)
      = Some (the (payments_t (se_db (one_payment P_SETTLED)) 7))"
    by (simp add: one_payment_def new_session_def capture_request_def)
  have "payment_path P_CAPTURED [P_SETTLED] P_SETTLED"
    by (simp add: payment_path_Cons payment_path_Nil validate_transition_def)
  then have path: "payment_path (pp_new_status capture_request) [P_SETTLED]
      (p_status (the (payments_t (se_db (one_payment P_SETTLED)) 7)))"
    by (simp add: one_payment_def new_session_def capture_request_def)
  have "pending_payment (pp_payment_id capture_request) (se_pending (one_payment P_SETTLED)) = None"
    by code_simp
  from payment_replay_rejected [OF row path this] show ?thesis unfolding demo_run_def by blast
qed

text \<open>
  C40: The lifecycle of a payment: no status is ever entered twice, a payment goes through at most
  three transitions from any status, and settled, refunded, declined and failed are final.
\<close>

theorem payment_lifecycle:
  assumes "payment_path a bs c"
  shows "distinct (a # bs) \<and> length bs \<le> 3
    \<and> (\<forall>b. c \<in> {P_SETTLED, P_REFUNDED, P_DECLINED, P_FAILED} \<longrightarrow> validate_transition c b \<noteq> Inr ())"
proof -
  have le3: "payment_rank s \<le> 3" for s by (cases s) simp_all
  have up: "payment_path a bs c \<Longrightarrow> b \<in> set bs \<Longrightarrow> payment_rank a < payment_rank b" for a b bs c
    by (induction rule: payment_path.induct) (auto dest: validate_transition_rank)
  from assms have "distinct (a # bs)"
  proof (induction rule: payment_path.induct)
    case (step a b bs c)
    from up [OF payment_path.step [OF step.hyps]] step.IH show ?case by auto
  qed simp
  moreover have "length bs \<le> 3" using payment_path_rank [OF assms] le3 [of c] by linarith
  ultimately show ?thesis by (auto simp: validate_transition_def)
qed

theorem payment_lifecycle_witness:
  "distinct [P_PENDING, P_AUTHORIZED, P_CAPTURED, P_REFUNDED]"
proof -
  have "payment_path P_PENDING [P_AUTHORIZED, P_CAPTURED, P_REFUNDED] P_REFUNDED"
    by (simp add: payment_path_Cons payment_path_Nil validate_transition_def)
  from payment_lifecycle [OF this] show ?thesis by simp
qed

end
