(* ===== verification/Outbox_Relay.thy ===== *)
theory Outbox_Relay
  imports Event_Codec Database
begin

text \<open>
  The outbox relay of \<open>src/workers/outbox_relay.py\<close>: each tick claims a batch of unprocessed rows
  with \<open>FOR UPDATE SKIP LOCKED\<close>, publishes them through the producer, marks them and commits.

  The state is the committed outbox table, the producer with the log of messages the broker has
  accepted, and the counters. What the outside decides about one tick is a record: the rows that
  other relays hold locked, the fate of each send, what others do to the table while the batch is
  locked (they can add rows and change rows that are not claimed), and errors of the database. The
  payload column is JSONB; it is read back as the value that was stored, without what PostgreSQL
  normalizes in it (the order of the keys).
\<close>

section \<open>Counters\<close>

record relay_stats =
  polls :: int
  rows_seen :: int
  rows_published :: int
  rows_failed :: int
  rows_skipped_poison :: int
  ticks :: int
  last_tick_at :: int
  last_publish_at :: int

definition new_stats :: relay_stats where
  "new_stats = \<lparr>polls = 0, rows_seen = 0, rows_published = 0, rows_failed = 0,
     rows_skipped_poison = 0, ticks = 0, last_tick_at = 0, last_publish_at = 0\<rparr>"

record relay_settings =
  batch_size :: nat
  max_attempts :: int

datatype commit_outcome = Committed | CommitFailed exc | CommitUnconfirmed exc

record tick_io =
  ti_claim_error :: "exc option"
  ti_locked :: "uuid list"
  ti_send :: "uuid \<Rightarrow> send_outcome"
  ti_others :: "outbox_event \<Rightarrow> outbox_event"
  ti_new :: "outbox_event list"
  ti_flush_error :: "exc option"
  ti_commit :: commit_outcome
  ti_now :: int

record 'w relay =
  re_outbox :: "outbox_event list"
  re_producer :: producer
  re_log :: "'w wire_message list"
  re_stats :: relay_stats

section \<open>Claiming\<close>

definition claimable :: "outbox_event \<Rightarrow> bool" where
  "claimable r \<longleftrightarrow> \<not> ob_processed r \<and> \<not> ob_failed r"

definition claim_batch :: "relay_settings \<Rightarrow> uuid list \<Rightarrow> outbox_event list \<Rightarrow> outbox_event list" where
  "claim_batch cfg locked table =
     take (batch_size cfg)
       (sort_key ob_created_at (filter (\<lambda>r. claimable r \<and> ob_id r \<notin> set locked) table))"

section \<open>Publishing\<close>

fun nimbus_class_name :: "nimbus_class \<Rightarrow> string" where
  "nimbus_class_name NimbusError = ''NimbusError''"
| "nimbus_class_name DomainError = ''DomainError''"
| "nimbus_class_name ResourceNotFoundError = ''ResourceNotFoundError''"
| "nimbus_class_name ConflictError = ''ConflictError''"
| "nimbus_class_name IdempotencyConflictError = ''IdempotencyConflictError''"
| "nimbus_class_name ValidationFailedError = ''ValidationFailedError''"
| "nimbus_class_name AuthenticationError = ''AuthenticationError''"
| "nimbus_class_name PermissionDeniedError = ''PermissionDeniedError''"
| "nimbus_class_name RateLimitedError = ''RateLimitedError''"
| "nimbus_class_name InfrastructureError = ''InfrastructureError''"
| "nimbus_class_name DatabaseLockError = ''DatabaseLockError''"
| "nimbus_class_name DatabaseConnectionError = ''DatabaseConnectionError''"
| "nimbus_class_name CacheUnavailableError = ''CacheUnavailableError''"
| "nimbus_class_name BrokerUnavailableError = ''BrokerUnavailableError''"
| "nimbus_class_name NimbusTimeoutError = ''NimbusTimeoutError''"
| "nimbus_class_name PaymentNotFoundError = ''PaymentNotFoundError''"
| "nimbus_class_name OutOfStockError = ''OutOfStockError''"
| "nimbus_class_name ConcurrentUpdateError = ''ConcurrentUpdateError''"
| "nimbus_class_name StockNotFoundError = ''StockNotFoundError''"
| "nimbus_class_name OrderNotFoundError = ''OrderNotFoundError''"
| "nimbus_class_name UserAlreadyExistsError = ''UserAlreadyExistsError''"
| "nimbus_class_name InvalidCredentialsError = ''InvalidCredentialsError''"
| "nimbus_class_name UserNotFoundError = ''UserNotFoundError''"
| "nimbus_class_name TokenError = ''TokenError''"

text \<open>\<open>type(exc).__name__\<close>.\<close>

fun exc_type_name :: "exc \<Rightarrow> string" where
  "exc_type_name (Nimbus c m d) = nimbus_class_name c"
| "exc_type_name (ValueError m) = ''ValueError''"
| "exc_type_name (RuntimeError m) = ''RuntimeError''"
| "exc_type_name (AttributeError m) = ''AttributeError''"
| "exc_type_name (PaymentAlreadyProcessedError m) = ''PaymentAlreadyProcessedError''"
| "exc_type_name (PasswordError m) = ''PasswordError''"
| "exc_type_name (RedisError m) = ''RedisError''"
| "exc_type_name (KafkaTimeoutError m) = ''KafkaTimeoutError''"
| "exc_type_name (KafkaConnectionError m) = ''KafkaConnectionError''"
| "exc_type_name (KafkaError m) = ''KafkaError''"
| "exc_type_name (OperationalError m) = ''OperationalError''"
| "exc_type_name (IntegrityError m) = ''IntegrityError''"
| "exc_type_name (DBAPIError m) = ''DBAPIError''"
| "exc_type_name BuiltinTimeoutError = ''TimeoutError''"
| "exc_type_name (RequestValidationError j) = ''RequestValidationError''"
| "exc_type_name (HTTPException n j) = ''HTTPException''"
| "exc_type_name (OtherError ty m) = ty"

definition undeserializable :: "outbox_event \<Rightarrow> exc \<Rightarrow> exc" where
  "undeserializable row e = nimbus_error InfrastructureError
     (Some ''Outbox row payload does not deserialize to EventEnvelope.'')
     (Some [(''outbox_id'', JStr (str_uuid (ob_id row))),
            (''event_type'', JStr (ob_event_type row)),
            (''error'', JStr (exc_text e))])"

definition outbox_headers :: "outbox_event \<Rightarrow> (string \<times> string) list" where
  "outbox_headers row =
     [(''outbox_id'', str_uuid (ob_id row)), (''aggregate_type'', ob_aggregate_type row)]"

definition publish_one ::
    "'w codec \<Rightarrow> send_outcome \<Rightarrow> outbox_event \<Rightarrow> (producer \<times> 'w wire_message list, exc, unit) comp" where
  "publish_one C outcome row =
     (case cd_validate C (ob_payload row) of
        Inl e \<Rightarrow> raise_exc (undeserializable row e)
      | Inr env \<Rightarrow>
          seq (publish C outcome env (ob_topic row) (Some (aggregate_id env)) (outbox_headers row))
            (\<lambda>_. ret ()))"

text \<open>
  The loop over the claimed rows. \<open>len\<close> is \<open>len(rows)\<close>; the three counters are those of the rows
  already handled. The result holds the rows with their in-memory changes, the counters and
  \<open>fail_fast\<close>.
\<close>

record batch_result =
  bt_rows :: "outbox_event list"
  bt_published :: int
  bt_failed :: int
  bt_poison :: int
  bt_fail_fast :: bool

definition with_row :: "outbox_event \<Rightarrow> batch_result \<times> 'p \<Rightarrow> batch_result \<times> 'p" where
  "with_row row bp = ((fst bp)\<lparr>bt_rows := row # bt_rows (fst bp)\<rparr>, snd bp)"

fun publish_rows ::
    "'w codec \<Rightarrow> int \<Rightarrow> (uuid \<Rightarrow> send_outcome) \<Rightarrow> int \<Rightarrow> outbox_event list \<Rightarrow> int \<Rightarrow> int \<Rightarrow> int
     \<Rightarrow> producer \<times> 'w wire_message list \<Rightarrow> batch_result \<times> (producer \<times> 'w wire_message list)" where
  "publish_rows C mx send len [] published failed poison pl =
     (\<lparr>bt_rows = [], bt_published = published, bt_failed = failed, bt_poison = poison,
       bt_fail_fast = False\<rparr>, pl)"
| "publish_rows C mx send len (row # rows) published failed poison pl =
     (if ob_attempt_count row \<ge> mx
      then with_row (row\<lparr>ob_failed := True, ob_last_error := Some ''max_attempts_exceeded''\<rparr>)
             (publish_rows C mx send len rows published failed (poison + 1) pl)
      else case publish_one C (send (ob_id row)) row pl of
        (Inr _, pl') \<Rightarrow>
          with_row row (publish_rows C mx send len rows (published + 1) failed poison pl')
      | (Inl e, pl') \<Rightarrow>
          let row1 = row\<lparr>ob_attempt_count := ob_attempt_count row + 1\<rparr> in
          if exc_isinstance e BrokerUnavailableError
          then let failed1 = failed + 1; remaining = len - published - failed1 - poison in
            (\<lparr>bt_rows = row1\<lparr>ob_last_error := Some (take 1024 (exc_text e))\<rparr> # rows,
              bt_published = published, bt_failed = failed1 + max 0 remaining,
              bt_poison = poison, bt_fail_fast = True\<rparr>, pl')
          else if exc_isinstance e InfrastructureError
          then with_row (row1\<lparr>ob_last_error := Some (take 1024 (exc_text e)), ob_failed := True\<rparr>)
                 (publish_rows C mx send len rows published (failed + 1) (poison + 1) pl')
          else with_row (row1\<lparr>ob_last_error :=
                   Some (take 1024 (''unexpected: '' @ exc_type_name e @ '': '' @ exc_text e))\<rparr>)
                 (publish_rows C mx send len rows published (failed + 1) poison pl'))"

definition publish_batch ::
    "'w codec \<Rightarrow> relay_settings \<Rightarrow> (uuid \<Rightarrow> send_outcome) \<Rightarrow> outbox_event list
     \<Rightarrow> producer \<times> 'w wire_message list \<Rightarrow> batch_result \<times> (producer \<times> 'w wire_message list)" where
  "publish_batch C cfg send rows pl =
     publish_rows C (max_attempts cfg) send (int (length rows)) rows 0 0 0 pl"

section \<open>Marking\<close>

fun mark_rows :: "int \<Rightarrow> int \<Rightarrow> int \<Rightarrow> outbox_event list \<Rightarrow> outbox_event list" where
  "mark_rows now published_count published_seen [] = []"
| "mark_rows now published_count published_seen (row # rows) =
     (if ob_failed row then row # mark_rows now published_count published_seen rows
      else if published_seen < published_count
      then row\<lparr>ob_processed := True, ob_processed_at := Some now\<rparr>
             # mark_rows now published_count (published_seen + 1) rows
      else row # mark_rows now published_count published_seen rows)"

definition mark_batch :: "int \<Rightarrow> int \<Rightarrow> int \<Rightarrow> outbox_event list \<Rightarrow> outbox_event list" where
  "mark_batch now published_count poison_count rows =
     (if published_count = 0 \<and> poison_count = 0 then rows else mark_rows now published_count 0 rows)"

section \<open>One tick\<close>

text \<open>The table at the time of the commit, and with the batch written into it.\<close>

definition others_during :: "tick_io \<Rightarrow> outbox_event list \<Rightarrow> outbox_event list \<Rightarrow> outbox_event list" where
  "others_during io claimed table =
     map (\<lambda>r. if ob_id r \<in> ob_id ` set claimed then r
              else (ti_others io r)\<lparr>ob_id := ob_id r\<rparr>) table @ ti_new io"

definition write_back :: "outbox_event list \<Rightarrow> outbox_event list \<Rightarrow> outbox_event list" where
  "write_back batch table =
     map (\<lambda>r. case find (\<lambda>b. ob_id b = ob_id r) batch of Some b \<Rightarrow> b | None \<Rightarrow> r) table"

definition bump_stats :: "tick_io \<Rightarrow> batch_result \<Rightarrow> relay_stats \<Rightarrow> relay_stats" where
  "bump_stats io bt st =
     st\<lparr>rows_seen := rows_seen st + int (length (bt_rows bt)),
        rows_published := rows_published st + bt_published bt,
        rows_failed := rows_failed st + bt_failed bt,
        rows_skipped_poison := rows_skipped_poison st + bt_poison bt,
        last_tick_at := ti_now io,
        last_publish_at := (if bt_published bt > 0 then ti_now io else last_publish_at st)\<rparr>"

text \<open>\<open>_replace(stats, **changes)\<close>, the functional update of the frozen counters.\<close>

definition replace_stats :: "relay_stats \<Rightarrow> (string \<times> int) list \<Rightarrow> relay_stats" where
  "replace_stats st changes =
     (let get = (\<lambda>k d. case map_of changes k of Some v \<Rightarrow> v | None \<Rightarrow> d) in
      \<lparr>polls = get ''polls'' (polls st), rows_seen = get ''rows_seen'' (rows_seen st),
       rows_published = get ''rows_published'' (rows_published st), rows_failed = get ''rows_failed'' (rows_failed st),
       rows_skipped_poison = get ''rows_skipped_poison'' (rows_skipped_poison st), ticks = get ''ticks'' (ticks st),
       last_tick_at = get ''last_tick_at'' (last_tick_at st), last_publish_at = get ''last_publish_at'' (last_publish_at st)\<rparr>)"

text \<open>The updates of a tick are those of its calls of \<open>_replace\<close>.\<close>

lemma replace_stats_updates:
  "st\<lparr>polls := n\<rparr> = replace_stats st [(''polls'', n)]"
  "st\<lparr>ticks := n, last_tick_at := at\<rparr> = replace_stats st [(''ticks'', n), (''last_tick_at'', at)]"
  "st\<lparr>rows_failed := n, last_tick_at := at\<rparr> = replace_stats st [(''rows_failed'', n), (''last_tick_at'', at)]"
  "bump_stats io bt st = replace_stats st
     [(''rows_seen'', rows_seen st + int (length (bt_rows bt))), (''rows_published'', rows_published st + bt_published bt),
      (''rows_failed'', rows_failed st + bt_failed bt), (''rows_skipped_poison'', rows_skipped_poison st + bt_poison bt),
      (''last_tick_at'', ti_now io), (''last_publish_at'', if bt_published bt > 0 then ti_now io else last_publish_at st)]"
  by (simp_all add: replace_stats_def bump_stats_def)

definition is_operational :: "exc \<Rightarrow> bool" where
  "is_operational e = (case e of OperationalError _ \<Rightarrow> True | _ \<Rightarrow> False)"

definition tick :: "'w codec \<Rightarrow> relay_settings \<Rightarrow> tick_io \<Rightarrow> ('w relay, exc, int) comp" where
  "tick C cfg io s0 =
     (let s = s0\<lparr>re_stats := (re_stats s0)\<lparr>polls := polls (re_stats s0) + 1\<rparr>\<rparr> in
      case ti_claim_error io of
        Some e \<Rightarrow> if is_operational e then (Inr 0, s) else (Inl e, s)
      | None \<Rightarrow>
          let rows = claim_batch cfg (ti_locked io) (re_outbox s) in
          if rows = []
          then (Inr 0, s\<lparr>re_stats := (re_stats s)\<lparr>ticks := ticks (re_stats s) + 1,
                                                  last_tick_at := ti_now io\<rparr>\<rparr>)
          else case publish_batch C cfg (ti_send io) rows (re_producer s, re_log s) of (bt, (p, log)) \<Rightarrow>
            let table = others_during io rows (re_outbox s);
                s1 = s\<lparr>re_producer := p, re_log := log, re_outbox := table\<rparr> in
            if bt_fail_fast bt
            then (Inr 0, s1\<lparr>re_stats := (re_stats s)\<lparr>rows_failed := rows_failed (re_stats s) + bt_failed bt,
                                                      last_tick_at := ti_now io\<rparr>\<rparr>)
            else
              let batch = mark_batch (ti_now io) (bt_published bt) (bt_poison bt) (bt_rows bt);
                  done_s = s1\<lparr>re_outbox := write_back batch table\<rparr>;
                  flushes = (bt_published bt \<noteq> 0 \<or> bt_poison bt \<noteq> 0) in
              case (if flushes then ti_flush_error io else None) of
                Some e \<Rightarrow> (Inl e, s1)
              | None \<Rightarrow>
                  (case ti_commit io of
                     CommitFailed e \<Rightarrow> if is_operational e then (Inr 0, s1) else (Inl e, s1)
                   | CommitUnconfirmed e \<Rightarrow> if is_operational e then (Inr 0, done_s) else (Inl e, done_s)
                   | Committed \<Rightarrow>
                       (Inr (bt_published bt), done_s\<lparr>re_stats := bump_stats io bt (re_stats s)\<rparr>)))"

text \<open>
  \<open>_run_forever\<close>: a tick that raises an \<open>Exception\<close> is logged and the loop goes on; the list is
  that of the ticks that start before the stop event is set. \<open>run_once\<close> is one tick.
\<close>

fun run_forever :: "'w codec \<Rightarrow> relay_settings \<Rightarrow> tick_io list \<Rightarrow> 'w relay \<Rightarrow> 'w relay" where
  "run_forever C cfg [] s = s"
| "run_forever C cfg (io # ios) s = run_forever C cfg ios (snd (tick C cfg io s))"

definition run_once :: "'w codec \<Rightarrow> relay_settings \<Rightarrow> tick_io \<Rightarrow> ('w relay, exc, int) comp" where
  "run_once C cfg io = tick C cfg io"

section \<open>Lifecycle\<close>

record relay_task =
  rt_task :: task_state
  rt_stop_event :: bool

definition relay_start :: "bool \<Rightarrow> relay_task \<Rightarrow> relay_task" where
  "relay_start enabled t =
     (if rt_task t = Running then t
      else if \<not> enabled then t
      else t\<lparr>rt_stop_event := False, rt_task := Running\<rparr>)"

definition relay_stop :: "relay_task \<Rightarrow> relay_task" where
  "relay_stop t = (if rt_task t = NoTask then t else t\<lparr>rt_stop_event := True, rt_task := NoTask\<rparr>)"

section \<open>The fate of a row\<close>

text \<open>
  The producer does not change while a batch is published and an outcome does not depend on the
  log, so what happens to a row is a function of the row.
\<close>

datatype row_fate = Exhausted | Sent | Outage exc | Broken exc | Unexpected exc

definition row_fate_of ::
    "'w codec \<Rightarrow> int \<Rightarrow> (uuid \<Rightarrow> send_outcome) \<Rightarrow> producer \<Rightarrow> outbox_event \<Rightarrow> row_fate" where
  "row_fate_of C mx send p row =
     (if ob_attempt_count row \<ge> mx then Exhausted
      else case fst (publish_one C (send (ob_id row)) row (p, [])) of
        Inr _ \<Rightarrow> Sent
      | Inl e \<Rightarrow> if exc_isinstance e BrokerUnavailableError then Outage e
                 else if exc_isinstance e InfrastructureError then Broken e
                 else Unexpected e)"

definition row_messages ::
    "'w codec \<Rightarrow> int \<Rightarrow> (uuid \<Rightarrow> send_outcome) \<Rightarrow> producer \<Rightarrow> outbox_event \<Rightarrow> 'w wire_message list" where
  "row_messages C mx send p row =
     (if ob_attempt_count row \<ge> mx then [] else snd (snd (publish_one C (send (ob_id row)) row (p, []))))"

definition after_fate :: "row_fate \<Rightarrow> outbox_event \<Rightarrow> outbox_event" where
  "after_fate f row =
     (case f of
        Exhausted \<Rightarrow> row\<lparr>ob_failed := True, ob_last_error := Some ''max_attempts_exceeded''\<rparr>
      | Sent \<Rightarrow> row
      | Outage e \<Rightarrow> row\<lparr>ob_attempt_count := ob_attempt_count row + 1,
                         ob_last_error := Some (take 1024 (exc_text e))\<rparr>
      | Broken e \<Rightarrow> row\<lparr>ob_attempt_count := ob_attempt_count row + 1,
                         ob_last_error := Some (take 1024 (exc_text e)), ob_failed := True\<rparr>
      | Unexpected e \<Rightarrow> row\<lparr>ob_attempt_count := ob_attempt_count row + 1, ob_last_error :=
          Some (take 1024 (''unexpected: '' @ exc_type_name e @ '': '' @ exc_text e))\<rparr>)"

fun is_outage :: "row_fate \<Rightarrow> bool" where
  "is_outage (Outage e) = True"
| "is_outage _ = False"

fun is_unexpected :: "row_fate \<Rightarrow> bool" where
  "is_unexpected (Unexpected e) = True"
| "is_unexpected _ = False"

fun is_failure :: "row_fate \<Rightarrow> bool" where
  "is_failure (Broken e) = True"
| "is_failure (Unexpected e) = True"
| "is_failure _ = False"

fun is_poison :: "row_fate \<Rightarrow> bool" where
  "is_poison (Broken e) = True"
| "is_poison Exhausted = True"
| "is_poison _ = False"

lemma publish_log:
  "publish C oc env topic key hs (p, log) =
     (fst (publish C oc env topic key hs (p, [])),
      (p, log @ snd (snd (publish C oc env topic key hs (p, [])))))"
  by (cases oc) (simp_all add: publish_def Let_def)

lemma publish_one_log:
  "publish_one C oc row (p, log) =
     (fst (publish_one C oc row (p, [])), (p, log @ snd (snd (publish_one C oc row (p, [])))))"
proof (cases "cd_validate C (ob_payload row)")
  case (Inl e)
  then show ?thesis by (simp add: publish_one_def)
next
  case (Inr env)
  let ?pub = "publish C oc env (ob_topic row) (Some (aggregate_id env)) (outbox_headers row)"
  obtain r ms where r: "?pub (p, []) = (r, (p, ms))"
    using publish_producer [of C oc env "ob_topic row" "Some (aggregate_id env)" "outbox_headers row" p "[]"]
    by (metis prod.collapse)
  then have "?pub (p, log) = (r, (p, log @ ms))" using publish_log [of C oc env _ _ _ p log] by simp
  with r Inr show ?thesis by (cases r) (simp_all add: publish_one_def seq_def)
qed

text \<open>Publishing a batch never looks at the log.\<close>

lemma publish_rows_log:
  "publish_rows C mx send n rows a b c (p, log) =
     (fst (publish_rows C mx send n rows a b c (p, [])),
      (p, log @ snd (snd (publish_rows C mx send n rows a b c (p, [])))))"
proof (induction rows arbitrary: a b c log)
  case (Cons row rows)
  obtain r ms where one: "publish_one C (send (ob_id row)) row (p, []) = (r, (p, ms))"
    using publish_one_log [of C "send (ob_id row)" row p "[]"] by (metis append_Nil prod.collapse)
  have one': "publish_one C (send (ob_id row)) row (p, log') = (r, (p, log' @ ms))" for log'
    using publish_one_log [of C "send (ob_id row)" row p log'] one by simp
  note IH = Cons.IH [of _ _ _ "log @ ms"] Cons.IH [of _ _ _ ms] Cons.IH [of a b "c + 1" log]
  show ?case
  proof (cases "ob_attempt_count row \<ge> mx")
    case True
    then show ?thesis using IH(3) by (simp add: with_row_def)
  next
    case False
    show ?thesis
    proof (cases r)
      case (Inr u)
      have "publish_rows C mx send n (row # rows) a b c (p, log')
          = with_row row (publish_rows C mx send n rows (a + 1) b c (p, log' @ ms))" for log'
        using False one' [of log'] Inr by simp
      then show ?thesis using IH(1,2) by (simp add: with_row_def)
    next
      case (Inl e)
      show ?thesis using False one' [of log] one' [of "[]"] Inl IH(1,2)
        by (simp add: with_row_def Let_def)
    qed
  qed
qed simp

text \<open>What it writes into the rows leaves the event of each row alone.\<close>

definition row_event :: "outbox_event \<Rightarrow> uuid \<times> string \<times> json" where
  "row_event r = (ob_id r, ob_topic r, ob_payload r)"

lemma row_event_id: "map row_event xs = map row_event ys \<Longrightarrow> map ob_id xs = map ob_id ys"
  by (drule arg_cong [where f = "map fst"]) (simp add: row_event_def comp_def)

lemma publish_rows_events: "map row_event (bt_rows (fst (publish_rows C mx send n rows a b c pl))) = map row_event rows"
proof (induction rows arbitrary: a b c pl)
  case (Cons row rows)
  have ev: "row_event (row\<lparr>ob_attempt_count := n\<rparr>) = row_event row" "row_event (row\<lparr>ob_last_error := t\<rparr>) = row_event row"
    "row_event (row\<lparr>ob_failed := f\<rparr>) = row_event row" for row n t f
    by (simp_all add: row_event_def)
  obtain r pl' where "publish_one C (send (ob_id row)) row pl = (r, pl')" by (rule prod.exhaust)
  then show ?case
    by (cases r) (simp_all add: with_row_def Let_def Cons.IH ev)
qed simp

lemma mark_rows_events: "map row_event (mark_rows now published seen rows) = map row_event rows"
  by (induction rows arbitrary: seen) (simp_all add: row_event_def)

lemma mark_batch_events: "map row_event (mark_batch now published poison rows) = map row_event rows"
  by (simp add: mark_batch_def mark_rows_events)

lemma publish_rows_no_outage:
  assumes "\<forall>r\<in>set rows. \<not> is_outage (row_fate_of C mx send p r)"
  shows "publish_rows C mx send n rows a b c (p, log) =
    (\<lparr>bt_rows = map (\<lambda>r. after_fate (row_fate_of C mx send p r) r) rows,
      bt_published = a + int (length (filter (\<lambda>r. row_fate_of C mx send p r = Sent) rows)),
      bt_failed = b + int (length (filter (\<lambda>r. is_failure (row_fate_of C mx send p r)) rows)),
      bt_poison = c + int (length (filter (\<lambda>r. is_poison (row_fate_of C mx send p r)) rows)),
      bt_fail_fast = False\<rparr>,
     (p, log @ concat (map (row_messages C mx send p) rows)))"
  using assms
proof (induction rows arbitrary: a b c log)
  case Nil
  show ?case by simp
next
  case (Cons row rows)
  let ?f = "row_fate_of C mx send p row"
  have IH: "publish_rows C mx send n rows a b c (p, log') =
    (\<lparr>bt_rows = map (\<lambda>r. after_fate (row_fate_of C mx send p r) r) rows,
      bt_published = a + int (length (filter (\<lambda>r. row_fate_of C mx send p r = Sent) rows)),
      bt_failed = b + int (length (filter (\<lambda>r. is_failure (row_fate_of C mx send p r)) rows)),
      bt_poison = c + int (length (filter (\<lambda>r. is_poison (row_fate_of C mx send p r)) rows)),
      bt_fail_fast = False\<rparr>,
     (p, log' @ concat (map (row_messages C mx send p) rows)))" for a b c log'
    using Cons by simp
  show ?case
  proof (cases "ob_attempt_count row \<ge> mx")
    case True
    then have "?f = Exhausted" "row_messages C mx send p row = []"
      by (simp_all add: row_fate_of_def row_messages_def)
    with True show ?thesis by (simp add: IH with_row_def after_fate_def)
  next
    case False
    obtain r ms where one: "publish_one C (send (ob_id row)) row (p, []) = (r, (p, ms))"
      using publish_one_log [of C "send (ob_id row)" row p "[]"] by (metis append_Nil prod.collapse)
    have one': "publish_one C (send (ob_id row)) row (p, log) = (r, (p, log @ ms))"
      using publish_one_log [of C "send (ob_id row)" row p log] one by simp
    have ms: "row_messages C mx send p row = ms" using False one by (simp add: row_messages_def)
    have f: "?f = (case r of Inr _ \<Rightarrow> Sent
      | Inl e \<Rightarrow> if exc_isinstance e BrokerUnavailableError then Outage e
                 else if exc_isinstance e InfrastructureError then Broken e else Unexpected e)"
      using False one by (simp add: row_fate_of_def)
    show ?thesis
    proof (cases r)
      case (Inr u)
      then show ?thesis using False one' ms f by (simp add: IH with_row_def after_fate_def)
    next
      case (Inl e)
      then have "\<not> exc_isinstance e BrokerUnavailableError" using f Cons.prems by auto
      then show ?thesis using Inl False one' ms f
        by (auto simp: IH with_row_def after_fate_def Let_def)
    qed
  qed
qed

lemma publish_rows_split:
  assumes "\<forall>r\<in>set rows. \<not> is_outage (row_fate_of C mx send p r)" and "row_fate_of C mx send p row = Outage e"
  shows "\<exists>bt. publish_rows C mx send n (rows @ row # rest) a b c (p, log) =
    (bt, (p, log @ concat (map (row_messages C mx send p) (rows @ [row])))) \<and> bt_fail_fast bt"
  using assms(1)
proof (induction rows arbitrary: a b c log)
  case Nil
  obtain r ms where one: "publish_one C (send (ob_id row)) row (p, []) = (r, (p, ms))"
    using publish_one_log [of C "send (ob_id row)" row p "[]"] by (metis append_Nil prod.collapse)
  have one': "publish_one C (send (ob_id row)) row (p, log) = (r, (p, log @ ms))"
    using publish_one_log [of C "send (ob_id row)" row p log] one by simp
  have "\<not> ob_attempt_count row \<ge> mx" using assms(2) by (auto simp: row_fate_of_def)
  moreover from this have "r = Inl e \<and> exc_isinstance e BrokerUnavailableError"
    using assms(2) one by (auto simp: row_fate_of_def split: sum.splits if_splits)
  ultimately show ?case using one one' by (simp add: row_messages_def Let_def)
next
  case (Cons row' rows)
  obtain r ms where one: "publish_one C (send (ob_id row')) row' (p, []) = (r, (p, ms))"
    using publish_one_log [of C "send (ob_id row')" row' p "[]"] by (metis append_Nil prod.collapse)
  have one': "publish_one C (send (ob_id row')) row' (p, log) = (r, (p, log @ ms))"
    using publish_one_log [of C "send (ob_id row')" row' p log] one by simp
  have IH: "\<exists>bt. publish_rows C mx send n (rows @ row # rest) a b c (p, log') =
      (bt, (p, log' @ concat (map (row_messages C mx send p) (rows @ [row])))) \<and> bt_fail_fast bt"
    for a b c log' using Cons by simp
  show ?case
  proof (cases "ob_attempt_count row' \<ge> mx")
    case True
    then have "row_messages C mx send p row' = []" by (simp add: row_messages_def)
    with True IH [of a b "c + 1" log] show ?thesis by (auto simp: with_row_def)
  next
    case False
    then have ms: "row_messages C mx send p row' = ms" using one by (simp add: row_messages_def)
    have nb: "\<not> exc_isinstance e' BrokerUnavailableError" if "r = Inl e'" for e'
      using Cons.prems False one that by (auto simp: row_fate_of_def)
    show ?thesis
      using False one' ms nb IH [of "a + 1" b c "log @ ms"] IH [of a "b + 1" "c + 1" "log @ ms"]
        IH [of a "b + 1" c "log @ ms"]
      by (cases r) (auto simp: with_row_def Let_def)
  qed
qed

lemma publish_rows_fail_fast:
  assumes "\<exists>r\<in>set rows. is_outage (row_fate_of C mx send p r)"
  shows "\<exists>bt ms. publish_rows C mx send n rows a b c (p, log) = (bt, (p, log @ ms)) \<and> bt_fail_fast bt"
proof -
  from split_list_first_prop [OF assms] obtain xs row ys where "rows = xs @ row # ys" and "is_outage (row_fate_of C mx send p row)"
    and "\<forall>x\<in>set xs. \<not> is_outage (row_fate_of C mx send p x)"
    by blast
  moreover from this obtain e where "row_fate_of C mx send p row = Outage e"
    by (auto elim: is_outage.elims)
  ultimately show ?thesis using publish_rows_split [of xs C mx send p row e n ys a b c log] by blast
qed

section \<open>What the batch looks like after marking\<close>

text \<open>A driver that raises only its own errors never causes an unexpected one.\<close>

definition send_expected :: "send_outcome \<Rightarrow> bool" where
  "send_expected oc = (case oc of Ack n off \<Rightarrow> True | Refused e \<Rightarrow> is_kafka_error e | AckLost e \<Rightarrow> is_kafka_error e)"

lemma publish_error_infrastructure:
  "is_kafka_error e \<Longrightarrow> exc_isinstance (publish_error topic e) InfrastructureError"
  by (cases e) (simp_all add: is_kafka_error_def publish_error_def Let_def nimbus_error_def)

lemma publish_expected:
  assumes "send_expected oc" and "fst (publish C oc env topic key hs (p, [])) = Inl e"
  shows "exc_isinstance e InfrastructureError"
proof (cases "\<not> pr_started p \<or> \<not> pr_producer p")
  case True
  then show ?thesis using assms by (auto simp: publish_def Let_def nimbus_error_def)
next
  case False
  then show ?thesis using assms
    by (cases oc) (auto simp: publish_def Let_def send_expected_def publish_error_infrastructure)
qed

lemma fate_expected:
  assumes "send_expected (send (ob_id row))"
  shows "\<not> is_unexpected (row_fate_of C mx send p row)"
proof -
  have "exc_isinstance e InfrastructureError"
    if "fst (publish_one C (send (ob_id row)) row (p, [])) = Inl e" for e
  proof (cases "cd_validate C (ob_payload row)")
    case (Inl e')
    then show ?thesis using that by (auto simp: publish_one_def undeserializable_def nimbus_error_def)
  next
    case (Inr env)
    then have "fst (publish C (send (ob_id row)) env (ob_topic row) (Some (aggregate_id env))
        (outbox_headers row) (p, [])) = Inl e"
      using that by (auto simp: publish_one_def seq_def split: prod.splits sum.splits)
    then show ?thesis by (rule publish_expected [OF assms])
  qed
  then show ?thesis by (auto simp: row_fate_of_def split: sum.splits)
qed

definition marked :: "int \<Rightarrow> outbox_event \<Rightarrow> outbox_event" where
  "marked now row = row\<lparr>ob_processed := True, ob_processed_at := Some now\<rparr>"

lemma mark_rows_all:
  assumes "int (length (filter (\<lambda>r. \<not> ob_failed r) rows)) \<le> published - seen"
  shows "mark_rows now published seen rows = map (\<lambda>r. if ob_failed r then r else marked now r) rows"
  using assms by (induction rows arbitrary: seen) (auto simp: marked_def)

lemma mark_rows_prefix:
  assumes "\<forall>r\<in>set (xs @ ys). \<not> ob_failed r" and "published = seen + int (length xs)"
  shows "mark_rows now published seen (xs @ ys) = map (marked now) xs @ ys"
proof -
  have "mark_rows now n n ys = ys" if "\<forall>r\<in>set ys. \<not> ob_failed r" for n
    using that by (induction ys) auto
  then show ?thesis using assms
    by (induction xs arbitrary: seen) (auto simp: marked_def)
qed

definition settled :: "int \<Rightarrow> row_fate \<Rightarrow> outbox_event \<Rightarrow> outbox_event" where
  "settled now f row = (if f = Sent then marked now row else after_fate f row)"

lemma after_fate_failed:
  assumes "\<not> ob_failed row" and "\<not> is_outage f" and "\<not> is_unexpected f"
  shows "ob_failed (after_fate f row) \<longleftrightarrow> f \<noteq> Sent"
  using assms by (cases f) (auto simp: after_fate_def)

lemma after_fate_Sent [simp]: "after_fate Sent row = row"
  by (simp add: after_fate_def)

lemma after_fate_id [simp]: "ob_id (after_fate f row) = ob_id row"
  by (cases f) (simp_all add: after_fate_def)

lemma settled_id [simp]: "ob_id (settled now f row) = ob_id row"
  by (simp add: settled_def marked_def)

lemma mark_batch_exact:
  assumes "rows \<noteq> []" and "\<forall>r\<in>set rows. \<not> ob_failed r \<and> \<not> is_outage (F r) \<and> \<not> is_unexpected (F r)"
    and "pub = int (length (filter (\<lambda>r. F r = Sent) rows))"
    and "poi = int (length (filter (\<lambda>r. is_poison (F r)) rows))"
  shows "mark_batch now pub poi (map (\<lambda>r. after_fate (F r) r) rows) = map (\<lambda>r. settled now (F r) r) rows"
proof -
  have some: "F r = Sent \<or> is_poison (F r)" if "r \<in> set rows" for r
    using assms(2) that by (cases "F r") auto
  have "\<exists>r. r \<in> set rows" using assms(1) by (auto simp: neq_Nil_conv)
  then have "pub \<noteq> 0 \<or> poi \<noteq> 0"
    using some assms(3,4) by (auto simp: filter_empty_conv)
  moreover have "filter (\<lambda>r. \<not> ob_failed (after_fate (F r) r)) rows = filter (\<lambda>r. F r = Sent) rows"
    using assms(2) by (intro filter_cong) (auto simp: after_fate_failed)
  then have "mark_rows now pub 0 (map (\<lambda>r. after_fate (F r) r) rows)
      = map (\<lambda>r. if ob_failed r then r else marked now r) (map (\<lambda>r. after_fate (F r) r) rows)"
    using assms(3) by (intro mark_rows_all) (simp add: filter_map comp_def)
  ultimately have "mark_batch now pub poi (map (\<lambda>r. after_fate (F r) r) rows)
      = map (\<lambda>r. if ob_failed (after_fate (F r) r) then after_fate (F r) r else marked now (after_fate (F r) r)) rows"
    by (auto simp: mark_batch_def)
  also have "\<dots> = map (\<lambda>r. settled now (F r) r) rows"
    using assms(2) by (intro map_cong HOL.refl) (auto simp: after_fate_failed settled_def)
  finally show ?thesis .
qed

section \<open>The table\<close>

lemma claim_batch_subset: "r \<in> set (claim_batch cfg locked table) \<Longrightarrow>
    r \<in> set table \<and> claimable r \<and> ob_id r \<notin> set locked"
  using set_take_subset [of "batch_size cfg"] by (fastforce simp: claim_batch_def)

definition other_row :: "tick_io \<Rightarrow> outbox_event \<Rightarrow> outbox_event" where
  "other_row io r = (ti_others io r)\<lparr>ob_id := ob_id r\<rparr>"

lemma find_id_map:
  assumes "\<And>r. ob_id (f r) = ob_id r"
  shows "find (\<lambda>b. ob_id b = i) (map f rows) = map_option f (find (\<lambda>b. ob_id b = i) rows)"
  by (induction rows) (auto simp: assms)

lemma write_back_others:
  assumes "distinct (map ob_id table)" and "set rows \<subseteq> set table" and "\<And>r. ob_id (f r) = ob_id r"
    and "ob_id ` set rows \<inter> ob_id ` set (ti_new io) = {}"
  shows "write_back (map f rows) (others_during io rows table)
    = map (\<lambda>r. if r \<in> set rows then f r else other_row io r) table @ ti_new io"
proof -
  have inj: "inj_on ob_id (set table)" using assms(1) by (simp add: distinct_map)
  have mem: "ob_id r \<in> ob_id ` set rows \<longleftrightarrow> r \<in> set rows" if "r \<in> set table" for r
    using inj_on_image_mem_iff [OF inj that assms(2)] .
  have hit: "find (\<lambda>b. ob_id b = ob_id r) rows = Some r" if "r \<in> set rows" for r
  proof -
    from that have "find (\<lambda>b. ob_id b = ob_id r) rows \<noteq> None" by (auto simp: find_None_iff)
    then obtain b where b: "find (\<lambda>b. ob_id b = ob_id r) rows = Some b" by auto
    from find_SomeE [OF b] have "b = r"
      using inj that assms(2) by (auto dest: inj_onD)
    with b show ?thesis by simp
  qed
  have miss: "find (\<lambda>b. ob_id b = i) rows = None" if "i \<notin> ob_id ` set rows" for i
    using that by (auto simp: find_None_iff)
  have row: "(case find (\<lambda>b. ob_id b = ob_id x) (map f rows) of Some b \<Rightarrow> b | None \<Rightarrow> x)
      = (if r \<in> set rows then f r else other_row io r)"
    if "r \<in> set table" "x = (if ob_id r \<in> ob_id ` set rows then r else other_row io r)" for r x
    using that mem [of r] hit [of r] miss [of "ob_id r"]
    by (auto simp: find_id_map [OF assms(3)] other_row_def)
  have new: "(case find (\<lambda>b. ob_id b = ob_id x) (map f rows) of Some b \<Rightarrow> b | None \<Rightarrow> x) = x"
    if "x \<in> set (ti_new io)" for x
  proof -
    have "ob_id x \<notin> ob_id ` set rows" using assms(4) that by blast
    then show ?thesis using miss by (simp add: find_id_map [OF assms(3)])
  qed
  let ?g = "\<lambda>x. case find (\<lambda>b. ob_id b = ob_id x) (map f rows) of Some b \<Rightarrow> b | None \<Rightarrow> x"
  have "map ?g (map (\<lambda>r. if ob_id r \<in> ob_id ` set rows then r else other_row io r) table)
      = map (\<lambda>r. if r \<in> set rows then f r else other_row io r) table"
    unfolding map_map comp_def by (rule map_cong [OF HOL.refl row [OF _ HOL.refl]])
  moreover have "map ?g (ti_new io) = ti_new io" by (rule map_idI [OF new])
  ultimately show ?thesis
    unfolding write_back_def others_during_def other_row_def [symmetric] map_append by (rule arg_cong2)
qed

lemma find_nth:
  assumes "distinct (map ob_id t)" and "x \<in> set t"
  shows "find (\<lambda>y. ob_id y = ob_id x) t = Some x"
proof -
  have "find (\<lambda>y. ob_id y = ob_id x) t \<noteq> None" using assms(2) by (auto simp: find_None_iff)
  then obtain y where y: "find (\<lambda>y. ob_id y = ob_id x) t = Some y" by auto
  from find_SomeE [OF y] have "y = x" using assms by (auto simp: distinct_map dest: inj_onD)
  with y show ?thesis by simp
qed

lemma write_back_hit:
  assumes "distinct (map ob_id batch)" and "b \<in> set batch" and "ob_id b \<in> ob_id ` set table"
  shows "b \<in> set (write_back batch table)"
proof -
  from assms(3) obtain r where "r \<in> set table" "ob_id r = ob_id b" by auto
  with find_nth [OF assms(1,2)] show ?thesis
    unfolding write_back_def by (auto intro!: image_eqI [of _ _ r])
qed

lemma write_back_stays:
  assumes "r \<in> set table" and "ob_id r \<notin> ob_id ` set batch"
  shows "r \<in> set (write_back batch table)"
proof -
  have "find (\<lambda>b. ob_id b = ob_id r) batch = None" using assms(2) by (auto simp: find_None_iff image_iff)
  with assms(1) show ?thesis unfolding write_back_def by (auto intro!: image_eqI [of _ _ r])
qed

section \<open>What a tick can do\<close>

definition tick_rows :: "relay_settings \<Rightarrow> tick_io \<Rightarrow> 'w relay \<Rightarrow> outbox_event list" where
  "tick_rows cfg io s = claim_batch cfg (ti_locked io) (re_outbox s)"

definition tick_fate :: "'w codec \<Rightarrow> relay_settings \<Rightarrow> tick_io \<Rightarrow> 'w relay \<Rightarrow> outbox_event \<Rightarrow> row_fate" where
  "tick_fate C cfg io s = row_fate_of C (max_attempts cfg) (ti_send io) (re_producer s)"

definition tick_messages :: "'w codec \<Rightarrow> relay_settings \<Rightarrow> tick_io \<Rightarrow> 'w relay \<Rightarrow> 'w wire_message list" where
  "tick_messages C cfg io s =
     concat (map (row_messages C (max_attempts cfg) (ti_send io) (re_producer s)) (tick_rows cfg io s))"

text \<open>The counters of a batch that runs to its end.\<close>

definition tick_batch :: "'w codec \<Rightarrow> relay_settings \<Rightarrow> tick_io \<Rightarrow> 'w relay \<Rightarrow> batch_result" where
  "tick_batch C cfg io s =
     (let rows = tick_rows cfg io s; F = tick_fate C cfg io s in
      \<lparr>bt_rows = map (\<lambda>r. after_fate (F r) r) rows,
       bt_published = int (length (filter (\<lambda>r. F r = Sent) rows)),
       bt_failed = int (length (filter (\<lambda>r. is_failure (F r)) rows)),
       bt_poison = int (length (filter (\<lambda>r. is_poison (F r)) rows)),
       bt_fail_fast = False\<rparr>)"

lemma tick_rows_stats [simp]: "tick_rows cfg io (s\<lparr>re_stats := st\<rparr>) = tick_rows cfg io s"
  by (simp add: tick_rows_def)

lemma publish_batch_no_outage:
  assumes "\<forall>r\<in>set (tick_rows cfg io s). \<not> is_outage (tick_fate C cfg io s r)"
  shows "publish_batch C cfg (ti_send io) (tick_rows cfg io s) (re_producer s, re_log s)
    = (tick_batch C cfg io s, (re_producer s, re_log s @ tick_messages C cfg io s))"
  using assms
  by (simp add: publish_batch_def publish_rows_no_outage tick_fate_def tick_batch_def Let_def
      tick_messages_def)

lemma publish_batch_outage:
  assumes "\<exists>r\<in>set (tick_rows cfg io s). is_outage (tick_fate C cfg io s r)"
  shows "\<exists>bt ms. publish_batch C cfg (ti_send io) (tick_rows cfg io s) (re_producer s, re_log s)
    = (bt, (re_producer s, re_log s @ ms)) \<and> bt_fail_fast bt"
  using publish_rows_fail_fast [of "tick_rows cfg io s" C "max_attempts cfg" "ti_send io" "re_producer s"]
    assms by (simp add: publish_batch_def tick_fate_def)

text \<open>The four ways a tick can go.\<close>

lemma tick_cases:
  obtains (idle) "ti_claim_error io \<noteq> None \<or> tick_rows cfg io s = []"
      and "re_outbox (snd (tick C cfg io s)) = re_outbox s" and "re_log (snd (tick C cfg io s)) = re_log s"
      and "re_producer (snd (tick C cfg io s)) = re_producer s"
      and "\<And>n. fst (tick C cfg io s) = Inr n \<Longrightarrow> n = 0"
    | (outage) ms where "ti_claim_error io = None"
      and "\<exists>r\<in>set (tick_rows cfg io s). is_outage (tick_fate C cfg io s r)"
      and "re_outbox (snd (tick C cfg io s)) = others_during io (tick_rows cfg io s) (re_outbox s)"
      and "re_log (snd (tick C cfg io s)) = re_log s @ ms"
      and "re_producer (snd (tick C cfg io s)) = re_producer s" and "fst (tick C cfg io s) = Inr 0"
    | (rolled_back) "ti_claim_error io = None" and "tick_rows cfg io s \<noteq> []"
      and "\<forall>r\<in>set (tick_rows cfg io s). \<not> is_outage (tick_fate C cfg io s r)"
      and "ti_flush_error io \<noteq> None \<or> (\<exists>e. ti_commit io = CommitFailed e)"
      and "re_outbox (snd (tick C cfg io s)) = others_during io (tick_rows cfg io s) (re_outbox s)"
      and "re_log (snd (tick C cfg io s)) = re_log s @ tick_messages C cfg io s"
      and "re_producer (snd (tick C cfg io s)) = re_producer s"
      and "\<And>n. fst (tick C cfg io s) = Inr n \<Longrightarrow> n = 0"
    | (written) "ti_claim_error io = None" and "tick_rows cfg io s \<noteq> []"
      and "\<forall>r\<in>set (tick_rows cfg io s). \<not> is_outage (tick_fate C cfg io s r)"
      and "re_outbox (snd (tick C cfg io s)) = write_back
             (mark_batch (ti_now io) (bt_published (tick_batch C cfg io s)) (bt_poison (tick_batch C cfg io s))
                (bt_rows (tick_batch C cfg io s)))
             (others_during io (tick_rows cfg io s) (re_outbox s))"
      and "re_log (snd (tick C cfg io s)) = re_log s @ tick_messages C cfg io s"
      and "re_producer (snd (tick C cfg io s)) = re_producer s"
      and "ti_commit io = Committed \<Longrightarrow> fst (tick C cfg io s) = Inr (bt_published (tick_batch C cfg io s))"
proof (cases "ti_claim_error io \<noteq> None \<or> tick_rows cfg io s = []")
  case True
  then show thesis by (intro idle) (auto simp: tick_def Let_def tick_rows_def split: option.splits if_splits)
next
  case False
  then have go: "ti_claim_error io = None" "tick_rows cfg io s \<noteq> []" by simp_all
  show thesis
  proof (cases "\<exists>r\<in>set (tick_rows cfg io s). is_outage (tick_fate C cfg io s r)")
    case True
    from publish_batch_outage [OF this] obtain bt ms where
      "publish_batch C cfg (ti_send io) (tick_rows cfg io s) (re_producer s, re_log s)
        = (bt, (re_producer s, re_log s @ ms))" "bt_fail_fast bt" by blast
    with True go show thesis
      by (intro outage [of ms]) (simp_all add: tick_def Let_def tick_rows_def)
  next
    case no: False
    then have no: "\<forall>r\<in>set (tick_rows cfg io s). \<not> is_outage (tick_fate C cfg io s r)" by simp
    note pb = publish_batch_no_outage [OF no]
    have ff: "\<not> bt_fail_fast (tick_batch C cfg io s)" by (simp add: tick_batch_def Let_def)
    let ?err = "if bt_published (tick_batch C cfg io s) \<noteq> 0 \<or> bt_poison (tick_batch C cfg io s) \<noteq> 0
      then ti_flush_error io else None"
    note defs = tick_def Let_def tick_rows_def [symmetric]
    show thesis
    proof (cases ?err)
      case (Some e)
      then have "ti_flush_error io \<noteq> None" by (simp split: if_splits)
      then show thesis using go no pb ff Some by (intro rolled_back) (simp_all add: defs)
    next
      case None
      show thesis
      proof (cases "ti_commit io")
        case (CommitFailed e)
        then show thesis using go no pb ff None
          by (intro rolled_back) (simp_all add: defs split: if_splits)
      next
        case Committed
        then show thesis using go no pb ff None by (intro written) (simp_all add: defs)
      next
        case (CommitUnconfirmed e)
        then show thesis using go no pb ff None by (intro written) (simp_all add: defs)
      qed
    qed
  qed
qed

lemma tick_rows_facts:
  "r \<in> set (tick_rows cfg io s) \<Longrightarrow>
     r \<in> set (re_outbox s) \<and> \<not> ob_processed r \<and> \<not> ob_failed r \<and> ob_id r \<notin> set (ti_locked io)"
  using claim_batch_subset by (fastforce simp: tick_rows_def claimable_def)

text \<open>The table after a batch that was written and met no unexpected error.\<close>

lemma written_table:
  assumes "tick_rows cfg io s \<noteq> []" and "distinct (map ob_id (re_outbox s))"
    and "ob_id ` set (re_outbox s) \<inter> ob_id ` set (ti_new io) = {}"
    and "\<forall>r\<in>set (tick_rows cfg io s). \<not> is_outage (tick_fate C cfg io s r) \<and> \<not> is_unexpected (tick_fate C cfg io s r)"
  shows "write_back (mark_batch (ti_now io) (bt_published (tick_batch C cfg io s))
             (bt_poison (tick_batch C cfg io s)) (bt_rows (tick_batch C cfg io s)))
           (others_during io (tick_rows cfg io s) (re_outbox s))
    = map (\<lambda>r. if r \<in> set (tick_rows cfg io s) then settled (ti_now io) (tick_fate C cfg io s r) r
               else other_row io r) (re_outbox s) @ ti_new io"
proof -
  let ?rows = "tick_rows cfg io s" and ?F = "tick_fate C cfg io s"
  have "mark_batch (ti_now io) (bt_published (tick_batch C cfg io s)) (bt_poison (tick_batch C cfg io s))
      (bt_rows (tick_batch C cfg io s)) = map (\<lambda>r. settled (ti_now io) (?F r) r) ?rows"
    using mark_batch_exact [OF assms(1), of ?F] assms(4) tick_rows_facts
    by (fastforce simp: tick_batch_def Let_def)
  moreover have sub: "set ?rows \<subseteq> set (re_outbox s)" using tick_rows_facts by blast
  moreover have "ob_id ` set ?rows \<inter> ob_id ` set (ti_new io) = {}"
    using sub assms(3) by blast
  ultimately show ?thesis by (simp add: write_back_others [OF assms(2)])
qed

section \<open>Refused rows, and whose a message is\<close>

lemma broker_is_infrastructure: "exc_isinstance e BrokerUnavailableError \<Longrightarrow> exc_isinstance e InfrastructureError"
proof (cases e)
  case (Nimbus c m d)
  then show "exc_isinstance e BrokerUnavailableError \<Longrightarrow> exc_isinstance e InfrastructureError"
    by (cases c) (simp_all add: exc_isinstance_def is_subclass.simps)
qed (simp_all add: exc_isinstance_def)

lemma refused_row:
  assumes "send (ob_id r) = Refused e" and "\<not> is_kafka_error e" and "\<not> exc_isinstance e InfrastructureError"
    and "ob_attempt_count r < mx" and "\<not> isl (cd_validate C (ob_payload r))" and "pr_started p" and "pr_producer p"
  shows "row_fate_of C mx send p r = Unexpected e \<and> row_messages C mx send p r = []"
proof -
  have same: "publish_error topic e = e" for topic
    using assms(2) by (cases e) (simp_all add: publish_error_def is_kafka_error_def Let_def)
  have "\<not> exc_isinstance e BrokerUnavailableError"
    using assms(3) broker_is_infrastructure by blast
  then show ?thesis using assms
    by (cases "cd_validate C (ob_payload r)")
      (auto simp: row_fate_of_def row_messages_def publish_one_def seq_def publish_def Let_def same)
qed

lemma row_message_id:
  assumes "m \<in> set (row_messages C mx send p r)"
  shows "map_of (wm_headers m) ''outbox_id'' = Some (str_uuid (ob_id r))"
  using assms
  by (auto simp: row_messages_def publish_one_def publish_def seq_def Let_def wire_headers_def outbox_headers_def
      split: sum.splits send_outcome.splits if_splits)

lemma tick_rows_distinct: "distinct (map ob_id (re_outbox s)) \<Longrightarrow> distinct (map ob_id (tick_rows cfg io s))"
  by (simp add: tick_rows_def claim_batch_def take_map [symmetric] distinct_map inj_on_def)

section \<open>No event is lost\<close>

text \<open>The message that carries the event of a row is in the broker's log.\<close>

definition logged :: "'w codec \<Rightarrow> 'w wire_message list \<Rightarrow> outbox_event \<Rightarrow> bool" where
  "logged C log r \<longleftrightarrow> (case cd_validate C (ob_payload r) of
     Inl _ \<Rightarrow> False
   | Inr env \<Rightarrow> \<exists>m\<in>set log. wm_topic m = ob_topic r \<and> wm_value m = cd_to_bytes C env
                  \<and> wm_key m = aggregate_id env)"

lemma logged_mono: "logged C log r \<Longrightarrow> logged C (log @ ms) r"
  by (auto simp: logged_def split: sum.splits)

lemma logged_cong:
  "ob_payload r = ob_payload r' \<Longrightarrow> ob_topic r = ob_topic r' \<Longrightarrow> logged C log r = logged C log r'"
  by (simp add: logged_def split: sum.splits)

lemma Sent_logged:
  assumes "row_fate_of C mx send p r = Sent"
  shows "logged C (row_messages C mx send p r) r"
proof -
  have le: "\<not> ob_attempt_count r \<ge> mx" using assms by (auto simp: row_fate_of_def)
  obtain u where one: "fst (publish_one C (send (ob_id r)) r (p, [])) = Inr u"
    using assms le by (auto simp: row_fate_of_def split: sum.splits if_splits)
  then obtain env where env: "cd_validate C (ob_payload r) = Inr env"
    by (auto simp: publish_one_def split: sum.splits)
  with one have "\<exists>m. snd (snd (publish_one C (send (ob_id r)) r (p, []))) = [m]
      \<and> wm_topic m = ob_topic r \<and> wm_value m = cd_to_bytes C env \<and> wm_key m = aggregate_id env"
    by (auto simp: publish_one_def publish_def Let_def seq_def effective_key_def
        split: send_outcome.splits if_splits)
  with le env show ?thesis by (auto simp: logged_def row_messages_def)
qed

definition relay_inv :: "'w codec \<Rightarrow> 'w relay \<Rightarrow> bool" where
  "relay_inv C s \<longleftrightarrow> distinct (map ob_id (re_outbox s)) \<and>
     (\<forall>r\<in>set (re_outbox s). ob_processed r \<longrightarrow> logged C (re_log s) r)"

text \<open>
  What is assumed of the surroundings of a tick: the Kafka driver raises its own errors only, other
  transactions insert rows with fresh identifiers, and whoever marks a row processed (another
  relay) has published it.
\<close>

definition tick_fair :: "'w codec \<Rightarrow> tick_io \<Rightarrow> 'w relay \<Rightarrow> bool" where
  "tick_fair C io s \<longleftrightarrow>
     (\<forall>r\<in>set (re_outbox s). send_expected (ti_send io (ob_id r))) \<and>
     distinct (map ob_id (ti_new io)) \<and> ob_id ` set (re_outbox s) \<inter> ob_id ` set (ti_new io) = {} \<and>
     (\<forall>r\<in>set (re_outbox s). ob_processed (other_row io r) \<longrightarrow> logged C (re_log s) (other_row io r)) \<and>
     (\<forall>r\<in>set (ti_new io). ob_processed r \<longrightarrow> logged C (re_log s) r)"

inductive relay_reach :: "'w codec \<Rightarrow> relay_settings \<Rightarrow> 'w relay \<Rightarrow> 'w relay \<Rightarrow> bool"
  for C :: "'w codec" and cfg :: relay_settings and s0 :: "'w relay" where
  start: "relay_reach C cfg s0 s0"
| step: "relay_reach C cfg s0 s \<Longrightarrow> tick_fair C io s \<Longrightarrow> relay_reach C cfg s0 (snd (tick C cfg io s))"

lemma others_during_rows:
  assumes "r \<in> set (others_during io rows table)"
  shows "r \<in> set (ti_new io) \<or> (\<exists>x\<in>set table. r = x \<or> r = other_row io x)"
  using assms by (auto simp: others_during_def other_row_def)

lemma others_during_ids: "map ob_id (others_during io rows table) = map ob_id table @ map ob_id (ti_new io)"
  by (simp add: others_during_def comp_def)

lemma tick_inv:
  assumes inv: "relay_inv C s" and fair: "tick_fair C io s"
  shows "relay_inv C (snd (tick C cfg io s))"
proof -
  let ?rows = "tick_rows cfg io s" and ?s' = "snd (tick C cfg io s)"
  have ids: "distinct (map ob_id (re_outbox s) @ map ob_id (ti_new io))"
    using inv fair by (auto simp: relay_inv_def tick_fair_def)
  have kept: "logged C (re_log s) r" if "r \<in> set (others_during io ?rows (re_outbox s))" "ob_processed r" for r
    using others_during_rows [OF that(1)] that(2) inv fair by (auto simp: relay_inv_def tick_fair_def)
  have undone: "relay_inv C ?s'"
    if "re_outbox ?s' = others_during io ?rows (re_outbox s)" "re_log ?s' = re_log s @ ms" for ms
    using that ids kept by (auto simp: relay_inv_def others_during_ids intro: logged_mono)
  show ?thesis
  proof (cases rule: tick_cases [of io cfg s C])
    case idle
    then show ?thesis using inv by (simp add: relay_inv_def)
  next
    case (outage ms)
    then show ?thesis using undone by blast
  next
    case rolled_back
    then show ?thesis using undone by blast
  next
    case written
    have un: "\<not> is_unexpected (tick_fate C cfg io s r)" if "r \<in> set ?rows" for r
      unfolding tick_fate_def
      by (rule fate_expected) (use tick_rows_facts [OF that] fair in \<open>simp add: tick_fair_def\<close>)
    have table: "re_outbox ?s' = map (\<lambda>r. if r \<in> set ?rows then settled (ti_now io) (tick_fate C cfg io s r) r
        else other_row io r) (re_outbox s) @ ti_new io"
      using written(2-4) un inv fair by (simp add: written_table relay_inv_def tick_fair_def)
    have "map ob_id (re_outbox ?s') = map ob_id (re_outbox s) @ map ob_id (ti_new io)"
      by (simp add: table comp_def other_row_def if_distrib cong: if_cong)
    moreover have "logged C (re_log ?s') x" if x: "x \<in> set (re_outbox ?s')" "ob_processed x" for x
    proof -
      consider (mine) r where "r \<in> set ?rows" "x = settled (ti_now io) (tick_fate C cfg io s r) r"
        | (theirs) r where "r \<in> set (re_outbox s)" "x = other_row io r" | (new) "x \<in> set (ti_new io)"
        using x(1) table by (auto split: if_splits)
      then show ?thesis
      proof cases
        case mine
        have "tick_fate C cfg io s r = Sent"
          using x(2) mine tick_rows_facts [OF mine(1)]
          by (cases "tick_fate C cfg io s r") (auto simp: settled_def after_fate_def)
        then have "logged C (row_messages C (max_attempts cfg) (ti_send io) (re_producer s) r) x"
          using Sent_logged mine(2) by (fastforce simp: tick_fate_def settled_def marked_def
              intro: logged_cong [THEN iffD1, rotated 2])
        then show ?thesis
          using mine(1) written(5) by (auto simp: logged_def tick_messages_def split: sum.splits)
      next
        case theirs
        then show ?thesis using x(2) fair written(5) by (auto simp: tick_fair_def intro: logged_mono)
      next
        case new
        then show ?thesis using x(2) fair written(5) by (auto simp: tick_fair_def intro: logged_mono)
      qed
    qed
    ultimately show ?thesis using ids by (simp add: relay_inv_def)
  qed
qed

lemma relay_reach_inv: "relay_reach C cfg s0 s \<Longrightarrow> relay_inv C s0 \<Longrightarrow> relay_inv C s"
  by (induction rule: relay_reach.induct) (auto intro: tick_inv)

section \<open>Properties\<close>

text \<open>
  No event is lost. Start with a table in which every processed row has its message in the
  broker's log (for instance nothing is processed yet). However many ticks run, with broker
  outages, rejected messages, lost acknowledgements, failed or unconfirmed commits and other
  transactions working on the table, as long as the Kafka driver raises only Kafka errors, every
  row that is marked processed has its message in the log, with its topic, value and key.
\<close>

theorem no_event_lost:
  assumes "relay_reach C cfg s0 s" and "relay_inv C s0"
    and "r \<in> set (re_outbox s)" and "ob_processed r"
  shows "logged C (re_log s) r"
  using relay_reach_inv [OF assms(1,2)] assms(3,4) by (simp add: relay_inv_def)

definition demo_envelope :: "uuid \<Rightarrow> event_envelope" where
  "demo_envelope i = \<lparr>event_id = i, event_type = ''payments.payment_captured'', schema_version = 1,
     aggregate_type = ''Payment'', aggregate_id = ''p'', correlation_id = None, causation_id = None,
     occurred_at = ''t'', payload = JDict []\<rparr>"

definition demo_row :: "uuid \<Rightarrow> int \<Rightarrow> outbox_event" where
  "demo_row i at = new_outbox_event at i ''Payment'' ''p'' ''payments.payment_captured'' ''payments.events''
     (json_dump_envelope (demo_envelope i)) ''d''"

definition demo_relay :: "outbox_event list \<Rightarrow> json relay" where
  "demo_relay rows = \<lparr>re_outbox = rows,
     re_producer = \<lparr>pr_started = True, pr_producer = True, pr_bootstrap_servers = []\<rparr>,
     re_log = [], re_stats = new_stats\<rparr>"

definition demo_tick :: "(uuid \<Rightarrow> send_outcome) \<Rightarrow> tick_io" where
  "demo_tick send = \<lparr>ti_claim_error = None, ti_locked = [], ti_send = send, ti_others = (\<lambda>r. r),
     ti_new = [], ti_flush_error = None, ti_commit = Committed, ti_now = 99\<rparr>"

definition demo_cfg :: relay_settings where
  "demo_cfg = \<lparr>batch_size = 10, max_attempts = 5\<rparr>"

lemma demo_simps [simp]:
  "ti_claim_error (demo_tick send) = None" "ti_locked (demo_tick send) = []" "ti_send (demo_tick send) = send"
  "ti_new (demo_tick send) = []" "ti_flush_error (demo_tick send) = None"
  "ti_commit (demo_tick send) = Committed" "other_row (demo_tick send) r = r"
  "re_outbox (demo_relay rows) = rows" "re_log (demo_relay rows) = []"
  "ob_id (demo_row i at) = i" "\<not> ob_processed (demo_row i at)" "\<not> ob_failed (demo_row i at)"
  by (simp_all add: demo_tick_def demo_relay_def demo_row_def new_outbox_event_def other_row_def)

theorem no_event_lost_witness:
  "length (filter ob_processed (re_outbox (snd (tick json_codec demo_cfg (demo_tick (\<lambda>i. Ack 0 0))
      (demo_relay [demo_row 1 5, demo_row 2 3]))))) = 2
   \<and> list_all (logged json_codec (re_log (snd (tick json_codec demo_cfg (demo_tick (\<lambda>i. Ack 0 0))
        (demo_relay [demo_row 1 5, demo_row 2 3])))))
      (filter ob_processed (re_outbox (snd (tick json_codec demo_cfg (demo_tick (\<lambda>i. Ack 0 0))
        (demo_relay [demo_row 1 5, demo_row 2 3])))))"
proof -
  let ?s = "demo_relay [demo_row 1 5, demo_row 2 3]" and ?io = "demo_tick (\<lambda>i. Ack 0 0)"
  have inv: "relay_inv json_codec ?s"
    by (simp add: relay_inv_def demo_relay_def demo_row_def new_outbox_event_def)
  have "tick_fair json_codec ?io ?s"
    by (simp add: tick_fair_def demo_tick_def demo_relay_def demo_row_def new_outbox_event_def
        send_expected_def other_row_def)
  then have "relay_reach json_codec demo_cfg ?s (snd (tick json_codec demo_cfg ?io ?s))"
    by (intro relay_reach.intros)
  note safe = no_event_lost [OF this inv]
  have "length (filter ob_processed (re_outbox (snd (tick json_codec demo_cfg ?io ?s)))) = 2"
    by code_simp
  with safe show ?thesis by (auto simp: list_all_iff)
qed

text \<open>
  A tick marks exactly what it sent. If a tick claims a batch, meets no broker outage and commits,
  and the Kafka driver raises only Kafka errors, then it returns the number of acknowledged rows;
  a claimed row is processed afterwards exactly if its send was acknowledged, and failed exactly if
  it was out of attempts or rejected; all other rows are as the other transactions left them.
\<close>

theorem tick_marks_what_was_sent:
  assumes "ti_claim_error io = None" and "tick_rows cfg io s \<noteq> []"
    and "distinct (map ob_id (re_outbox s))"
    and "ob_id ` set (re_outbox s) \<inter> ob_id ` set (ti_new io) = {}"
    and "\<forall>r\<in>set (tick_rows cfg io s). send_expected (ti_send io (ob_id r))
           \<and> \<not> is_outage (tick_fate C cfg io s r)"
    and "ti_flush_error io = None" and "ti_commit io = Committed"
  shows "fst (tick C cfg io s)
      = Inr (int (length (filter (\<lambda>r. tick_fate C cfg io s r = Sent) (tick_rows cfg io s))))
    \<and> re_outbox (snd (tick C cfg io s)) = map (\<lambda>r.
        if r \<in> set (tick_rows cfg io s) then settled (ti_now io) (tick_fate C cfg io s r) r
        else other_row io r) (re_outbox s) @ ti_new io
    \<and> (\<forall>r\<in>set (tick_rows cfg io s).
        (ob_processed (settled (ti_now io) (tick_fate C cfg io s r) r) \<longleftrightarrow> tick_fate C cfg io s r = Sent)
        \<and> (ob_failed (settled (ti_now io) (tick_fate C cfg io s r) r) \<longleftrightarrow> tick_fate C cfg io s r \<noteq> Sent))"
proof -
  have un: "\<not> is_unexpected (tick_fate C cfg io s r)" if "r \<in> set (tick_rows cfg io s)" for r
    unfolding tick_fate_def by (rule fate_expected) (use that assms(5) in simp)
  have each: "(ob_processed (settled (ti_now io) (tick_fate C cfg io s r) r) \<longleftrightarrow> tick_fate C cfg io s r = Sent)
      \<and> (ob_failed (settled (ti_now io) (tick_fate C cfg io s r) r) \<longleftrightarrow> tick_fate C cfg io s r \<noteq> Sent)"
    if r: "r \<in> set (tick_rows cfg io s)" for r
    using un [OF r] assms(5) r tick_rows_facts [OF r]
    by (cases "tick_fate C cfg io s r") (auto simp: settled_def marked_def after_fate_def)
  show ?thesis
  proof (cases rule: tick_cases [of io cfg s C])
    case written
    then show ?thesis using each un assms(2-5,7)
      by (simp add: written_table) (simp add: tick_batch_def Let_def)
  qed (use assms in auto)
qed

theorem tick_marks_what_was_sent_witness:
  "fst (tick json_codec demo_cfg (demo_tick (\<lambda>i. if i = 2 then Refused (KafkaError ''x'') else Ack 0 0))
     (demo_relay [demo_row 1 5, demo_row 2 3])) = Inr 1"
proof -
  let ?s = "demo_relay [demo_row 1 5, demo_row 2 3]"
    and ?io = "demo_tick (\<lambda>i. if i = 2 then Refused (KafkaError ''x'') else Ack 0 0)"
  have rows: "tick_rows demo_cfg ?io ?s = [demo_row 2 3, demo_row 1 5]" by code_simp
  have fates: "tick_fate json_codec demo_cfg ?io ?s (demo_row 1 5) = Sent"
    "\<not> is_outage (tick_fate json_codec demo_cfg ?io ?s (demo_row 2 3))"
    "tick_fate json_codec demo_cfg ?io ?s (demo_row 2 3) \<noteq> Sent" by code_simp+
  show ?thesis
    using tick_marks_what_was_sent [of ?io demo_cfg ?s json_codec] fates
    by (simp add: rows send_expected_def is_kafka_error_def)
qed

text \<open>
  An outage leaves the batch as it was. If publishing any row of the batch fails because the
  broker is unavailable, the tick returns 0 and every claimed row is in the table exactly as
  before, its attempt counter included, whatever had already been sent; it will be claimed again.
\<close>

theorem outage_keeps_batch:
  assumes "ti_claim_error io = None"
    and "\<exists>r\<in>set (tick_rows cfg io s). is_outage (tick_fate C cfg io s r)"
  shows "fst (tick C cfg io s) = Inr 0
    \<and> (\<forall>r\<in>set (tick_rows cfg io s). r \<in> set (re_outbox (snd (tick C cfg io s))) \<and> claimable r)
    \<and> (\<exists>ms. re_log (snd (tick C cfg io s)) = re_log s @ ms)"
proof (cases rule: tick_cases [of io cfg s C])
  case (outage ms)
  have "r \<in> set (re_outbox (snd (tick C cfg io s))) \<and> claimable r" if "r \<in> set (tick_rows cfg io s)" for r
    using outage(3) tick_rows_facts [OF that] that
    by (auto simp: others_during_def claimable_def image_iff intro!: bexI [of _ r])
  then show ?thesis using outage by blast
qed (use assms in auto)

theorem outage_keeps_batch_witness:
  "fst (tick json_codec demo_cfg (demo_tick (\<lambda>i. if i = 2 then Ack 0 0 else Refused (KafkaTimeoutError ''x'')))
     (demo_relay [demo_row 1 5, demo_row 2 3])) = Inr 0"
proof -
  let ?s = "demo_relay [demo_row 1 5, demo_row 2 3]"
    and ?io = "demo_tick (\<lambda>i. if i = 2 then Ack 0 0 else Refused (KafkaTimeoutError ''x''))"
  have "tick_rows demo_cfg ?io ?s = [demo_row 2 3, demo_row 1 5]" by code_simp
  moreover have "is_outage (tick_fate json_codec demo_cfg ?io ?s (demo_row 1 5))" by code_simp
  ultimately show ?thesis using outage_keeps_batch [of ?io demo_cfg ?s json_codec] by simp
qed

text \<open>
  What a claim returns: rows that are neither processed nor failed nor locked by another relay,
  at most a batch of them, oldest first, and no eligible row is left out in favour of a newer one.
  In particular a row that has been marked failed is never published again, and two relays that
  work at the same time never hold the same row.
\<close>

theorem claim_batch_oldest_first:
  assumes "rows = claim_batch cfg locked table"
  shows "length rows \<le> batch_size cfg \<and> sorted (map ob_created_at rows)
    \<and> (\<forall>r\<in>set rows. r \<in> set table \<and> \<not> ob_processed r \<and> \<not> ob_failed r \<and> ob_id r \<notin> set locked)
    \<and> (\<forall>r\<in>set table. claimable r \<and> ob_id r \<notin> set locked \<and> r \<notin> set rows \<longrightarrow>
         length rows = batch_size cfg \<and> (\<forall>x\<in>set rows. ob_created_at x \<le> ob_created_at r))
    \<and> ob_id ` set rows \<inter> ob_id ` set (claim_batch cfg' (map ob_id rows @ locked') table) = {}"
proof -
  let ?elig = "sort_key ob_created_at (filter (\<lambda>r. claimable r \<and> ob_id r \<notin> set locked) table)"
  have rows: "rows = take (batch_size cfg) ?elig" using assms by (simp add: claim_batch_def)
  have srt: "sorted (map ob_created_at rows)" unfolding rows take_map [symmetric]
    by (simp add: sorted_wrt_take)
  have left: "length rows = batch_size cfg \<and> (\<forall>x\<in>set rows. ob_created_at x \<le> ob_created_at r)"
    if "r \<in> set table" "claimable r" "ob_id r \<notin> set locked" "r \<notin> set rows" for r
  proof -
    have "r \<in> set ?elig" using that by simp
    moreover have "set ?elig = set rows \<union> set (drop (batch_size cfg) ?elig)"
      unfolding rows set_append [symmetric] append_take_drop_id ..
    ultimately have dr: "r \<in> set (drop (batch_size cfg) ?elig)" using that(4) by blast
    have "sorted (map ob_created_at (rows @ drop (batch_size cfg) ?elig))" unfolding rows by simp
    then have "\<forall>x\<in>set rows. ob_created_at x \<le> ob_created_at r" using dr by (auto simp: sorted_append)
    moreover have "length rows = batch_size cfg"
    proof (rule ccontr)
      assume "length rows \<noteq> batch_size cfg"
      then have "drop (batch_size cfg) ?elig = []" unfolding rows by simp
      with dr show False by simp
    qed
    ultimately show ?thesis by simp
  qed
  have dis: "ob_id ` set rows \<inter> ob_id ` set (claim_batch cfg' (map ob_id rows @ locked') table) = {}"
  proof (rule equals0I)
    fix i
    assume i: "i \<in> ob_id ` set rows \<inter> ob_id ` set (claim_batch cfg' (map ob_id rows @ locked') table)"
    then obtain x where "x \<in> set (claim_batch cfg' (map ob_id rows @ locked') table)" and "i = ob_id x"
      by (elim IntE imageE)
    with claim_batch_subset [OF this(1)] i show False by simp
  qed
  have mem: "\<forall>r\<in>set rows. r \<in> set table \<and> \<not> ob_processed r \<and> \<not> ob_failed r \<and> ob_id r \<notin> set locked"
    using claim_batch_subset assms by (auto simp: claimable_def)
  have "length rows \<le> batch_size cfg" unfolding rows by simp
  then show ?thesis using srt dis mem by (intro conjI ballI impI) (simp_all add: left)
qed

theorem claim_batch_oldest_first_witness:
  "map ob_id (claim_batch \<lparr>batch_size = 2, max_attempts = 5\<rparr> [] [demo_row 1 5, demo_row 2 3, demo_row 3 4]) = [2, 3]
   \<and> sorted (map ob_created_at (claim_batch \<lparr>batch_size = 2, max_attempts = 5\<rparr> []
       [demo_row 1 5, demo_row 2 3, demo_row 3 4]))"
proof -
  have "map ob_id (claim_batch \<lparr>batch_size = 2, max_attempts = 5\<rparr> [] [demo_row 1 5, demo_row 2 3, demo_row 3 4]) = [2, 3]"
    by code_simp
  then show ?thesis using claim_batch_oldest_first [OF HOL.refl] by blast
qed

text \<open>
  C33: An unexpected error in a batch makes the relay mark the wrong rows. Let a tick claim a batch in
  which the driver refuses the send of one row with an error that is neither one of Kafka's nor a Nimbus
  infrastructure error, all other rows are sent, the refused row is not the last one, and the commit
  succeeds. Then the refused row is marked processed although no message carries its identifier, and the
  last row stays unprocessed although the broker has its message: \<open>_mark_published\<close> counts the rows that
  were sent, and does not know which ones they were.
\<close>

theorem unexpected_error_marks_wrong_row:
  assumes "ti_claim_error io = None" and "tick_rows cfg io s = xs @ r # ys @ [z]"
    and "ti_send io (ob_id r) = Refused e" and "\<not> is_kafka_error e" and "\<not> exc_isinstance e InfrastructureError"
    and "ob_attempt_count r < max_attempts cfg" and "\<not> isl (cd_validate C (ob_payload r))"
    and "pr_started (re_producer s)" and "pr_producer (re_producer s)"
    and "\<forall>x\<in>set (xs @ ys @ [z]). tick_fate C cfg io s x = Sent"
    and "ti_flush_error io = None" and "ti_commit io = Committed" and "distinct (map ob_id (re_outbox s))"
  shows "\<exists>ms. re_log (snd (tick C cfg io s)) = re_log s @ ms
    \<and> (\<forall>m\<in>set ms. map_of (wm_headers m) ''outbox_id'' \<noteq> Some (str_uuid (ob_id r)))
    \<and> (\<exists>r'\<in>set (re_outbox (snd (tick C cfg io s))). ob_id r' = ob_id r \<and> ob_processed r')
    \<and> logged C ms z \<and> z \<in> set (re_outbox (snd (tick C cfg io s))) \<and> \<not> ob_processed z"
proof -
  let ?rows = "tick_rows cfg io s" and ?F = "tick_fate C cfg io s"
  note refused = refused_row [of "ti_send io", OF assms(3-9)]
  have un: "?F r = Unexpected e" and no: "row_messages C (max_attempts cfg) (ti_send io) (re_producer s) r = []"
    using refused by (simp_all add: tick_fate_def)
  have ids: "distinct (map ob_id (xs @ r # ys @ [z]))"
    using tick_rows_distinct [OF assms(13), of cfg io] assms(2) by simp
  have facts: "x \<in> set (re_outbox s) \<and> \<not> ob_failed x \<and> \<not> ob_processed x" if "x \<in> set ?rows" for x
    using tick_rows_facts [OF that] by simp
  have ok: "\<forall>x\<in>set ?rows. \<not> is_outage (?F x)" using un assms(2,10) by auto
  let ?xs = "map (\<lambda>x. after_fate (?F x) x) (xs @ r # ys)"
  have bt: "bt_rows (tick_batch C cfg io s) = ?xs @ [z]"
    and counts: "bt_published (tick_batch C cfg io s) = int (length ?xs)"
    using un assms(2,10) by (auto simp: tick_batch_def Let_def intro!: filter_True)
  have nf: "\<forall>x\<in>set (?xs @ [z]). \<not> ob_failed x"
    using facts un assms(2,10) by (auto simp: after_fate_def)
  define batch where "batch = map (marked (ti_now io)) ?xs @ [z]"
  have marked: "mark_batch (ti_now io) (bt_published (tick_batch C cfg io s)) (bt_poison (tick_batch C cfg io s))
      (bt_rows (tick_batch C cfg io s)) = batch"
    unfolding bt counts batch_def mark_batch_def using mark_rows_prefix [OF nf, of "int (length ?xs)" 0] by simp
  have bids: "map ob_id batch = map ob_id (xs @ r # ys @ [z])" by (simp add: batch_def marked_def comp_def)
  have "fst (tick C cfg io s) = Inr (bt_published (tick_batch C cfg io s))
    \<and> re_outbox (snd (tick C cfg io s)) = write_back batch (others_during io ?rows (re_outbox s))
    \<and> re_log (snd (tick C cfg io s)) = re_log s @ tick_messages C cfg io s"
    by (cases rule: tick_cases [of io cfg s C]) (use ok assms(1,2,11,12) marked in auto)
  moreover have hit: "b \<in> set (write_back batch (others_during io ?rows (re_outbox s)))" if "b \<in> set batch" for b
  proof (rule write_back_hit [OF _ that])
    show "distinct (map ob_id batch)" using ids by (simp only: bids)
    have "ob_id b \<in> ob_id ` set ?rows" unfolding assms(2) set_map [symmetric] bids [symmetric] using that by simp
    then have "ob_id b \<in> ob_id ` set (re_outbox s)" using facts by auto
    then show "ob_id b \<in> ob_id ` set (others_during io ?rows (re_outbox s))"
      unfolding set_map [symmetric] others_during_ids by simp
  qed
  have "\<exists>r'\<in>set (write_back batch (others_during io ?rows (re_outbox s))). ob_id r' = ob_id r \<and> ob_processed r'"
    by (rule bexI [of _ "marked (ti_now io) (after_fate (?F r) r)", OF _ hit]) (simp_all add: batch_def marked_def)
  moreover have "z \<in> set (write_back batch (others_during io ?rows (re_outbox s)))"
    by (rule hit) (simp add: batch_def)
  moreover have "logged C (tick_messages C cfg io s) z"
  proof -
    have "?F z = Sent" using assms(10) by simp
    then have "logged C (row_messages C (max_attempts cfg) (ti_send io) (re_producer s) z) z"
      unfolding tick_fate_def by (rule Sent_logged)
    then show ?thesis by (auto simp: logged_def tick_messages_def assms(2) split: sum.splits)
  qed
  moreover have "map_of (wm_headers m) ''outbox_id'' \<noteq> Some (str_uuid (ob_id r))"
    if m: "m \<in> set (tick_messages C cfg io s)" for m
  proof -
    obtain x where x: "x \<in> set (xs @ ys @ [z])" "m \<in> set (row_messages C (max_attempts cfg) (ti_send io) (re_producer s) x)"
      using m no by (auto simp: tick_messages_def assms(2))
    have "ob_id x \<noteq> ob_id r" using ids x(1) by (auto simp: image_iff)
    with row_message_id [OF x(2)] show ?thesis by simp
  qed
  moreover have "\<not> ob_processed z" using facts [of z] assms(2) by simp
  ultimately show ?thesis by (intro exI [of _ "tick_messages C cfg io s"]) simp
qed

theorem unexpected_error_marks_wrong_row_witness:
  "\<exists>r'\<in>set (re_outbox (snd (tick json_codec demo_cfg
       (demo_tick (\<lambda>i. if i = 1 then Refused (OtherError ''UnicodeEncodeError'' []) else Ack 0 0))
       (demo_relay [demo_row 1 3, demo_row 2 5])))). ob_id r' = 1 \<and> ob_processed r'"
proof -
  let ?io = "demo_tick (\<lambda>i. if i = 1 then Refused (OtherError ''UnicodeEncodeError'' []) else Ack 0 0)"
    and ?s = "demo_relay [demo_row 1 3, demo_row 2 5]" and ?e = "OtherError ''UnicodeEncodeError'' []"
  have rows: "tick_rows demo_cfg ?io ?s = [] @ demo_row 1 3 # [] @ [demo_row 2 5]" by code_simp
  have "tick_fate json_codec demo_cfg ?io ?s (demo_row 2 5) = Sent"
    "ob_attempt_count (demo_row 1 3) < max_attempts demo_cfg"
    "\<not> isl (cd_validate json_codec (ob_payload (demo_row 1 3)))" by code_simp+
  with unexpected_error_marks_wrong_row [OF _ rows, of ?e json_codec]
  show ?thesis
    by (auto simp: is_kafka_error_def exc_isinstance_def) (simp_all add: demo_relay_def)
qed

section \<open>Draining\<close>

definition sendable :: "'w codec \<Rightarrow> relay_settings \<Rightarrow> outbox_event \<Rightarrow> bool" where
  "sendable C cfg r \<longleftrightarrow> ob_attempt_count r < max_attempts cfg \<and> \<not> isl (cd_validate C (ob_payload r))"

text \<open>A tick on which nothing goes wrong and nobody else touches the table.\<close>

definition quiet_tick :: "tick_io \<Rightarrow> bool" where
  "quiet_tick io \<longleftrightarrow> ti_claim_error io = None \<and> ti_locked io = [] \<and> (\<forall>r. other_row io r = r) \<and>
     ti_new io = [] \<and> ti_flush_error io = None \<and> ti_commit io = Committed \<and>
     (\<forall>i. \<exists>n off. ti_send io i = Ack n off)"

definition drainable :: "'w codec \<Rightarrow> relay_settings \<Rightarrow> 'w relay \<Rightarrow> bool" where
  "drainable C cfg s \<longleftrightarrow> relay_inv C s \<and> pr_started (re_producer s) \<and> pr_producer (re_producer s) \<and>
     (\<forall>r\<in>set (re_outbox s). \<not> ob_failed r \<and> sendable C cfg r)"

lemma sendable_Sent:
  assumes "sendable C cfg r" and "send (ob_id r) = Ack n off" and "pr_started p" and "pr_producer p"
  shows "row_fate_of C (max_attempts cfg) send p r = Sent"
proof -
  obtain env where "cd_validate C (ob_payload r) = Inr env"
    using assms(1) by (cases "cd_validate C (ob_payload r)") (auto simp: sendable_def)
  then show ?thesis using assms
    by (simp add: row_fate_of_def sendable_def publish_one_def publish_ack seq_def)
qed

lemma length_filter_mem:
  assumes "distinct xs" and "distinct ys" and "set ys \<subseteq> set xs"
  shows "length (filter (\<lambda>x. x \<in> set ys) xs) = length ys"
proof -
  have "set (filter (\<lambda>x. x \<in> set ys) xs) = set ys" using assms(3) by auto
  then show ?thesis using assms by (metis distinct_card distinct_filter)
qed

lemma quiet_tick_step:
  assumes d: "drainable C cfg s" and q: "quiet_tick io"
  shows "drainable C cfg (snd (tick C cfg io s))
    \<and> map ob_id (re_outbox (snd (tick C cfg io s))) = map ob_id (re_outbox s)
    \<and> length (filter claimable (re_outbox (snd (tick C cfg io s))))
        = length (filter claimable (re_outbox s)) - batch_size cfg"
proof -
  let ?rows = "tick_rows cfg io s" and ?s' = "snd (tick C cfg io s)" and ?pend = "filter claimable (re_outbox s)"
  have Ack: "\<exists>n off. ti_send io i = Ack n off" for i using q by (simp add: quiet_tick_def)
  have fair: "tick_fair C io s"
  proof -
    have "send_expected (ti_send io i)" for i using Ack [of i] by (auto simp: send_expected_def)
    then show ?thesis using q d by (simp add: tick_fair_def quiet_tick_def drainable_def relay_inv_def)
  qed
  have rows: "?rows = take (batch_size cfg) (sort_key ob_created_at ?pend)"
    using q by (simp add: tick_rows_def claim_batch_def quiet_tick_def)
  then have len: "length ?rows = min (batch_size cfg) (length ?pend)" by simp
  have fate: "tick_fate C cfg io s r = Sent" if "r \<in> set ?rows" for r
  proof -
    obtain n off where "ti_send io (ob_id r) = Ack n off" using Ack by blast
    then show ?thesis unfolding tick_fate_def
      by (intro sendable_Sent) (use d tick_rows_facts [OF that] in \<open>auto simp: drainable_def\<close>)
  qed
  have inv': "relay_inv C ?s'" using tick_inv [OF _ fair] d by (simp add: drainable_def)
  show ?thesis
  proof (cases "?rows = []")
    case True
    have same: "re_outbox ?s' = re_outbox s" "re_producer ?s' = re_producer s"
      by (cases rule: tick_cases [of io cfg s C]; use True in auto)+
    then show ?thesis using inv' d len True by (auto simp: drainable_def)
  next
    case False
    have table: "re_outbox ?s' = map (\<lambda>r. if r \<in> set ?rows then marked (ti_now io) r else r) (re_outbox s)"
      and prod: "re_producer ?s' = re_producer s"
    proof -
      have "distinct (map ob_id (re_outbox s))" using d by (simp add: drainable_def relay_inv_def)
      from written_table [OF False this, of C] q fate
      have "write_back (mark_batch (ti_now io) (bt_published (tick_batch C cfg io s))
             (bt_poison (tick_batch C cfg io s)) (bt_rows (tick_batch C cfg io s)))
           (others_during io ?rows (re_outbox s))
        = map (\<lambda>r. if r \<in> set ?rows then marked (ti_now io) r else r) (re_outbox s)"
        by (simp add: quiet_tick_def settled_def)
      moreover have "re_outbox ?s' = write_back (mark_batch (ti_now io) (bt_published (tick_batch C cfg io s))
             (bt_poison (tick_batch C cfg io s)) (bt_rows (tick_batch C cfg io s)))
           (others_during io ?rows (re_outbox s)) \<and> re_producer ?s' = re_producer s"
      proof (cases rule: tick_cases [of io cfg s C])
        case idle
        then show ?thesis using False q by (simp add: quiet_tick_def)
      next
        case (outage ms)
        then show ?thesis using fate by auto
      next
        case rolled_back
        then show ?thesis using q by (simp add: quiet_tick_def)
      next
        case written
        then show ?thesis by blast
      qed
      ultimately show "re_outbox ?s' = map (\<lambda>r. if r \<in> set ?rows then marked (ti_now io) r else r) (re_outbox s)"
        and "re_producer ?s' = re_producer s" by simp_all
    qed
    have dist: "distinct (re_outbox s)" using d by (simp add: drainable_def relay_inv_def distinct_map)
    have "length (filter claimable (re_outbox ?s')) = length (filter (\<lambda>r. r \<notin> set ?rows) ?pend)"
      unfolding table filter_map length_map filter_filter comp_def
      by (rule arg_cong [where f = length], rule filter_cong) (auto simp: claimable_def marked_def)
    moreover have "distinct ?rows" unfolding rows by (simp add: dist)
    moreover have "set ?rows \<subseteq> set ?pend"
      using tick_rows_facts [of _ cfg io s] by (auto simp: claimable_def)
    ultimately have "length (filter claimable (re_outbox ?s')) = length (filter (\<lambda>r. r \<notin> set ?rows) ?pend)"
      and "length (filter (\<lambda>r. r \<in> set ?rows) ?pend) = length ?rows"
      using dist length_filter_mem [of ?pend ?rows] by simp_all
    then have "length (filter claimable (re_outbox ?s')) = length ?pend - batch_size cfg"
      using sum_length_filter_compl [of "\<lambda>r. r \<in> set ?rows" ?pend] len by simp
    moreover have "\<forall>r\<in>set (re_outbox ?s'). \<not> ob_failed r \<and> sendable C cfg r"
      using d by (auto simp: table drainable_def sendable_def marked_def)
    moreover have "map ob_id (re_outbox ?s') = map ob_id (re_outbox s)"
      by (simp add: table comp_def marked_def if_distrib cong: if_cong)
    ultimately show ?thesis using inv' d prod by (simp add: drainable_def)
  qed
qed

text \<open>
  C9: The relay drains the outbox. If every row can be sent (valid payload, attempts left), the
  broker acknowledges, and nothing else interferes, then after as many ticks as the backlog needs
  in batches every row of the table is processed and its message is in the log.
\<close>

theorem relay_drains:
  assumes "drainable C cfg s" and "\<forall>io\<in>set ios. quiet_tick io"
    and "length (filter claimable (re_outbox s)) \<le> length ios * batch_size cfg"
  shows "map ob_id (re_outbox (run_forever C cfg ios s)) = map ob_id (re_outbox s)
    \<and> (\<forall>r\<in>set (re_outbox (run_forever C cfg ios s)).
         ob_processed r \<and> logged C (re_log (run_forever C cfg ios s)) r)"
  using assms
proof (induction ios arbitrary: s)
  case Nil
  then have "\<forall>r\<in>set (re_outbox s). \<not> claimable r" by (simp add: filter_empty_conv)
  then show ?case using Nil.prems(1) by (auto simp: drainable_def relay_inv_def claimable_def)
next
  case (Cons io ios)
  note step = quiet_tick_step [OF Cons.prems(1), of io]
  have "length (filter claimable (re_outbox (snd (tick C cfg io s)))) \<le> length ios * batch_size cfg"
    using step Cons.prems(2,3) by simp
  with Cons.IH [of "snd (tick C cfg io s)"] step Cons.prems(2) show ?case by simp
qed

theorem relay_drains_witness:
  "list_all ob_processed (re_outbox (run_forever json_codec demo_cfg [demo_tick (\<lambda>i. Ack 0 0)]
      (demo_relay [demo_row 1 5, demo_row 2 3])))"
proof -
  let ?s = "demo_relay [demo_row 1 5, demo_row 2 3]"
  have row: "sendable json_codec demo_cfg (demo_row i at)" for i at
  proof -
    have "envelope_valid (demo_envelope i)" by (simp add: envelope_valid_def demo_envelope_def)
    then have "cd_validate json_codec (cd_dump json_codec (demo_envelope i)) = Inr (demo_envelope i)"
      using json_codec_ok by (simp add: codec_ok_def)
    then show ?thesis
      by (simp add: sendable_def demo_row_def new_outbox_event_def demo_cfg_def json_codec_def)
  qed
  have "drainable json_codec demo_cfg ?s"
    using row by (simp add: drainable_def relay_inv_def) (simp add: demo_relay_def)
  moreover have "quiet_tick (demo_tick (\<lambda>i. Ack 0 0))" by (simp add: quiet_tick_def)
  ultimately show ?thesis
    using relay_drains [of json_codec demo_cfg ?s "[demo_tick (\<lambda>i. Ack 0 0)]"]
    by (simp add: list_all_iff claimable_def demo_cfg_def)
qed

end
