(* ===== verification/Consumer.thy ===== *)
theory Consumer
  imports Dedupe Transactions Event_Codec
begin

text \<open>
  The Kafka consumer base class of \<open>src/core/consumer.py\<close>: decode, deduplicate, dispatch to the
  handler of the event type inside a session, commit the session, and commit the offsets of what
  was handled. The handlers come from the subclass; the locale \<open>event_handlers\<close> states what the
  base class relies on.
\<close>

section \<open>State\<close>

type_synonym handler = "event_envelope \<Rightarrow> (session, exc, unit) comp"

type_synonym handlers = "string \<times> string \<Rightarrow> handler option"

type_synonym topic_partition = "string \<times> int"

record consumer =
  co_task :: task_state
  co_stop_event :: bool
  co_dedupe :: bool
  co_consumer :: bool
  co_session_factory :: bool

record 'w consumer_record =
  rec_topic :: string
  rec_partition :: int
  rec_offset :: int
  rec_value :: "'w option"

text \<open>
  What ends a task, or an \<open>await\<close> for one: an \<open>Exception\<close>, or \<open>asyncio.CancelledError\<close>, which is a
  \<open>BaseException\<close> only and passes every \<open>except Exception\<close>.
\<close>

datatype raised = Raised exc | CancelledError

text \<open>
  What the outside decides while one message is handled: the Redis request, what other
  transactions commit, the clock of the database and the outcome of the commit.
\<close>

record msg_io =
  mi_redis :: redis_io
  mi_env :: "(db \<Rightarrow> db) list"
  mi_now :: int
  mi_commit :: "exc option"

section \<open>Lifecycle\<close>

definition consumer_start :: "bool \<Rightarrow> consumer \<Rightarrow> consumer" where
  "consumer_start enabled c =
     (if co_task c = Running then c
      else if \<not> enabled then c
      else c\<lparr>co_stop_event := False, co_dedupe := True, co_task := Running\<rparr>)"

definition close_consumer :: "consumer \<Rightarrow> consumer" where
  "close_consumer c = c\<lparr>co_consumer := False\<rparr>"

definition consumer_stop :: "consumer \<Rightarrow> consumer" where
  "consumer_stop c =
     (if co_task c = NoTask then c
      else (close_consumer (c\<lparr>co_stop_event := True\<rparr>))\<lparr>co_task := NoTask\<rparr>)"

text \<open>\<open>_connect\<close>, given what \<open>AIOKafkaConsumer.start()\<close> raises, if anything.\<close>

definition consumer_connect :: "string list \<Rightarrow> exc option \<Rightarrow> (consumer, exc, unit) comp" where
  "consumer_connect servers outcome c =
     (let c' = c\<lparr>co_consumer := True\<rparr> in
      case outcome of
        None \<Rightarrow> (Inr (), c')
      | Some e \<Rightarrow>
          (Inl (if is_kafka_error e
                then nimbus_error BrokerUnavailableError (Some ''Cannot connect to Kafka cluster.'')
                  (Some [(''bootstrap_servers'', JList (map JStr servers)),
                         (''driver_error'', JStr (exc_text e))])
                else e), c'))"

section \<open>One message\<close>

text \<open>The session block: run the handler, commit; on an exception roll back and raise it again.\<close>

definition run_handler :: "msg_io \<Rightarrow> handler \<Rightarrow> event_envelope \<Rightarrow> (db, exc, unit) comp" where
  "run_handler io h env d =
     (case seq (h env) (\<lambda>_. session_commit (mi_commit io)) (new_session d (mi_env io) (mi_now io)) of
        (Inl e, s) \<Rightarrow> (Inl e, se_db (session_rollback s))
      | (Inr _, s) \<Rightarrow> (Inr (), se_db s))"

definition handle_message ::
    "'r redis_ops \<Rightarrow> 'w codec \<Rightarrow> string \<Rightarrow> handlers \<Rightarrow> consumer \<Rightarrow> msg_io \<Rightarrow> 'w consumer_record
     \<Rightarrow> ((breaker \<times> 'r) \<times> db, exc, unit) comp" where
  "handle_message R C prefix hs c io msg =
     (if \<not> co_dedupe c then raise_exc (RuntimeError ''dedupe not initialized; call start() first'')
      else case rec_value msg of
        None \<Rightarrow> ret ()
      | Some value \<Rightarrow>
          (case cd_from_bytes C value of
             Inl e \<Rightarrow> ret ()
           | Inr env \<Rightarrow>
               seq (on_fst (check_and_record R (mi_redis io) prefix (content_hash C env) None)) (\<lambda>fresh.
                 if \<not> fresh then ret ()
                 else case hs (rec_topic msg, event_type env) of
                   None \<Rightarrow> ret ()
                 | Some h \<Rightarrow>
                     if \<not> co_session_factory c
                     then raise_exc (RuntimeError ''session_factory not configured'')
                     else on_snd (run_handler io h env))))"

section \<open>One poll\<close>

text \<open>
  The records of one \<open>getmany\<close>, in the order the two loops visit them; \<open>committed\<close> is the dict
  \<open>committed_offsets\<close>.
\<close>

fun dispatch ::
    "'r redis_ops \<Rightarrow> 'w codec \<Rightarrow> string \<Rightarrow> handlers \<Rightarrow> consumer
     \<Rightarrow> (topic_partition \<times> msg_io \<times> 'w consumer_record) list
     \<Rightarrow> (topic_partition \<Rightarrow> int option) \<Rightarrow> (breaker \<times> 'r) \<times> db
     \<Rightarrow> (topic_partition \<Rightarrow> int option) \<times> ((breaker \<times> 'r) \<times> db)" where
  "dispatch R C prefix hs c [] committed w = (committed, w)"
| "dispatch R C prefix hs c ((tp, io, msg) # rest) committed w =
     (case handle_message R C prefix hs c io msg w of
        (Inr _, w') \<Rightarrow> dispatch R C prefix hs c rest (committed(tp \<mapsto> rec_offset msg + 1)) w'
      | (Inl e, w') \<Rightarrow> dispatch R C prefix hs c rest committed w')"

text \<open>
  \<open>_poll_and_dispatch\<close> on the world and the group's committed offsets. \<open>commit_error\<close> is what the
  offset commit raises, if anything; it is logged only.
\<close>

definition poll_and_dispatch ::
    "'r redis_ops \<Rightarrow> 'w codec \<Rightarrow> string \<Rightarrow> handlers \<Rightarrow> consumer
     \<Rightarrow> exc + (topic_partition \<times> msg_io \<times> 'w consumer_record) list \<Rightarrow> exc option
     \<Rightarrow> ((topic_partition \<Rightarrow> int option) \<times> ((breaker \<times> 'r) \<times> db), exc, unit) comp" where
  "poll_and_dispatch R C prefix hs c polled commit_error st =
     (if \<not> co_consumer c then (Inr (), st)
      else case polled of
        Inl e \<Rightarrow> (Inl e, st)
      | Inr records \<Rightarrow>
          (case dispatch R C prefix hs c records Map.empty (snd st) of (committed, w) \<Rightarrow>
             (Inr (), (case commit_error of None \<Rightarrow> fst st ++ committed | Some e \<Rightarrow> fst st, w))))"

section \<open>Facts\<close>

text \<open>What the base class relies on: a handler leaves committing to it.\<close>

locale event_handlers =
  fixes hs :: handlers
  assumes handler_no_commit: "hs k = Some h \<Longrightarrow> se_env s = [] \<Longrightarrow> h env s = (r, s') \<Longrightarrow>
    se_db s' = se_db s \<and> se_env s' = []"
begin

lemma run_handler_failed:
  assumes "hs k = Some h" and "run_handler io h env d = (Inl e, d')" and "mi_env io = []"
  shows "d' = d"
proof -
  let ?s = "new_session d (mi_env io) (mi_now io)"
  from assms(2) obtain s where f: "seq (h env) (\<lambda>_. session_commit (mi_commit io)) ?s = (Inl e, s)"
    and d': "d' = se_db s"
    by (auto simp: run_handler_def split: prod.splits sum.splits)
  have "se_db s = se_db ?s"
    using f
  proof (cases rule: seq_InlE)
    case first
    then show ?thesis using handler_no_commit [OF assms(1) _ first] assms(3) by simp
  next
    case (second x s1)
    have "se_db s1 = se_db ?s" "se_env s1 = []"
      using handler_no_commit [OF assms(1) _ second(1)] assms(3) by simp_all
    then show ?thesis using session_commit_error [OF second(2)] by simp
  qed
  then show ?thesis using d' by (simp add: new_session_def)
qed

text \<open>A message whose handling raises changes no table.\<close>

lemma failed_message_keeps_db:
  assumes "handle_message R C prefix hs c io msg (br, d) = (Inl e, (br', d'))" and "mi_env io = []"
  shows "d' = d"
proof (cases "co_dedupe c \<and> (\<exists>v env. rec_value msg = Some v \<and> cd_from_bytes C v = Inr env)")
  case False
  then show ?thesis using assms(1)
    by (auto simp: handle_message_def split: if_splits option.splits sum.splits)
next
  case True
  then obtain v env where v: "rec_value msg = Some v" "cd_from_bytes C v = Inr env" "co_dedupe c" by blast
  obtain x br1 where chk: "check_and_record R (mi_redis io) prefix (content_hash C env) None br = (x, br1)"
    by (meson surj_pair)
  show ?thesis
  proof (cases "x = Inr True \<and> co_session_factory c \<and> (\<exists>h. hs (rec_topic msg, event_type env) = Some h)")
    case False
    then show ?thesis using assms(1) v chk
      by (cases x) (auto simp: handle_message_def seq_def split: if_splits option.splits)
  next
    case True
    then obtain h where h: "hs (rec_topic msg, event_type env) = Some h" by blast
    then have "run_handler io h env d = (Inl e, d')"
      using assms(1) v chk True by (simp add: handle_message_def seq_def prod_eq_iff)
    from run_handler_failed [OF h this assms(2)] show ?thesis .
  qed
qed

end

section \<open>Dispatching\<close>

lemma dispatch_committed:
  assumes "fst (dispatch R C prefix hs c records m w) tp = Some n"
  shows "m tp = Some n \<or> (\<exists>pre io msg post w1. records = pre @ (tp, io, msg) # post
    \<and> n = rec_offset msg + 1 \<and> w1 = snd (dispatch R C prefix hs c pre m w)
    \<and> fst (handle_message R C prefix hs c io msg w1) = Inr ())"
  using assms
proof (induction records arbitrary: m w)
  case Nil
  then show ?case by simp
next
  case (Cons x rest)
  obtain tp' io msg where x: "x = (tp', io, msg)" by (cases x)
  obtain r w' where h: "handle_message R C prefix hs c io msg w = (r, w')" by (meson surj_pair)
  let ?m = "case r of Inr _ \<Rightarrow> m(tp' \<mapsto> rec_offset msg + 1) | Inl _ \<Rightarrow> m"
  have d: "dispatch R C prefix hs c (x # pre) m w = dispatch R C prefix hs c pre ?m w'" for pre
    using h by (cases r) (simp_all add: x)
  have "fst (dispatch R C prefix hs c rest ?m w') tp = Some n" using Cons.prems d by metis
  from Cons.IH [OF this] consider (now) "?m tp = Some n"
    | (later) pre io' rec' post w1 where "rest = pre @ (tp, io', rec') # post" "n = rec_offset rec' + 1"
      "w1 = snd (dispatch R C prefix hs c pre ?m w')"
      "fst (handle_message R C prefix hs c io' rec' w1) = Inr ()" by blast
  then show ?case
  proof cases
    case now
    show ?thesis
    proof (cases r)
      case (Inl e)
      then show ?thesis using now by simp
    next
      case (Inr u)
      show ?thesis
      proof (cases "tp = tp'")
        case True
        then have "x # rest = [] @ (tp, io, msg) # rest" "n = rec_offset msg + 1"
          "fst (handle_message R C prefix hs c io msg w) = Inr ()"
          using now Inr x h by simp_all
        then show ?thesis by (metis dispatch.simps(1) snd_conv)
      next
        case False
        then show ?thesis using now Inr by simp
      qed
    qed
  next
    case (later pre io' rec' post w1)
    then have "x # rest = (x # pre) @ (tp, io', rec') # post"
      "w1 = snd (dispatch R C prefix hs c (x # pre) m w)" using d by simp_all
    with later(2,4) show ?thesis by blast
  qed
qed

lemma dispatch_append:
  "dispatch R C prefix hs c (xs @ ys) m w =
     (case dispatch R C prefix hs c xs m w of (m', w') \<Rightarrow> dispatch R C prefix hs c ys m' w')"
proof (induction xs arbitrary: m w)
  case (Cons x xs)
  obtain tp io msg where x: "x = (tp, io, msg)" by (cases x)
  obtain r w' where "handle_message R C prefix hs c io msg w = (r, w')" by (meson surj_pair)
  with Cons x show ?case by (cases r) (simp_all del: fun_upd_apply)
qed simp

lemma dispatch_keeps: "m tp \<noteq> None \<Longrightarrow> fst (dispatch R C prefix hs c records m w) tp \<noteq> None"
proof (induction records arbitrary: m w)
  case (Cons x xs)
  obtain tp io msg where "x = (tp, io, msg)" by (cases x)
  with Cons show ?case by (simp split: prod.split sum.split)
qed simp

text \<open>The first delivery of a message, when Redis answers.\<close>

lemma answered_message:
  assumes "redis_like R live zset" and "co_dedupe c" and "rec_value msg = Some v"
    and "cd_from_bytes C v = Inr env" and "content_hash C env \<noteq> []" and "br_state b = Closed"
    and "io_delivery (mi_redis io) = Delivered" and "k = dedupe_key prefix (content_hash C env)"
    and "r1 = snd (rd_set R (io_now (mi_redis io)) k ''1'' (Some dedupe_default_ttl) True r)"
  shows "handle_message R C prefix hs c io msg ((b, r), d) =
    (if live (io_now (mi_redis io)) r k \<noteq> None then (Inr (), ((record_success b, r1), d))
     else case hs (rec_topic msg, event_type env) of
       None \<Rightarrow> (Inr (), ((record_success b, r1), d))
     | Some h \<Rightarrow>
         if \<not> co_session_factory c
         then (Inl (RuntimeError ''session_factory not configured''), ((record_success b, r1), d))
         else (fst (run_handler io h env d), ((record_success b, r1), snd (run_handler io h env d))))"
proof -
  have ttl: "0 < dedupe_default_ttl" by (simp add: dedupe_default_ttl_def)
  have "check_and_record R (mi_redis io) prefix (content_hash C env) None (b, r)
      = (Inr (live (io_now (mi_redis io)) r k = None), (record_success b, r1))"
    using redis_like.check_and_record_answered [OF assms(1,5) ttl assms(6,7)] assms(8,9)
    by (simp add: check_and_record_default)
  then show ?thesis using assms(2-4)
    by (auto simp: handle_message_def seq_def split: option.splits)
qed

lemma redelivery_skip:
  assumes "redis_like R live zset" and "co_dedupe c"
    and "rec_value msg = Some v" and "cd_from_bytes C v = Inr env" and "content_hash C env \<noteq> []"
    and "br_state b = Closed" and "io_delivery (mi_redis io) = Delivered"
    and "w1 = snd (handle_message R C prefix hs c io msg ((b, r), d))"
    and "rec_value msg' = Some v'" and "cd_from_bytes C v' = Inr env'"
    and "content_hash C env' = content_hash C env"
    and "io_delivery (mi_redis io') = Delivered"
    and "io_now (mi_redis io) \<le> io_now (mi_redis io')"
    and "io_now (mi_redis io') < io_now (mi_redis io) + seconds dedupe_default_ttl"
    and "live (io_now (mi_redis io)) r (dedupe_key prefix (content_hash C env)) = None
       \<or> live (io_now (mi_redis io')) r (dedupe_key prefix (content_hash C env)) \<noteq> None"
  shows "fst (handle_message R C prefix hs c io' msg' w1) = Inr ()
    \<and> snd (snd (handle_message R C prefix hs c io' msg' w1)) = snd w1"
proof -
  let ?k = "dedupe_key prefix (content_hash C env)" and ?t = "io_now (mi_redis io)"
  let ?r1 = "snd (rd_set R ?t ?k ''1'' (Some dedupe_default_ttl) True r)"
  have ttl: "0 < dedupe_default_ttl" by (simp add: dedupe_default_ttl_def)
  have w1: "fst w1 = (record_success b, ?r1)"
    using answered_message [OF assms(1-7) HOL.refl HOL.refl] assms(8) by (simp split: option.splits)
  have "live (io_now (mi_redis io')) ?r1 ?k \<noteq> None"
    by (rule redis_like.recorded_live [OF assms(1) ttl assms(13,14,15)])
  moreover have closed: "br_state (record_success b) = Closed" by (simp add: record_success_def)
  moreover have "content_hash C env' \<noteq> []" using assms(5,11) by simp
  ultimately show ?thesis
    using answered_message [OF assms(1,2,9,10) _ closed assms(12) HOL.refl HOL.refl] w1 assms(11)
    by (cases w1) auto
qed

section \<open>Properties\<close>

text \<open>
  A redelivered message has no effect. Once Redis has answered the dedupe check of a message, a
  second delivery of a message with the same content, at any time before the dedupe key expires,
  returns normally, runs no handler and leaves the database as it is.
\<close>

theorem redelivery_has_no_effect:
  assumes "redis_like R live zset" and "co_dedupe c"
    and "rec_value msg = Some v" and "cd_from_bytes C v = Inr env" and "content_hash C env \<noteq> []"
    and "br_state b = Closed" and "io_delivery (mi_redis io) = Delivered"
    and "w1 = snd (handle_message R C prefix hs c io msg ((b, r), d))"
    and "rec_value msg' = Some v'" and "cd_from_bytes C v' = Inr env'"
    and "content_hash C env' = content_hash C env"
    and "io_delivery (mi_redis io') = Delivered"
    and "io_now (mi_redis io) \<le> io_now (mi_redis io')"
    and "io_now (mi_redis io') < io_now (mi_redis io) + seconds dedupe_default_ttl"
    and "live (io_now (mi_redis io)) r (dedupe_key prefix (content_hash C env)) = None
       \<or> live (io_now (mi_redis io')) r (dedupe_key prefix (content_hash C env)) \<noteq> None"
  shows "fst (handle_message R C prefix hs c io' msg' w1) = Inr ()
    \<and> snd (snd (handle_message R C prefix hs c io' msg' w1)) = snd w1"
  by (rule redelivery_skip [OF assms])

text \<open>
  C34: A message whose handler failed is not processed on redelivery. The dedupe key is recorded
  before the handler runs, so when the handler (or the commit) of a new message raises, the database is
  unchanged and every redelivery before the key expires is skipped as a duplicate: the event has
  no effect.
\<close>

theorem failed_message_is_never_retried:
  assumes "redis_like R live zset" and "event_handlers hs" and "co_dedupe c" and "mi_env io = []"
    and "rec_value msg = Some v" and "cd_from_bytes C v = Inr env" and "content_hash C env \<noteq> []"
    and "br_state b = Closed" and "io_delivery (mi_redis io) = Delivered"
    and "live (io_now (mi_redis io)) r (dedupe_key prefix (content_hash C env)) = None"
    and "fst (handle_message R C prefix hs c io msg ((b, r), d)) = Inl e"
    and "w1 = snd (handle_message R C prefix hs c io msg ((b, r), d))"
    and "io_delivery (mi_redis io') = Delivered" and "io_now (mi_redis io) \<le> io_now (mi_redis io')"
    and "io_now (mi_redis io') < io_now (mi_redis io) + seconds dedupe_default_ttl"
  shows "snd w1 = d \<and> fst (handle_message R C prefix hs c io' msg w1) = Inr ()
    \<and> snd (snd (handle_message R C prefix hs c io' msg w1)) = d"
proof -
  obtain br1 d1 where w1: "w1 = (br1, d1)" by (cases w1)
  then have "handle_message R C prefix hs c io msg ((b, r), d) = (Inl e, (br1, d1))"
    using assms(11,12) by (simp add: prod_eq_iff)
  from event_handlers.failed_message_keeps_db [OF assms(2) this assms(4)] have "d1 = d" .
  moreover have "fst (handle_message R C prefix hs c io' msg w1) = Inr ()
      \<and> snd (snd (handle_message R C prefix hs c io' msg w1)) = snd w1"
    by (rule redelivery_skip [OF assms(1,3,5,6,7,8,9,12,5,6) _ assms(13,14,15)])
      (simp_all add: assms(10))
  ultimately show ?thesis using w1 by simp
qed

text \<open>
  An offset is committed only for a message that was handled: the offset a poll commits for a
  partition is one past a record of that partition whose handling returned normally.
\<close>

theorem committed_offset_was_handled:
  assumes "co_consumer c" and "polled = Inr records"
    and "offsets = fst (snd (poll_and_dispatch R C prefix hs c polled None (Map.empty, w)))"
    and "offsets tp = Some n"
  shows "\<exists>pre io msg post. records = pre @ (tp, io, msg) # post \<and> n = rec_offset msg + 1
    \<and> fst (handle_message R C prefix hs c io msg
             (snd (dispatch R C prefix hs c pre Map.empty w))) = Inr ()"
  using assms dispatch_committed [of R C prefix hs c records Map.empty w tp n]
  by (auto simp: poll_and_dispatch_def split: prod.splits)

text \<open>
  C35: The offset moves past a failed message. In any poll whose records of each partition come with growing
  offsets, when a message fails and any later one of the same partition succeeds, the poll commits for this
  partition an offset beyond the failed message, whatever else the poll holds: Kafka does not deliver
  the failed message again, although the comment in \<open>_poll_and_dispatch\<close> says that it will.
\<close>

theorem offset_skips_failed_message:
  assumes "co_consumer c" and "records = pre @ (tp, io1, rec1) # mid @ (tp, io2, rec2) # post"
    and "fst (handle_message R C prefix hs c io1 rec1 (snd (dispatch R C prefix hs c pre Map.empty w))) = Inl e"
    and "fst (handle_message R C prefix hs c io2 rec2
          (snd (dispatch R C prefix hs c (pre @ (tp, io1, rec1) # mid) Map.empty w))) = Inr ()"
    and "sorted_wrt (\<lambda>x y. fst x = fst y \<longrightarrow> rec_offset (snd (snd x)) < rec_offset (snd (snd y))) records"
  shows "\<exists>n. fst (snd (poll_and_dispatch R C prefix hs c (Inr records) None (offsets, w))) tp = Some n
    \<and> rec_offset rec1 < n"
proof -
  let ?D = "dispatch R C prefix hs c"
  let ?m = "fst (?D (pre @ (tp, io1, rec1) # mid) Map.empty w)"
    and ?w = "snd (?D (pre @ (tp, io1, rec1) # mid) Map.empty w)"
  obtain w2 where h: "handle_message R C prefix hs c io2 rec2 ?w = (Inr (), w2)"
    using assms(4) by (metis prod.collapse)
  have "?D records Map.empty w = ?D post (?m(tp \<mapsto> rec_offset rec2 + 1)) w2"
    using h dispatch_append [of R C prefix hs c "pre @ (tp, io1, rec1) # mid" "(tp, io2, rec2) # post" Map.empty w]
    by (simp add: assms(2) case_prod_unfold)
  moreover obtain n where n: "fst (?D post (?m(tp \<mapsto> rec_offset rec2 + 1)) w2) tp = Some n"
    using dispatch_keeps [of "?m(tp \<mapsto> rec_offset rec2 + 1)" tp] by fastforce
  ultimately have end_n: "fst (?D records Map.empty w) tp = Some n" by simp
  have after: "rec_offset rec1 < rec_offset (snd (snd x))" if "x \<in> set (mid @ (tp, io2, rec2) # post)" "fst x = tp" for x
  proof -
    have "sorted_wrt (\<lambda>x y. fst x = fst y \<longrightarrow> rec_offset (snd (snd x)) < rec_offset (snd (snd y)))
        ((tp, io1, rec1) # mid @ (tp, io2, rec2) # post)"
      using assms(5) unfolding assms(2) sorted_wrt_append by blast
    then show ?thesis using that unfolding sorted_wrt.simps by fastforce
  qed
  have "rec_offset rec1 < n" using dispatch_committed [OF n] after by fastforce
  then show ?thesis using assms(1) end_n by (auto simp: poll_and_dispatch_def split: prod.splits)
qed

end
