(* ===== verification/Inventory.thy ===== *)
theory Inventory
  imports Transactions
begin

text \<open>
  The inventory services of \<open>src/modules/inventory/services.py\<close>: reading a stock row, the
  optimistic-lock reservation and the unconditional release.

  The services hold a \<open>Stock\<close> object of the session, not a row: SQLAlchemy decides what a
  second SELECT does to an object that is already loaded, and what an UPDATE statement does to a
  loaded object that it matches. These two decisions are the record \<open>orm\<close>, a parameter.
\<close>

section \<open>The session's Stock objects\<close>

record orm =
  orm_reload :: "stock \<Rightarrow> stock \<Rightarrow> stock"
  orm_sync :: "(stock \<Rightarrow> bool) \<Rightarrow> (stock \<Rightarrow> stock) \<Rightarrow> stock \<Rightarrow> stock"

text \<open>
  The documented defaults of SQLAlchemy 2: a loaded object is not refreshed by a later SELECT
  (no \<open>populate_existing\<close>), and an ORM UPDATE is evaluated on the matching loaded objects
  (\<open>synchronize_session='auto'\<close>). A session without these two features works on plain rows.
\<close>

definition orm_default :: orm where
  "orm_default = \<lparr>orm_reload = (\<lambda>old row. old), orm_sync = (\<lambda>P F x. if P x then F x else x)\<rparr>"

definition orm_plain :: orm where
  "orm_plain = \<lparr>orm_reload = (\<lambda>old row. row), orm_sync = (\<lambda>P F x. x)\<rparr>"

definition read_stock :: "orm \<Rightarrow> uuid \<Rightarrow> (session, exc, stock option) comp" where
  "read_stock M stock_id s0 =
     (let s = others_commit s0 in
      case stock_t (view s) stock_id of
        None \<Rightarrow> (Inr None, s)
      | Some row \<Rightarrow>
          (let x = (case se_stock_objs s stock_id of None \<Rightarrow> row | Some old \<Rightarrow> orm_reload M old row) in
           (Inr (Some x), s\<lparr>se_stock_objs := (se_stock_objs s)(stock_id \<mapsto> x)\<rparr>)))"

text \<open>\<open>UPDATE stock SET F WHERE id = stock_id AND P\<close>; the result is the row count.\<close>

definition update_stock ::
    "orm \<Rightarrow> uuid \<Rightarrow> (stock \<Rightarrow> bool) \<Rightarrow> (stock \<Rightarrow> stock) \<Rightarrow> (session, exc, int) comp" where
  "update_stock M stock_id P F s0 =
     (let s = others_commit s0;
          sync = s\<lparr>se_stock_objs := (se_stock_objs s)(stock_id :=
                     map_option (orm_sync M P F) (se_stock_objs s stock_id))\<rparr> in
      case stock_t (view s) stock_id of
        None \<Rightarrow> (Inr 0, sync)
      | Some row \<Rightarrow>
          if \<not> P row then (Inr 0, sync)
          else let row' = (F row)\<lparr>st_updated_at := se_now s\<rparr> in
          if \<not> stock_columns_ok row' then (Inl (DBAPIError ''integer out of range''), s)
          else if \<not> stock_checks row' then (Inl (IntegrityError ''ck_stock''), s)
          else (Inr 1, sync\<lparr>se_writes := (se_writes s)\<lparr>stock_t := (stock_t (se_writes s))(stock_id \<mapsto> row')\<rparr>\<rparr>))"

section \<open>Services\<close>

record reserve_request =
  rq_stock_id :: uuid
  rq_quantity :: int
  rq_expected_version :: int

record reserve_result =
  new_version :: int
  new_available :: int

record release_request =
  rl_stock_id :: uuid
  rl_quantity :: int
  rl_expected_version :: int

definition stock_not_found :: "uuid \<Rightarrow> exc" where
  "stock_not_found stock_id = nimbus_error StockNotFoundError (Some ''Stock does not exist.'')
     (Some [(''stock_id'', JStr (str_uuid stock_id))])"

definition stale_version_error :: "reserve_request \<Rightarrow> stock \<Rightarrow> exc" where
  "stale_version_error req x = nimbus_error ConcurrentUpdateError
     (Some ''Stock was modified by another transaction.'')
     (Some [(''stock_id'', JStr (str_uuid (rq_stock_id req))),
            (''expected_version'', JInt (rq_expected_version req)),
            (''actual_version'', JInt (st_version x))])"

definition out_of_stock_error :: "reserve_request \<Rightarrow> stock \<Rightarrow> exc" where
  "out_of_stock_error req x = nimbus_error OutOfStockError (Some ''Insufficient stock.'')
     (Some [(''stock_id'', JStr (str_uuid (rq_stock_id req))),
            (''requested'', JInt (rq_quantity req)),
            (''available'', JInt (st_available x))])"

definition race_error :: "reserve_request \<Rightarrow> exc" where
  "race_error req = nimbus_error ConcurrentUpdateError
     (Some ''Stock was modified concurrently (race).'')
     (Some [(''stock_id'', JStr (str_uuid (rq_stock_id req)))])"

definition reserve_where :: "reserve_request \<Rightarrow> stock \<Rightarrow> bool" where
  "reserve_where req x \<longleftrightarrow> st_version x = rq_expected_version req \<and> st_available x \<ge> rq_quantity req"

definition reserve_values :: "reserve_request \<Rightarrow> stock \<Rightarrow> stock" where
  "reserve_values req x =
     x\<lparr>st_available := st_available x - rq_quantity req, st_version := st_version x + 1\<rparr>"

text \<open>The result is computed from the \<open>Stock\<close> object as it is after the UPDATE.\<close>

definition reserve_outcome :: "reserve_request \<Rightarrow> stock \<Rightarrow> session \<Rightarrow> reserve_result" where
  "reserve_outcome req x s =
     (let y = (case se_stock_objs s (rq_stock_id req) of None \<Rightarrow> x | Some y \<Rightarrow> y) in
      \<lparr>new_version = st_version y + 1, new_available = st_available y - rq_quantity req\<rparr>)"

definition reserve :: "orm \<Rightarrow> reserve_request \<Rightarrow> (session, exc, reserve_result) comp" where
  "reserve M req =
     (if rq_quantity req \<le> 0 then raise_exc (ValueError ''quantity must be > 0'')
      else seq (read_stock M (rq_stock_id req)) (\<lambda>found.
        case found of
          None \<Rightarrow> raise_exc (stock_not_found (rq_stock_id req))
        | Some x \<Rightarrow>
            if st_version x \<noteq> rq_expected_version req then raise_exc (stale_version_error req x)
            else if st_available x < rq_quantity req then raise_exc (out_of_stock_error req x)
            else seq (update_stock M (rq_stock_id req) (reserve_where req) (reserve_values req))
              (\<lambda>rowcount s.
                 if rowcount \<noteq> 1 then raise_exc (race_error req) s
                 else ret (reserve_outcome req x s) s)))"

definition release_values :: "release_request \<Rightarrow> stock \<Rightarrow> stock" where
  "release_values req x = x\<lparr>st_available := st_available x + rl_quantity req\<rparr>"

definition release :: "orm \<Rightarrow> release_request \<Rightarrow> (session, exc, int) comp" where
  "release M req =
     (if rl_quantity req \<le> 0 then raise_exc (ValueError ''quantity must be > 0'')
      else seq (update_stock M (rl_stock_id req) (\<lambda>_. True) (release_values req))
        (\<lambda>rowcount. if rowcount = 0 then ret (- 1) else ret 0))"

definition get_stock :: "orm \<Rightarrow> uuid \<Rightarrow> (session, exc, stock) comp" where
  "get_stock M stock_id =
     seq (read_stock M stock_id)
       (\<lambda>found. case found of None \<Rightarrow> raise_exc (stock_not_found stock_id) | Some x \<Rightarrow> ret x)"

section \<open>Statements\<close>

lemma read_stock_frame:
  assumes "read_stock M k s = (r, s')"
  shows "se_db s' = se_db (others_commit s)" and "se_writes s' = se_writes s"
    and "se_pending s' = se_pending s" and "se_now s' = se_now s"
    and "se_env s' = se_env (others_commit s)" and "view s' = view (others_commit s)"
    and "se_locked_orders s' = se_locked_orders s" and "se_locked_payments s' = se_locked_payments s"
  using assms by (auto simp: read_stock_def Let_def view_def split: option.splits)

lemma read_stock_Inr: "\<exists>x s'. read_stock M k s = (Inr x, s')"
  by (auto simp: read_stock_def Let_def split: option.splits)

text \<open>An UPDATE either hits the row and rewrites it, or changes no table.\<close>

lemma update_stock_hit:
  assumes "update_stock M k P F s = (Inr 1, s')"
  obtains row where "stock_t (view (others_commit s)) k = Some row" and "P row"
    and "se_writes s' = (se_writes s)\<lparr>stock_t := (stock_t (se_writes s))(k \<mapsto> (F row)\<lparr>st_updated_at := se_now s\<rparr>)\<rparr>"
    and "stock_checks (F row)" and "stock_columns_ok (F row)"
  using assms
  by (auto simp: update_stock_def Let_def stock_checks_def stock_columns_ok_def
      split: option.splits if_splits)

lemma update_stock_miss:
  assumes "update_stock M k P F s = (r, s')" and "r \<noteq> Inr 1"
  shows "se_writes s' = se_writes s"
  using assms by (auto simp: update_stock_def Let_def split: option.splits if_splits)

lemma update_stock_frame:
  assumes "update_stock M k P F s = (r, s')"
  shows "se_db s' = se_db (others_commit s)" and "se_pending s' = se_pending s"
    and "se_now s' = se_now s" and "se_env s' = se_env (others_commit s)"
    and "orders_t (se_writes s') = orders_t (se_writes s)"
    and "payments_t (se_writes s') = payments_t (se_writes s)"
    and "users_t (se_writes s') = users_t (se_writes s)"
    and "outbox_t (se_writes s') = outbox_t (se_writes s)"
    and "se_locked_orders s' = se_locked_orders s" and "se_locked_payments s' = se_locked_payments s"
  using assms by (auto simp: update_stock_def Let_def split: option.splits if_splits)

lemma update_stock_range: "update_stock M k P F s = (Inr n, s') \<Longrightarrow> n = 0 \<or> n = 1"
  by (auto simp: update_stock_def Let_def split: option.splits if_splits)

section \<open>Reservation\<close>

lemma reserve_InrE:
  assumes "reserve M req s = (Inr res, s')"
  obtains x s1 where "0 < rq_quantity req"
    and "read_stock M (rq_stock_id req) s = (Inr (Some x), s1)"
    and "st_version x = rq_expected_version req" and "rq_quantity req \<le> st_available x"
    and "update_stock M (rq_stock_id req) (reserve_where req) (reserve_values req) s1 = (Inr 1, s')"
    and "res = reserve_outcome req x s'"
  using assms unfolding reserve_def
  by (auto elim!: seq_InrE split: if_splits option.splits)

text \<open>
  A successful reservation takes exactly the requested quantity off the row the UPDATE found,
  advances its version by one and touches nothing else. The row is the one committed at the
  time of the UPDATE, whatever the session's object said.
\<close>

lemma reserve_success:
  assumes "reserve M req s = (Inr res, s')"
  obtains row where
    "stock_t (view (others_commit (others_commit s))) (rq_stock_id req) = Some row"
    and "st_version row = rq_expected_version req"
    and "0 < rq_quantity req" and "rq_quantity req \<le> st_available row"
    and "se_writes s' = (se_writes s)\<lparr>stock_t := (stock_t (se_writes s))(rq_stock_id req \<mapsto>
           (reserve_values req row)\<lparr>st_updated_at := se_now s\<rparr>)\<rparr>"
    and "stock_checks (reserve_values req row)"
proof -
  from assms obtain x s1 where q: "0 < rq_quantity req"
    and rd: "read_stock M (rq_stock_id req) s = (Inr (Some x), s1)"
    and up: "update_stock M (rq_stock_id req) (reserve_where req) (reserve_values req) s1 = (Inr 1, s')"
    by (rule reserve_InrE)
  note fr = read_stock_frame [OF rd]
  have "view (others_commit s1) = view (others_commit (others_commit s))"
    using fr by (simp add: others_commit_def Let_def view_def split: list.splits)
  with up fr show thesis
    by (elim update_stock_hit)
      (auto intro!: that simp: reserve_where_def q simp del: view_simps)
qed

lemma reserve_error_clean:
  assumes "reserve M req s = (Inl e, s')"
  shows "se_writes s' = se_writes s" and "se_pending s' = se_pending s"
proof -
  have "se_writes s' = se_writes s \<and> se_pending s' = se_pending s"
  proof (cases "rq_quantity req \<le> 0")
    case True
    then show ?thesis using assms by (simp add: reserve_def)
  next
    case False
    obtain found s1 where rd: "read_stock M (rq_stock_id req) s = (Inr found, s1)"
      using read_stock_Inr by blast
    note fr = read_stock_frame [OF rd]
    obtain r s2 where
      up: "update_stock M (rq_stock_id req) (reserve_where req) (reserve_values req) s1 = (r, s2)"
      by fastforce
    have "se_pending s2 = se_pending s1" by (rule update_stock_frame [OF up])
    moreover have "se_writes s2 = se_writes s1" if "r \<noteq> Inr 1"
      using update_stock_miss [OF up that] .
    ultimately show ?thesis using assms False rd up fr
      by (cases r) (auto simp: reserve_def seq_def split: option.splits if_splits)
  qed
  then show "se_writes s' = se_writes s" and "se_pending s' = se_pending s" by simp_all
qed

lemma reserve_frame:
  assumes "reserve M req s = (r, s')"
  shows "se_pending s' = se_pending s \<and> se_now s' = se_now s \<and> (se_env s = [] \<longrightarrow> se_db s' = se_db s \<and> se_env s' = [])"
proof (cases "rq_quantity req \<le> 0")
  case True
  then show ?thesis using assms by (auto simp: reserve_def)
next
  case False
  obtain found s1 where rd: "read_stock M (rq_stock_id req) s = (Inr found, s1)"
    using read_stock_Inr by blast
  note fr = read_stock_frame [OF rd]
  obtain r2 s2 where
    up: "update_stock M (rq_stock_id req) (reserve_where req) (reserve_values req) s1 = (r2, s2)"
    by fastforce
  note fu = update_stock_frame [OF up]
  show ?thesis using assms False rd up fr fu
    by (cases r2) (auto simp: reserve_def seq_def split: option.splits if_splits)
qed

section \<open>Release\<close>

lemma release_row:
  assumes "0 < rl_quantity req" and "stock_t (view (others_commit s)) (rl_stock_id req) = Some row"
    and "stock_checks row" and "stock_columns_ok row"
    and "int32_ok (st_available row + rl_quantity req)"
  shows "\<exists>s'. release M req s = (Inr 0, s') \<and>
    se_writes s' = (se_writes s)\<lparr>stock_t := (stock_t (se_writes s))(rl_stock_id req \<mapsto>
      (release_values req row)\<lparr>st_updated_at := se_now s\<rparr>)\<rparr>
    \<and> se_db s' = se_db (others_commit s) \<and> se_pending s' = se_pending s
    \<and> se_now s' = se_now s \<and> se_env s' = se_env (others_commit s)
    \<and> se_locked_orders s' = se_locked_orders s"
  using assms
  by (simp add: release_def update_stock_def Let_def seq_def release_values_def stock_checks_def
      stock_columns_ok_def del: view_simps)

lemma release_missing:
  assumes "0 < rl_quantity req" and "stock_t (view (others_commit s)) (rl_stock_id req) = None"
  shows "\<exists>s'. release M req s = (Inr (- 1), s') \<and> se_writes s' = se_writes s"
  using assms by (simp add: release_def update_stock_def Let_def seq_def del: view_simps)

lemma release_error_clean:
  assumes "release M req s = (Inl e, s')"
  shows "se_writes s' = se_writes s" and "se_pending s' = se_pending s"
  using assms
  by (auto simp: release_def update_stock_def Let_def seq_def split: if_splits option.splits)

lemma get_stock_frame:
  assumes "get_stock M k s = (r, s')"
  shows "se_pending s' = se_pending s" and "se_writes s' = se_writes s" and "se_now s' = se_now s"
    and "se_db s' = se_db (others_commit s)" and "se_env s' = se_env (others_commit s)"
proof -
  obtain x s1 where "read_stock M k s = (Inr x, s1)" using read_stock_Inr by blast
  with assms read_stock_frame [of M k s "Inr x" s1]
  show "se_pending s' = se_pending s" and "se_writes s' = se_writes s" and "se_now s' = se_now s"
    and "se_db s' = se_db (others_commit s)" and "se_env s' = se_env (others_commit s)"
    by (auto simp: get_stock_def split: option.splits)
qed

lemma release_frame:
  assumes "release M req s = (r, s')" and "se_env s = []"
  shows "se_db s' = se_db s" and "se_env s' = []" and "se_pending s' = se_pending s"
  using assms
  by (auto simp: release_def update_stock_def Let_def seq_def split: if_splits option.splits)

interpretation reserve_svc: service "reserve M" for M
  by unfold_locales (use reserve_frame reserve_error_clean in \<open>fastforce+\<close>)

interpretation release_svc: service "release M" for M
  by unfold_locales (use release_frame release_error_clean in \<open>auto\<close>)

interpretation get_stock_svc: service "get_stock M" for M
  by unfold_locales (use get_stock_frame in \<open>auto\<close>)

section \<open>Sequences of reservations\<close>

text \<open>
  Transactions that each reserve and commit, or fail and roll back, one after the other. The
  result lists the quantities that were reserved.
\<close>

fun reserve_run :: "orm \<Rightarrow> int \<Rightarrow> reserve_request list \<Rightarrow> db \<Rightarrow> int list \<times> db" where
  "reserve_run M now [] d = ([], d)"
| "reserve_run M now (req # reqs) d =
     (case reserve M req (new_session d [] now) of
        (Inl e, s) \<Rightarrow> reserve_run M now reqs (se_db (session_rollback s))
      | (Inr res, s) \<Rightarrow>
          (case session_commit None s of
             (Inl e, s') \<Rightarrow> reserve_run M now reqs (se_db s')
           | (Inr _, s') \<Rightarrow> (case reserve_run M now reqs (se_db s') of (qs, d') \<Rightarrow> (rq_quantity req # qs, d'))))"

lemma commit_stock_only:
  assumes "session_commit None s = (Inr u, s')" and "se_pending s = []" and "se_env s = []"
  shows "se_db s' = view s"
  using assms by (auto simp: session_commit_def session_flush_def Let_def view_def elim!: seq_InrE)

text \<open>One transaction: the row keeps its identity, or gives up the quantity and gains a version.\<close>

lemma reserve_transaction:
  assumes "reserve M req (new_session d [] now) = (Inr res, s)"
    and "session_commit None s = (Inr u, s')"
  obtains row where "stock_t d (rq_stock_id req) = Some row" and "0 < rq_quantity req"
    and "rq_quantity req \<le> st_available row" and "st_version row = rq_expected_version req"
    and "stock_t (se_db s') = (stock_t d)(rq_stock_id req \<mapsto>
           (reserve_values req row)\<lparr>st_updated_at := now\<rparr>)"
proof -
  from reserve_success [OF assms(1)] obtain row where
    row: "stock_t d (rq_stock_id req) = Some row" "st_version row = rq_expected_version req"
      "0 < rq_quantity req" "rq_quantity req \<le> st_available row"
    and w: "se_writes s = empty_db\<lparr>stock_t := [rq_stock_id req \<mapsto>
      (reserve_values req row)\<lparr>st_updated_at := now\<rparr>]\<rparr>"
    by auto
  have fr: "se_pending s = []" "se_env s = []" "se_db s = d"
    using reserve_frame [OF assms(1)] by simp_all
  have "stock_t (se_db s') = stock_t (view s)"
    using commit_stock_only [OF assms(2) fr(1,2)] by simp
  then have "stock_t (se_db s') = (stock_t d)(rq_stock_id req \<mapsto>
      (reserve_values req row)\<lparr>st_updated_at := now\<rparr>)"
    by (simp add: fr(3) w)
  with row show thesis by (intro that)
qed

lemma commit_quiet_Inr:
  assumes "session_commit None s = (Inl e, s')" and "se_pending s = []"
  shows False
  using assms by (auto simp: session_commit_def session_flush_def Let_def seq_def)

lemma reserve_run_Cons:
  obtains (failed) e where "fst (reserve M req (new_session d [] now)) = Inl e"
      and "reserve_run M now (req # reqs) d = reserve_run M now reqs d"
    | (taken) row d' where "stock_t d (rq_stock_id req) = Some row" and "0 < rq_quantity req"
      and "rq_quantity req \<le> st_available row" and "st_version row = rq_expected_version req"
      and "stock_t d' = (stock_t d)(rq_stock_id req \<mapsto>
             (reserve_values req row)\<lparr>st_updated_at := now\<rparr>)"
      and "reserve_run M now (req # reqs) d
        = (rq_quantity req # fst (reserve_run M now reqs d'), snd (reserve_run M now reqs d'))"
proof -
  obtain r s where r: "reserve M req (new_session d [] now) = (r, s)" by fastforce
  have fr: "se_pending s = []" "se_db s = d" using reserve_frame [OF r] by simp_all
  show thesis
  proof (cases r)
    case (Inl e)
    with r fr show thesis by (intro failed [of e]) simp_all
  next
    case (Inr res)
    obtain c s' where c: "session_commit None s = (c, s')" by fastforce
    with fr(1) obtain u where "c = Inr u" using commit_quiet_Inr by (cases c) auto
    with c have c: "session_commit None s = (Inr u, s')" by simp
    from r Inr have res: "reserve M req (new_session d [] now) = (Inr res, s)" by simp
    then have run: "reserve_run M now (req # reqs) d = (rq_quantity req # fst (reserve_run M now reqs (se_db s')),
        snd (reserve_run M now reqs (se_db s')))"
      using c by (simp split: prod.splits)
    from res c obtain row where "stock_t d (rq_stock_id req) = Some row" "0 < rq_quantity req"
      "rq_quantity req \<le> st_available row" "st_version row = rq_expected_version req"
      "stock_t (se_db s') = (stock_t d)(rq_stock_id req \<mapsto> (reserve_values req row)\<lparr>st_updated_at := now\<rparr>)"
      by (rule reserve_transaction)
    then show thesis using run by (rule taken)
  qed
qed

section \<open>Properties\<close>

text \<open>
  A successful reservation takes the requested quantity off the row that the database holds at
  the time of the UPDATE, with the expected version, enough stock, and whatever other transactions
  committed between the SELECT and the UPDATE; it raises the version by one, keeps the CHECK
  constraints, and changes no other row and no other table.
\<close>

theorem reserve_effect:
  assumes "reserve M req s = (Inr res, s')"
  shows "\<exists>row. stock_t (view (others_commit (others_commit s))) (rq_stock_id req) = Some row
    \<and> st_version row = rq_expected_version req
    \<and> 0 < rq_quantity req \<and> rq_quantity req \<le> st_available row
    \<and> se_writes s' = (se_writes s)\<lparr>stock_t := (stock_t (se_writes s))(rq_stock_id req \<mapsto>
        row\<lparr>st_available := st_available row - rq_quantity req, st_version := st_version row + 1,
            st_updated_at := se_now s\<rparr>)\<rparr>
    \<and> 0 \<le> st_available row - rq_quantity req \<and> se_pending s' = se_pending s"
proof -
  have "se_pending s' = se_pending s" using reserve_frame [OF assms] by simp
  moreover from assms obtain row where
    "stock_t (view (others_commit (others_commit s))) (rq_stock_id req) = Some row"
    and "st_version row = rq_expected_version req"
    and "0 < rq_quantity req" and "rq_quantity req \<le> st_available row"
    and "se_writes s' = (se_writes s)\<lparr>stock_t := (stock_t (se_writes s))(rq_stock_id req \<mapsto>
           (reserve_values req row)\<lparr>st_updated_at := se_now s\<rparr>)\<rparr>"
    by (rule reserve_success)
  ultimately show ?thesis by (intro exI [of _ row]) (simp add: reserve_values_def del: view_simps)
qed

definition shelf :: "int \<Rightarrow> int \<Rightarrow> db" where
  "shelf n v = empty_db\<lparr>stock_t := [4 \<mapsto>
     \<lparr>st_id = 4, st_sku = ''SKU'', st_name = ''Widget'', st_price_minor_units = 250,
      st_currency = ''EUR'', st_available = n, st_version = v, st_created_at = 0, st_updated_at = 0\<rparr>]\<rparr>"

definition want :: "int \<Rightarrow> int \<Rightarrow> reserve_request" where
  "want q v = \<lparr>rq_stock_id = 4, rq_quantity = q, rq_expected_version = v\<rparr>"

theorem reserve_effect_witness:
  "map_option st_available (stock_t (se_writes (snd (reserve orm_default (want 2 1) (new_session (shelf 5 1) [] 9)))) 4)
   = Some 3"
proof -
  let ?r = "reserve orm_default (want 2 1) (new_session (shelf 5 1) [] 9)"
  have "\<not> isl (fst ?r)" by code_simp
  then have "?r = (Inr (projr (fst ?r)), snd ?r)" by (cases ?r; cases "fst ?r") auto
  from reserve_effect [OF this] show ?thesis
    by (auto simp: shelf_def want_def)
qed

text \<open>
  C2: No overselling. Over any sequence of reservation transactions, with any expected versions,
  the stock that is left is what was there minus the sum of the quantities reserved, it never
  falls below zero, and the version counts the successful reservations.
\<close>

theorem no_overselling:
  assumes "stock_t d k = Some row" and "0 \<le> st_available row"
    and "\<forall>req\<in>set reqs. rq_stock_id req = k"
  shows "\<exists>row'. stock_t (snd (reserve_run M now reqs d)) k = Some row'
    \<and> st_available row' = st_available row - sum_list (fst (reserve_run M now reqs d))
    \<and> 0 \<le> st_available row'
    \<and> st_version row' = st_version row + int (length (fst (reserve_run M now reqs d)))"
  using assms
proof (induction reqs arbitrary: d row)
  case Nil
  then show ?case by simp
next
  case (Cons req reqs)
  show ?case
  proof (cases rule: reserve_run_Cons [of M req d now reqs])
    case (failed e)
    then show ?thesis using Cons by simp
  next
    case (taken row0 d')
    let ?row = "(reserve_values req row0)\<lparr>st_updated_at := now\<rparr>"
    have "stock_t d' k = Some ?row" "0 \<le> st_available ?row" "row0 = row"
      using taken Cons.prems by (auto simp: reserve_values_def)
    with Cons.IH [of d' ?row] Cons.prems(3) taken(6) show ?thesis
      by (auto simp: reserve_values_def algebra_simps)
  qed
qed

theorem no_overselling_witness:
  "fst (reserve_run orm_default 9 [want 3 1, want 1 1, want 3 2, want 2 2] (shelf 5 1)) = [3, 2]
   \<and> map_option st_available (stock_t (snd (reserve_run orm_default 9
       [want 3 1, want 1 1, want 3 2, want 2 2] (shelf 5 1))) 4) = Some 0"
proof -
  have run: "fst (reserve_run orm_default 9 [want 3 1, want 1 1, want 3 2, want 2 2] (shelf 5 1)) = [3, 2]"
    by code_simp
  have "stock_t (shelf 5 1) 4 = Some (the (stock_t (shelf 5 1) 4))" "0 \<le> st_available (the (stock_t (shelf 5 1) 4))"
    by (simp_all add: shelf_def)
  from no_overselling [OF this, of "[want 3 1, want 1 1, want 3 2, want 2 2]" orm_default 9] run
  show ?thesis by (auto simp: want_def shelf_def)
qed

text \<open>
  Optimistic locking. Of all the reservations made against one version of a stock row, at most
  one succeeds.
\<close>

theorem one_winner_per_version:
  assumes "\<forall>req\<in>set reqs. rq_stock_id req = k \<and> rq_expected_version req = v"
  shows "length (fst (reserve_run M now reqs d)) \<le> 1"
proof -
  have none: "fst (reserve_run M now reqs d) = []"
    if "\<forall>req\<in>set reqs. rq_stock_id req = k \<and> rq_expected_version req = v"
      "\<forall>row. stock_t d k = Some row \<longrightarrow> st_version row \<noteq> v" for reqs d
    using that
  proof (induction reqs arbitrary: d)
    case (Cons req reqs)
    show ?case
      by (cases rule: reserve_run_Cons [of M req d now reqs]) (use Cons in auto)
  qed simp
  show ?thesis using assms
  proof (induction reqs arbitrary: d)
    case (Cons req reqs)
    show ?case
    proof (cases rule: reserve_run_Cons [of M req d now reqs])
      case (failed e)
      then show ?thesis using Cons by simp
    next
      case (taken row d')
      then have "\<forall>row. stock_t d' k = Some row \<longrightarrow> st_version row \<noteq> v"
        using Cons.prems by (auto simp: reserve_values_def)
      with none [of reqs d'] Cons.prems taken(6) show ?thesis by simp
    qed
  qed simp
qed

theorem one_winner_per_version_witness:
  "length (fst (reserve_run orm_plain 9 [want 1 1, want 1 1, want 2 1] (shelf 5 1))) \<le> 1"
  by (rule one_winner_per_version [of _ 4 1]) (simp add: want_def)

text \<open>
  A release adds its quantity to the row the database holds, whatever version the request
  names, and leaves the version alone; so a second release of the same request adds the quantity
  a second time.
\<close>

theorem release_adds_every_time:
  assumes "se_env s = []" and "stock_t (view s) (rl_stock_id req) = Some row"
    and "stock_checks row" and "stock_columns_ok row" and "0 < rl_quantity req"
    and "int32_ok (st_available row + rl_quantity req + rl_quantity req)"
  shows "\<exists>s1 s2. release M req s = (Inr 0, s1) \<and> release M req s1 = (Inr 0, s2)
    \<and> stock_t (view s1) (rl_stock_id req)
        = Some (row\<lparr>st_available := st_available row + rl_quantity req, st_updated_at := se_now s\<rparr>)
    \<and> stock_t (view s2) (rl_stock_id req)
        = Some (row\<lparr>st_available := st_available row + rl_quantity req + rl_quantity req,
                    st_updated_at := se_now s\<rparr>)"
proof -
  let ?k = "rl_stock_id req" and ?q = "rl_quantity req"
  have once: "\<exists>s'. release M req t = (Inr 0, s') \<and> se_env s' = [] \<and> se_now s' = se_now t
      \<and> stock_t (view s') ?k = Some (x\<lparr>st_available := st_available x + ?q, st_updated_at := se_now t\<rparr>)"
    if t: "se_env t = []" "stock_t (view t) ?k = Some x" "stock_checks x" "stock_columns_ok x"
      "int32_ok (st_available x + ?q)" for t x
  proof -
    have v: "stock_t (view (others_commit t)) ?k = Some x" using t by (simp del: view_simps)
    from release_row [OF assms(5) v t(3-5), of M] t(1) obtain s' where
      "release M req t = (Inr 0, s')" "se_env s' = []" "se_now s' = se_now t"
      "se_writes s' = (se_writes t)\<lparr>stock_t := (stock_t (se_writes t))(?k \<mapsto>
        (release_values req x)\<lparr>st_updated_at := se_now t\<rparr>)\<rparr>" by (auto simp del: view_simps)
    then show ?thesis by (simp add: release_values_def)
  qed
  let ?x = "row\<lparr>st_available := st_available row + ?q, st_updated_at := se_now s\<rparr>"
  have ok: "int32_ok (st_available row + ?q)"
    using assms(3,5,6) by (simp add: int32_ok_def stock_checks_def)
  from once [OF assms(1-4) ok] obtain s1 where s1: "release M req s = (Inr 0, s1)" "se_env s1 = []"
    "se_now s1 = se_now s" "stock_t (view s1) ?k = Some ?x" by (auto simp del: view_simps)
  have x: "stock_checks ?x" "stock_columns_ok ?x" "int32_ok (st_available ?x + ?q)"
    using assms(3-6) ok by (simp_all add: stock_checks_def stock_columns_ok_def)
  from once [OF s1(2,4) x] s1(3) obtain s2 where "release M req s1 = (Inr 0, s2)"
    "stock_t (view s2) ?k = Some (?x\<lparr>st_available := st_available ?x + ?q, st_updated_at := se_now s\<rparr>)"
    by (auto simp del: view_simps)
  with s1 show ?thesis by (intro exI [of _ s1] exI [of _ s2]) (simp del: view_simps)
qed

theorem release_adds_every_time_witness:
  "\<exists>s1 s2. release orm_default \<lparr>rl_stock_id = 4, rl_quantity = 2, rl_expected_version = 1\<rparr>
       (new_session (shelf 5 1) [] 9) = (Inr 0, s1)
     \<and> release orm_default \<lparr>rl_stock_id = 4, rl_quantity = 2, rl_expected_version = 1\<rparr> s1 = (Inr 0, s2)
     \<and> map_option st_available (stock_t (view s2) 4) = Some 9"
  using release_adds_every_time [of "new_session (shelf 5 1) [] 9"
      "\<lparr>rl_stock_id = 4, rl_quantity = 2, rl_expected_version = 1\<rparr>"
      "the (stock_t (shelf 5 1) 4)" orm_default]
  by (fastforce simp: shelf_def stock_checks_def stock_columns_ok_def int32_ok_def)

text \<open>
  The outcome of a reservation nobody interferes with, branch by branch: a non-positive quantity,
  a missing row, a version that moved on and too little stock each raise their own error and
  write nothing; otherwise the reservation succeeds.
\<close>

theorem reserve_decision:
  assumes "se_env s = []" and "se_stock_objs s (rq_stock_id req) = None"
    and "stock_t (view s) (rq_stock_id req) = found"
    and "\<And>row. found = Some row \<Longrightarrow> stock_checks row \<and> stock_columns_ok row \<and> int32_ok (st_version row + 1)"
  shows "fst (reserve M req s) =
    (if rq_quantity req \<le> 0 then Inl (ValueError ''quantity must be > 0'')
     else case found of
       None \<Rightarrow> Inl (stock_not_found (rq_stock_id req))
     | Some row \<Rightarrow>
         if st_version row \<noteq> rq_expected_version req then Inl (stale_version_error req row)
         else if st_available row < rq_quantity req then Inl (out_of_stock_error req row)
         else let y = orm_sync M (reserve_where req) (reserve_values req) row in
           Inr \<lparr>new_version = st_version y + 1, new_available = st_available y - rq_quantity req\<rparr>)
    \<and> (\<forall>e. fst (reserve M req s) = Inl e \<longrightarrow> se_writes (snd (reserve M req s)) = se_writes s)"
proof
  show "\<forall>e. fst (reserve M req s) = Inl e \<longrightarrow> se_writes (snd (reserve M req s)) = se_writes s"
    using reserve_error_clean(1) by (metis prod.collapse)
  show "fst (reserve M req s) =
    (if rq_quantity req \<le> 0 then Inl (ValueError ''quantity must be > 0'')
     else case found of
       None \<Rightarrow> Inl (stock_not_found (rq_stock_id req))
     | Some row \<Rightarrow>
         if st_version row \<noteq> rq_expected_version req then Inl (stale_version_error req row)
         else if st_available row < rq_quantity req then Inl (out_of_stock_error req row)
         else let y = orm_sync M (reserve_where req) (reserve_values req) row in
           Inr \<lparr>new_version = st_version y + 1, new_available = st_available y - rq_quantity req\<rparr>)"
  proof (cases found)
    case None
    then show ?thesis using assms
      by (simp add: reserve_def read_stock_def seq_def Let_def del: view_simps)
  next
    case (Some row)
    let ?t = "s\<lparr>se_stock_objs := (se_stock_objs s)(rq_stock_id req \<mapsto> row)\<rparr>"
    have rd: "read_stock M (rq_stock_id req) s = (Inr (Some row), ?t)"
      using assms Some by (simp add: read_stock_def Let_def del: view_simps)
    have v: "stock_t (view ?t) (rq_stock_id req) = Some row" using assms(3) Some by simp
    have ok: "stock_checks row" "stock_columns_ok row" "int32_ok (st_version row + 1)"
      using assms(4) [OF Some] by simp_all
    show ?thesis using Some rd v ok assms(1)
      by (auto simp: reserve_def seq_def update_stock_def Let_def reserve_where_def
          reserve_values_def reserve_outcome_def stock_checks_def stock_columns_ok_def int32_ok_def
          simp del: view_simps)
  qed
qed

theorem reserve_decision_witness:
  "fst (reserve orm_plain (want 6 1) (new_session (shelf 5 1) [] 9))
   = Inl (out_of_stock_error (want 6 1) (the (stock_t (shelf 5 1) 4)))"
  using reserve_decision [of "new_session (shelf 5 1) [] 9" "want 6 1" "Some (the (stock_t (shelf 5 1) 4))" orm_plain]
  by (simp add: shelf_def want_def stock_checks_def stock_columns_ok_def int32_ok_def)

end
