(* ===== verification/Orders.thy ===== *)
theory Orders
  imports Inventory Event_Codec
begin

text \<open>
  The order services of \<open>src/modules/orders/services.py\<close>: \<open>place_order\<close>, which reserves stock,
  creates the order and writes its outbox event in one transaction, and \<open>update_order_status\<close>,
  which the payment events drive.
\<close>

section \<open>place\_order\<close>

record place_order_request =
  po_user_id :: uuid
  po_stock_id :: uuid
  po_quantity :: int

record place_order_result =
  pr_order :: order
  pr_outbox_event :: outbox_event
  pr_envelope :: event_envelope

text \<open>The identifiers drawn with \<open>uuid.uuid4()\<close> and the time of the event.\<close>

record place_io =
  pio_order_id :: uuid
  pio_event_id :: uuid
  pio_occurred_at :: string

definition MAX_RESERVE_RETRIES :: nat where
  "MAX_RESERVE_RETRIES = 3"

definition make_order :: "int \<Rightarrow> place_io \<Rightarrow> place_order_request \<Rightarrow> reserve_result \<Rightarrow> stock \<Rightarrow> order" where
  "make_order now io req res x =
     \<lparr>or_id = pio_order_id io, or_user_id = po_user_id req, or_stock_id = po_stock_id req,
      or_quantity = po_quantity req, or_expected_version = new_version res,
      or_total_amount_minor_units = st_price_minor_units x * po_quantity req,
      or_currency = st_currency x, or_status = O_RESERVED,
      or_created_at = now, or_updated_at = now\<rparr>"

definition order_created_envelope :: "place_io \<Rightarrow> order \<Rightarrow> event_envelope" where
  "order_created_envelope io x =
     \<lparr>event_id = pio_event_id io, event_type = ''orders.order_created'', schema_version = 1,
      aggregate_type = ''Order'', aggregate_id = str_uuid (or_id x),
      correlation_id = None, causation_id = None, occurred_at = pio_occurred_at io,
      payload = JDict
        [(''order_id'', JStr (str_uuid (or_id x))),
         (''user_id'', JStr (str_uuid (or_user_id x))),
         (''stock_id'', JStr (str_uuid (or_stock_id x))),
         (''quantity'', JInt (or_quantity x)),
         (''total_amount_minor_units'', JInt (or_total_amount_minor_units x)),
         (''currency'', JStr (or_currency x))]\<rparr>"

definition order_outbox :: "'w codec \<Rightarrow> int \<Rightarrow> event_envelope \<Rightarrow> outbox_event" where
  "order_outbox C now e =
     new_outbox_event now (event_id e) (aggregate_type e) (aggregate_id e) (event_type e)
       ''orders.events'' (cd_dump C e) (content_hash C e)"

text \<open>After the reservation: build the order and its event, add both, flush.\<close>

definition finish_order ::
    "'w codec \<Rightarrow> place_io \<Rightarrow> place_order_request \<Rightarrow> reserve_result \<Rightarrow> stock
     \<Rightarrow> (session, exc, place_order_result) comp" where
  "finish_order C io req res x s =
     (let ord = make_order (se_now s) io req res x;
          env = order_created_envelope io ord;
          obx = order_outbox C (se_now s) env in
      seq (session_add (InsertOrder ord)) (\<lambda>_.
      seq (session_add (InsertOutbox obx)) (\<lambda>_.
      seq session_flush (\<lambda>_.
      ret \<lparr>pr_order = ord, pr_outbox_event = obx, pr_envelope = env\<rparr>))) s)"

text \<open>
  The retry loop: \<open>n\<close> attempts are left and \<open>last_exc\<close> is the error of the last one. The price
  and the currency are read from the session's \<open>Stock\<close> object after the reservation.
\<close>

fun place_attempts ::
    "orm \<Rightarrow> 'w codec \<Rightarrow> place_io \<Rightarrow> place_order_request \<Rightarrow> nat \<Rightarrow> exc option
     \<Rightarrow> (session, exc, place_order_result) comp" where
  "place_attempts M C io req 0 last_exc =
     (case last_exc of None \<Rightarrow> raise_exc (OtherError ''AssertionError'' []) | Some e \<Rightarrow> raise_exc e)"
| "place_attempts M C io req (Suc n) last_exc =
     seq (get_stock M (po_stock_id req)) (\<lambda>x s.
       case reserve M \<lparr>rq_stock_id = po_stock_id req, rq_quantity = po_quantity req,
                       rq_expected_version = st_version x\<rparr> s of
         (Inl e, s') \<Rightarrow>
           if exc_isinstance e ConcurrentUpdateError
           then place_attempts M C io req n (Some e) s'
           else (Inl e, s')
       | (Inr res, s') \<Rightarrow>
           finish_order C io req res
             (case se_stock_objs s' (po_stock_id req) of None \<Rightarrow> x | Some y \<Rightarrow> y) s')"

definition place_order ::
    "orm \<Rightarrow> 'w codec \<Rightarrow> place_io \<Rightarrow> place_order_request \<Rightarrow> (session, exc, place_order_result) comp" where
  "place_order M C io req =
     (if po_quantity req \<le> 0 then raise_exc (ValueError ''quantity must be > 0'')
      else with_schemas [''orders'', ''inventory'']
        (place_attempts M C io req MAX_RESERVE_RETRIES None))"

section \<open>update\_order\_status\<close>

text \<open>The object of a row: the changed one of the unit of work, or else the row itself.\<close>

fun pending_order :: "uuid \<Rightarrow> row list \<Rightarrow> order option" where
  "pending_order oid [] = None"
| "pending_order oid (r # rs) =
     (case pending_order oid rs of Some x \<Rightarrow> Some x
      | None \<Rightarrow> (case r of UpdateOrder x \<Rightarrow> if or_id x = oid then Some x else None
                 | InsertOrder x \<Rightarrow> if or_id x = oid then Some x else None
                 | _ \<Rightarrow> None))"

definition order_object :: "uuid \<Rightarrow> session \<Rightarrow> order option" where
  "order_object oid s =
     (case orders_t (view s) oid of None \<Rightarrow> None
      | Some row \<Rightarrow> (case pending_order oid (se_pending s) of Some x \<Rightarrow> Some x | None \<Rightarrow> Some row))"

definition select_order :: "uuid \<Rightarrow> (session, exc, order option) comp" where
  "select_order oid s0 = (let s = others_commit s0 in (Inr (order_object oid s), s))"

definition select_order_for_update :: "uuid \<Rightarrow> (session, exc, order option) comp" where
  "select_order_for_update oid s0 =
     (let s = others_commit s0 in
      (Inr (order_object oid s),
       s\<lparr>se_locked_orders := (if orders_t (view s) oid = None then se_locked_orders s
                              else insert oid (se_locked_orders s))\<rparr>))"

definition order_not_found :: "uuid \<Rightarrow> exc" where
  "order_not_found oid = nimbus_error OrderNotFoundError (Some ''Order does not exist.'')
     (Some [(''order_id'', JStr (str_uuid oid))])"

definition update_order_status :: "uuid \<Rightarrow> order_status \<Rightarrow> (session, exc, order) comp" where
  "update_order_status oid new_status =
     (if new_status \<notin> {O_PAID, O_FAILED}
      then raise_exc (ValueError (''update_order_status only supports PAID or FAILED, got ''
             @ order_status_value new_status))
      else seq (select_order_for_update oid) (\<lambda>found.
        case found of
          None \<Rightarrow> raise_exc (order_not_found oid)
        | Some x \<Rightarrow>
            if or_status x = new_status then ret x
            else if new_status = O_PAID \<and> or_status x \<noteq> O_RESERVED then ret x
            else if new_status = O_FAILED \<and> or_status x \<notin> {O_PENDING, O_RESERVED} then ret x
            else let x' = x\<lparr>or_status := new_status\<rparr> in
              seq (session_add (UpdateOrder x')) (\<lambda>_. ret x')))"

text \<open>The lifecycle the service promises, as a relation on statuses.\<close>

inductive order_transition :: "order_status \<Rightarrow> order_status \<Rightarrow> bool" where
  captured: "order_transition O_RESERVED O_PAID"
| failed_pending: "order_transition O_PENDING O_FAILED"
| failed_reserved: "order_transition O_RESERVED O_FAILED"

inductive_simps order_transition_to_paid: "order_transition a O_PAID"
inductive_simps order_transition_to_failed: "order_transition a O_FAILED"
inductive_cases order_transition_from_paid: "order_transition O_PAID a"
inductive_cases order_transition_from_failed: "order_transition O_FAILED a"

section \<open>The tables a statement sequence sees\<close>

text \<open>
  The part of a session that decides what its next statement sees. Statements that fail change
  it only by letting other transactions commit.
\<close>

definition tables :: "session \<Rightarrow> db \<times> db \<times> uuid set \<times> uuid set \<times> (db \<Rightarrow> db) list \<times> int" where
  "tables s = (se_db s, se_writes s, se_locked_payments s, se_locked_orders s, se_env s, se_now s)"

lemma tables_others_commit:
  "tables s = tables t \<Longrightarrow> tables (others_commit s) = tables (others_commit t)"
  by (auto simp: tables_def others_commit_def Let_def split: list.splits)

lemma tables_others_commit_pow:
  "tables s = tables t \<Longrightarrow> tables ((others_commit ^^ n) s) = tables ((others_commit ^^ n) t)"
  by (induction n) (auto intro: tables_others_commit)

lemma tables_view: "tables s = tables t \<Longrightarrow> view s = view t"
  by (simp add: tables_def view_def)

lemma tables_now: "tables s = tables t \<Longrightarrow> se_now s = se_now t"
  by (simp add: tables_def)

lemma tables_writes: "tables s = tables t \<Longrightarrow> se_writes s = se_writes t"
  by (simp add: tables_def)

lemma others_commit_pow_frame [simp]:
  "se_writes ((others_commit ^^ n) s) = se_writes s"
  "se_now ((others_commit ^^ n) s) = se_now s"
  "se_pending ((others_commit ^^ n) s) = se_pending s"
  by (induction n) simp_all

lemma read_stock_tables: "read_stock M k s = (r, s') \<Longrightarrow> tables s' = tables (others_commit s)"
  by (auto simp: read_stock_def Let_def tables_def split: option.splits)

lemma update_stock_miss_tables:
  "update_stock M k P F s = (r, s') \<Longrightarrow> r \<noteq> Inr 1 \<Longrightarrow> tables s' = tables (others_commit s)"
  by (auto simp: update_stock_def Let_def tables_def split: option.splits if_splits)

lemma get_stock_tables:
  assumes "get_stock M k s = (r, s')"
  shows "tables s' = tables (others_commit s)"
proof -
  obtain x s1 where "read_stock M k s = (Inr x, s1)" using read_stock_Inr by blast
  with assms read_stock_tables show ?thesis
    by (auto simp: get_stock_def split: option.splits)
qed

lemma reserve_error_tables:
  assumes "reserve M req s = (Inl e, s')"
  shows "\<exists>n. tables s' = tables ((others_commit ^^ n) s)"
proof (cases "rq_quantity req \<le> 0")
  case True
  then have "tables s' = tables ((others_commit ^^ 0) s)" using assms by (simp add: reserve_def)
  then show ?thesis ..
next
  case False
  obtain found s1 where rd: "read_stock M (rq_stock_id req) s = (Inr found, s1)"
    using read_stock_Inr by blast
  have t1: "tables s1 = tables ((others_commit ^^ 1) s)"
    using read_stock_tables [OF rd] by simp
  obtain r s2 where
    up: "update_stock M (rq_stock_id req) (reserve_where req) (reserve_values req) s1 = (r, s2)"
    by fastforce
  have t2: "tables s2 = tables ((others_commit ^^ 2) s)" if "r \<noteq> Inr 1"
    using update_stock_miss_tables [OF up that] tables_others_commit [OF t1]
    by (simp add: numeral_2_eq_2)
  have "tables s' = tables s1 \<or> tables s' = tables s2 \<and> r \<noteq> Inr 1"
    using assms False rd up
    by (cases r) (auto simp: reserve_def seq_def split: option.splits if_splits)
  then show ?thesis using t1 t2 by metis
qed

section \<open>Facts about place\_order\<close>

lemma order_created_envelope_valid: "envelope_valid (order_created_envelope io x)"
  by (simp add: envelope_valid_def order_created_envelope_def)

lemma finish_order_InrE:
  assumes "finish_order C io req res x s = (Inr out, s')" and "se_pending s = []"
  obtains ord obx where "ord = make_order (se_now s) io req res x"
    and "obx = order_outbox C (se_now s) (order_created_envelope io ord)"
    and "out = \<lparr>pr_order = ord, pr_outbox_event = obx, pr_envelope = order_created_envelope io ord\<rparr>"
    and "session_flush (s\<lparr>se_pending := [InsertOrder ord, InsertOutbox obx]\<rparr>) = (Inr (), s')"
  using assms by (auto simp: finish_order_def Let_def elim!: seq_InrE)

lemma finish_order_error:
  assumes "finish_order C io req res x s = (Inl e, s')"
  shows "se_writes s' = empty_db" and "se_pending s' = []"
    and "se_env s = [] \<Longrightarrow> se_db s' = se_db s"
  using assms
  by (auto simp: finish_order_def Let_def seq_def split: prod.splits sum.splits
      dest!: session_flush_error)

text \<open>What a completed order has written, relative to the row its UPDATE found.\<close>

definition order_written ::
    "'w codec \<Rightarrow> place_io \<Rightarrow> place_order_request \<Rightarrow> session \<Rightarrow> stock \<Rightarrow> place_order_result \<Rightarrow> session \<Rightarrow> bool" where
  "order_written C io req s row out s' \<longleftrightarrow>
     se_writes s' = (se_writes s)\<lparr>
       stock_t := (stock_t (se_writes s))(po_stock_id req \<mapsto>
         row\<lparr>st_available := st_available row - po_quantity req, st_version := st_version row + 1,
             st_updated_at := se_now s\<rparr>),
       orders_t := (orders_t (se_writes s))(pio_order_id io \<mapsto> pr_order out),
       outbox_t := outbox_t (se_writes s) @ [pr_outbox_event out]\<rparr> \<and>
     se_pending s' = [] \<and>
     or_id (pr_order out) = pio_order_id io \<and> or_status (pr_order out) = O_RESERVED \<and>
     or_user_id (pr_order out) = po_user_id req \<and> or_stock_id (pr_order out) = po_stock_id req \<and>
     or_quantity (pr_order out) = po_quantity req \<and>
     order_columns_ok (pr_order out) \<and> order_checks (pr_order out) \<and>
     pr_envelope out = order_created_envelope io (pr_order out) \<and>
     pr_outbox_event out = order_outbox C (se_now s) (pr_envelope out)"

lemma attempt_success:
  assumes res: "reserve M \<lparr>rq_stock_id = po_stock_id req, rq_quantity = po_quantity req,
                 rq_expected_version = v\<rparr> s1 = (Inr res, s2)"
    and fin: "finish_order C io req res x s2 = (Inr out, s')"
    and pend: "se_pending s1 = []"
  obtains row where
    "stock_t (view ((others_commit ^^ 2) s1)) (po_stock_id req) = Some row"
    and "po_quantity req \<le> st_available row" and "0 < po_quantity req"
    and "order_written C io req s1 row out s'"
proof -
  from res obtain row where
    row: "stock_t (view (others_commit (others_commit s1))) (po_stock_id req) = Some row"
    and q: "0 < po_quantity req" "po_quantity req \<le> st_available row"
    and w: "se_writes s2 = (se_writes s1)\<lparr>stock_t := (stock_t (se_writes s1))(po_stock_id req \<mapsto>
           (row\<lparr>st_available := st_available row - po_quantity req, st_version := st_version row + 1,
             st_updated_at := se_now s1\<rparr>))\<rparr>"
    by (rule reserve_success) (auto simp: reserve_values_def simp del: view_simps)
  from reserve_frame [OF res] pend have pend2: "se_pending s2 = []" and now: "se_now s2 = se_now s1"
    by auto
  from fin pend2 obtain ord obx where ord: "ord = make_order (se_now s2) io req res x"
    and obx: "obx = order_outbox C (se_now s2) (order_created_envelope io ord)"
    and out: "out = \<lparr>pr_order = ord, pr_outbox_event = obx, pr_envelope = order_created_envelope io ord\<rparr>"
    and fl: "session_flush (s2\<lparr>se_pending := [InsertOrder ord, InsertOutbox obx]\<rparr>) = (Inr (), s')"
    by (rule finish_order_InrE)
  have ids: "or_id ord = pio_order_id io \<and> or_status ord = O_RESERVED
      \<and> or_user_id ord = po_user_id req \<and> or_stock_id ord = po_stock_id req
      \<and> or_quantity ord = po_quantity req"
    by (simp add: ord make_order_def)
  have "order_written C io req s1 row out s'"
    using flush_order_and_outbox [OF fl, of ord obx] w ids
    by (simp add: order_written_def out obx now)
  with row q show thesis by (intro that) (simp_all add: numeral_2_eq_2 del: view_simps)
qed

lemma order_written_cong:
  "se_writes s = se_writes t \<Longrightarrow> se_now s = se_now t \<Longrightarrow>
     order_written C io req s row out s' \<longleftrightarrow> order_written C io req t row out s'"
  by (simp add: order_written_def)

text \<open>One unfolding of the retry loop, by the outcome of the attempt.\<close>

lemma place_attempts_cases:
  obtains (missing) s1 where "get_stock M (po_stock_id req) s = (Inl (stock_not_found (po_stock_id req)), s1)"
      and "place_attempts M C io req (Suc n) lst s = (Inl (stock_not_found (po_stock_id req)), s1)"
    | (raced) x s1 e s2 where "get_stock M (po_stock_id req) s = (Inr x, s1)"
      and "reserve M \<lparr>rq_stock_id = po_stock_id req, rq_quantity = po_quantity req,
             rq_expected_version = st_version x\<rparr> s1 = (Inl e, s2)"
      and "exc_isinstance e ConcurrentUpdateError"
      and "place_attempts M C io req (Suc n) lst s = place_attempts M C io req n (Some e) s2"
    | (refused) x s1 e s2 where "get_stock M (po_stock_id req) s = (Inr x, s1)"
      and "reserve M \<lparr>rq_stock_id = po_stock_id req, rq_quantity = po_quantity req,
             rq_expected_version = st_version x\<rparr> s1 = (Inl e, s2)"
      and "\<not> exc_isinstance e ConcurrentUpdateError"
      and "place_attempts M C io req (Suc n) lst s = (Inl e, s2)"
    | (reserved) x s1 res s2 where "get_stock M (po_stock_id req) s = (Inr x, s1)"
      and "reserve M \<lparr>rq_stock_id = po_stock_id req, rq_quantity = po_quantity req,
             rq_expected_version = st_version x\<rparr> s1 = (Inr res, s2)"
      and "place_attempts M C io req (Suc n) lst s = finish_order C io req res
             (case se_stock_objs s2 (po_stock_id req) of None \<Rightarrow> x | Some y \<Rightarrow> y) s2"
proof -
  obtain g s1 where g: "get_stock M (po_stock_id req) s = (g, s1)" by fastforce
  show thesis
  proof (cases g)
    case (Inl e)
    then have "e = stock_not_found (po_stock_id req)"
      using g read_stock_Inr [of M "po_stock_id req" s]
      by (auto simp: get_stock_def split: option.splits)
    with Inl g show thesis by (intro missing [of s1]) simp_all
  next
    case (Inr x)
    obtain r s2 where r: "reserve M \<lparr>rq_stock_id = po_stock_id req, rq_quantity = po_quantity req,
        rq_expected_version = st_version x\<rparr> s1 = (r, s2)" by fastforce
    show thesis
    proof (cases r)
      case (Inl e)
      with g r \<open>g = Inr x\<close> raced [of x s1 e s2] refused [of x s1 e s2] show thesis
        by (cases "exc_isinstance e ConcurrentUpdateError") simp_all
    next
      case (Inr res)
      with g r \<open>g = Inr x\<close> reserved [of x s1 res s2] show thesis by simp
    qed
  qed
qed

lemma place_attempts_success:
  assumes "place_attempts M C io req n lst s = (Inr out, s')" and "se_pending s = []"
  shows "\<exists>k row. stock_t (view ((others_commit ^^ k) s)) (po_stock_id req) = Some row
    \<and> 0 < po_quantity req \<and> po_quantity req \<le> st_available row \<and> order_written C io req s row out s'"
  using assms
proof (induction n arbitrary: lst s)
  case 0
  then show ?case by (simp split: option.splits)
next
  case (Suc n)
  show ?case
  proof (cases rule: place_attempts_cases [of M req s C io n lst])
    case (missing s1)
    then show ?thesis using Suc.prems by simp
  next
    case (refused x s1 e s2)
    then show ?thesis using Suc.prems by simp
  next
    case (raced x s1 e s2)
    note g = get_stock_tables [OF raced(1)] get_stock_frame [OF raced(1)]
    from reserve_error_tables [OF raced(2)]
    obtain m where m: "tables s2 = tables ((others_commit ^^ m) s1)" ..
    have "tables s2 = tables ((others_commit ^^ (m + 1)) s)"
      using m tables_others_commit_pow [OF g(1), of m] by (simp add: funpow_swap1)
    then have t: "view ((others_commit ^^ j) s2) = view ((others_commit ^^ (j + (m + 1))) s)" for j
      using tables_view [OF tables_others_commit_pow [of s2 "(others_commit ^^ (m + 1)) s" j]]
      by (simp only: funpow_add comp_apply)
    have "se_pending s2 = []"
      using reserve_error_clean [OF raced(2)] g Suc.prems(2) by simp
    moreover have "place_attempts M C io req n (Some e) s2 = (Inr out, s')"
      using raced(4) Suc.prems(1) by simp
    ultimately obtain k row where
      "stock_t (view ((others_commit ^^ k) s2)) (po_stock_id req) = Some row"
      "0 < po_quantity req" "po_quantity req \<le> st_available row" "order_written C io req s2 row out s'"
      using Suc.IH [of "Some e" s2] by blast
    moreover have "se_writes s2 = se_writes s" "se_now s2 = se_now s"
      using reserve_error_clean [OF raced(2)] reserve_frame [OF raced(2)] g by simp_all
    ultimately show ?thesis
      using order_written_cong [of s2 s] by (metis t)
  next
    case (reserved x s1 res s2)
    note g = get_stock_tables [OF reserved(1)] get_stock_frame [OF reserved(1)]
    from reserved(2,3) Suc.prems g obtain row where
      row: "stock_t (view ((others_commit ^^ 2) s1)) (po_stock_id req) = Some row"
      and q: "po_quantity req \<le> st_available row" "0 < po_quantity req"
      and w: "order_written C io req s1 row out s'"
      by (auto elim!: attempt_success simp del: view_simps)
    have "view ((others_commit ^^ 2) s1) = view ((others_commit ^^ 3) s)"
      using tables_view [OF tables_others_commit_pow [OF g(1), of 2]]
      by (simp add: numeral_3_eq_3 numeral_2_eq_2)
    then show ?thesis
      using row q w order_written_cong [of s1 s] g by metis
  qed
qed

lemma place_attempts_error:
  assumes "place_attempts M C io req n lst s = (Inl e, s')" and "se_pending s = []"
  shows "se_writes s' \<in> {se_writes s, empty_db} \<and> se_pending s' = []
    \<and> (se_env s = [] \<longrightarrow> se_db s' = se_db s)"
  using assms
proof (induction n arbitrary: lst s)
  case 0
  then show ?case by (auto split: option.splits)
next
  case (Suc n)
  have env: "se_db t = se_db s \<and> se_env t = []"
    if "se_env s = []" "get_stock M k s = (r, t)" for k r t
    using get_stock_tables [OF that(2)] that(1) by (simp add: tables_def)
  show ?case
  proof (cases rule: place_attempts_cases [of M req s C io n lst])
    case (missing s1)
    then show ?thesis using Suc.prems get_stock_frame [OF missing(1)] env by auto
  next
    case (refused x s1 e' s2)
    then show ?thesis using Suc.prems get_stock_frame [OF refused(1)] env
        reserve_error_clean [OF refused(2)] reserve_frame [OF refused(2)] by auto
  next
    case (raced x s1 e' s2)
    have "se_pending s2 = []" "se_writes s2 = se_writes s"
      using reserve_error_clean [OF raced(2)] get_stock_frame [OF raced(1)] Suc.prems by simp_all
    moreover have "se_env s = [] \<longrightarrow> se_env s2 = [] \<and> se_db s2 = se_db s"
      using reserve_frame [OF raced(2)] env [OF _ raced(1)] by auto
    ultimately show ?thesis using Suc.IH [of "Some e'" s2] Suc.prems raced(4) by auto
  next
    case (reserved x s1 res s2)
    have "se_env s = [] \<longrightarrow> se_env s2 = [] \<and> se_db s2 = se_db s"
      using reserve_frame [OF reserved(2)] env [OF _ reserved(1)] by auto
    moreover have fin: "finish_order C io req res
        (case se_stock_objs s2 (po_stock_id req) of None \<Rightarrow> x | Some y \<Rightarrow> y) s2 = (Inl e, s')"
      using Suc.prems(1) reserved(3) by simp
    ultimately show ?thesis using finish_order_error [OF fin] by simp
  qed
qed

lemma with_schemas_orders_inventory:
  "with_schemas [''orders'', ''inventory''] body s = body (others_commit s)"
proof -
  have "schema_ident_ok ''orders''" "schema_ident_ok ''inventory''"
    by (simp_all add: schema_ident_ok_def char_isalnum_def char_isdigit_def py_isalnum_def py_isupper_def py_islower_def py_isdigit_def Let_def)
  then show ?thesis by (simp add: with_schemas_def with_schemas_statement_def seq_def)
qed

lemma place_order_unfold:
  "0 < po_quantity req \<Longrightarrow>
     place_order M C io req s = place_attempts M C io req MAX_RESERVE_RETRIES None (others_commit s)"
  by (simp add: place_order_def with_schemas_orders_inventory)

lemma place_order_success:
  assumes "place_order M C io req s = (Inr out, s')" and "se_pending s = []"
  obtains k row where "stock_t (view ((others_commit ^^ k) s)) (po_stock_id req) = Some row"
    and "0 < po_quantity req" and "po_quantity req \<le> st_available row"
    and "order_written C io req s row out s'"
proof -
  have q: "0 < po_quantity req" using assms(1) by (auto simp: place_order_def split: if_splits)
  with assms have "place_attempts M C io req MAX_RESERVE_RETRIES None (others_commit s) = (Inr out, s')"
    by (simp add: place_order_unfold)
  from place_attempts_success [OF this] assms(2) obtain k row where
    "stock_t (view ((others_commit ^^ k) (others_commit s))) (po_stock_id req) = Some row"
    and "po_quantity req \<le> st_available row" and "order_written C io req (others_commit s) row out s'"
    by (auto simp del: view_simps)
  moreover have "order_written C io req (others_commit s) row out s'
      \<longleftrightarrow> order_written C io req s row out s'"
    by (rule order_written_cong) simp_all
  ultimately show thesis
    using q that [of "Suc k" row] by (simp add: funpow_swap1 del: view_simps)
qed

lemma place_order_error:
  assumes "place_order M C io req s = (Inl e, s')" and "se_pending s = []"
  shows "se_writes s' \<in> {se_writes s, empty_db} \<and> se_pending s' = []
    \<and> (se_env s = [] \<longrightarrow> se_db s' = se_db s)"
proof (cases "0 < po_quantity req")
  case True
  then show ?thesis
    using assms place_attempts_error [of M C io req MAX_RESERVE_RETRIES None "others_commit s" e s']
    by (auto simp: place_order_unfold)
next
  case False
  then show ?thesis using assms by (auto simp: place_order_def)
qed

section \<open>Facts about update\_order\_status\<close>

text \<open>The session after the SELECT \<dots> FOR UPDATE of an existing order.\<close>

definition order_locked :: "uuid \<Rightarrow> session \<Rightarrow> session" where
  "order_locked oid s = (others_commit s)\<lparr>se_locked_orders := insert oid (se_locked_orders s)\<rparr>"

lemma order_transition_iff:
  "order_transition a b \<longleftrightarrow> b = O_PAID \<and> a = O_RESERVED \<or> b = O_FAILED \<and> a \<in> {O_PENDING, O_RESERVED}"
  by (auto elim: order_transition.cases intro: order_transition.intros)

lemma update_unsupported:
  "new \<notin> {O_PAID, O_FAILED} \<Longrightarrow> update_order_status oid new s =
     (Inl (ValueError (''update_order_status only supports PAID or FAILED, got '' @ order_status_value new)), s)"
  by (simp add: update_order_status_def)

lemma update_missing:
  assumes "new \<in> {O_PAID, O_FAILED}" and "orders_t (view (others_commit s)) oid = None"
  shows "update_order_status oid new s = (Inl (order_not_found oid), others_commit s)"
  using assms
  by (simp add: update_order_status_def select_order_for_update_def order_object_def Let_def seq_def
      del: view_simps)

lemma update_found:
  assumes "new \<in> {O_PAID, O_FAILED}" and "orders_t (view (others_commit s)) oid = Some row"
    and "x = (case pending_order oid (se_pending s) of Some y \<Rightarrow> y | None \<Rightarrow> row)"
  shows "update_order_status oid new s =
    (if order_transition (or_status x) new
     then (Inr (x\<lparr>or_status := new\<rparr>), (order_locked oid s)\<lparr>se_pending := se_pending s @ [UpdateOrder (x\<lparr>or_status := new\<rparr>)]\<rparr>)
     else (Inr x, order_locked oid s))"
proof -
  have sel: "select_order_for_update oid s = (Inr (Some x), order_locked oid s)"
    using assms(2,3)
    by (simp add: select_order_for_update_def order_object_def order_locked_def Let_def
        del: view_simps split: option.splits)
  have pend: "se_pending (order_locked oid s) = se_pending s" by (simp add: order_locked_def)
  show ?thesis
    using assms(1) sel pend
    by (cases "or_status x") (auto simp: update_order_status_def order_transition_iff Let_def)
qed

lemma update_frame:
  assumes "update_order_status oid new s = (r, s')"
  shows "se_writes s' = se_writes s" and "se_now s' = se_now s"
    and "se_db s' \<in> {se_db s, se_db (others_commit s)}"
    and "se_env s = [] \<Longrightarrow> se_db s' = se_db s \<and> se_env s' = []"
    and "r = Inl e \<Longrightarrow> se_pending s' = se_pending s"
proof -
  have "se_writes s' = se_writes s \<and> se_now s' = se_now s \<and> se_db s' \<in> {se_db s, se_db (others_commit s)}
      \<and> (se_env s = [] \<longrightarrow> se_db s' = se_db s \<and> se_env s' = []) \<and> (r = Inl e \<longrightarrow> se_pending s' = se_pending s)"
  proof (cases "new \<in> {O_PAID, O_FAILED}")
    case False
    then show ?thesis using assms update_unsupported by auto
  next
    case True
    show ?thesis
    proof (cases "orders_t (view (others_commit s)) oid")
      case None
      then show ?thesis using assms update_missing [OF True] by auto
    next
      case (Some row)
      then show ?thesis using assms update_found [OF True Some HOL.refl]
        by (auto simp: order_locked_def split: if_splits)
    qed
  qed
  then show "se_writes s' = se_writes s" and "se_now s' = se_now s"
    and "se_db s' \<in> {se_db s, se_db (others_commit s)}"
    and "se_env s = [] \<Longrightarrow> se_db s' = se_db s \<and> se_env s' = []"
    and "r = Inl e \<Longrightarrow> se_pending s' = se_pending s" by simp_all
qed

lemma pending_order_append_update [simp]:
  "or_id x = oid \<Longrightarrow> pending_order oid (rs @ [UpdateOrder x]) = Some x"
  by (induction rs) simp_all

interpretation update_svc: service "\<lambda>(oid, new). update_order_status oid new"
  by unfold_locales (use update_frame in \<open>auto split: prod.splits\<close>)

section \<open>The transaction contract of place\_order\<close>

lemma session_flush_quiet:
  assumes "session_flush s = (r, s')" and "se_env s = []"
  shows "se_db s' = se_db s \<and> se_env s' = []"
  using assms by (auto simp: session_flush_def Let_def split: sum.splits dest: flush_rows_frame)

lemma finish_order_quiet:
  assumes "finish_order C io req res x s = (r, s')" and "se_env s = []"
  shows "se_db s' = se_db s \<and> se_env s' = []"
proof -
  obtain rs r1 where fl: "session_flush (s\<lparr>se_pending := rs\<rparr>) = (r1, s')"
    using assms(1) by (auto simp: finish_order_def Let_def seq_def split: prod.splits sum.splits)
  show ?thesis using session_flush_quiet [OF fl] assms(2) by simp
qed

lemma place_attempts_quiet:
  assumes "place_attempts M C io req n lst s = (r, s')" and "se_env s = []"
  shows "se_db s' = se_db s \<and> se_env s' = []"
  using assms
proof (induction n arbitrary: lst s)
  case 0
  then show ?case by (auto split: option.splits)
next
  case (Suc n)
  show ?case
  proof (cases rule: place_attempts_cases [of M req s C io n lst])
    case (missing s1)
    then show ?thesis using Suc.prems get_stock_frame(4,5) [OF missing(1)] by simp
  next
    case (refused x s1 e s2)
    then show ?thesis
      using Suc.prems get_stock_frame(4,5) [OF refused(1)] reserve_frame [OF refused(2)] by auto
  next
    case (raced x s1 e s2)
    then have "se_env s2 = []" "se_db s2 = se_db s"
      using Suc.prems get_stock_frame(4,5) [OF raced(1)] reserve_frame [OF raced(2)] by simp_all
    then show ?thesis using Suc.IH [of "Some e" s2] Suc.prems(1) raced(4) by simp
  next
    case (reserved x s1 res s2)
    then have "se_env s2 = []" "se_db s2 = se_db s"
      using Suc.prems get_stock_frame(4,5) [OF reserved(1)] reserve_frame [OF reserved(2)] by simp_all
    then show ?thesis using finish_order_quiet Suc.prems(1) reserved(3) by metis
  qed
qed

lemma place_order_quiet:
  assumes "place_order M C io req s = (r, s')" and "se_env s = []"
  shows "se_db s' = se_db s \<and> se_env s' = []"
proof (cases "0 < po_quantity req")
  case True
  have "place_attempts M C io req MAX_RESERVE_RETRIES None s = (r, s')"
    using assms place_order_unfold [OF True, of M C io s] others_commit_none [OF assms(2)] by metis
  then show ?thesis by (rule place_attempts_quiet [OF _ assms(2)])
qed (use assms in \<open>auto simp: place_order_def\<close>)

interpretation place_order_svc: service "\<lambda>(io, req). place_order M C io req" for M C
  by unfold_locales
    (use place_order_quiet [of M C] place_order_error [of M C] in \<open>auto split: prod.splits\<close>)

lemma commit_flushed:
  assumes "session_commit oc s = (Inr u, s')" and "se_pending s = []"
  shows "se_db s' = view (others_commit s)"
  using assms
  by (auto simp: session_commit_def session_flush_def Let_def view_def split: option.splits elim!: seq_InrE)

section \<open>Properties\<close>

text \<open>
  C7: An order commits as a whole. If \<open>place_order\<close> returns in a fresh transaction, then whatever
  other transactions did between its statements and however often it retried, there is a moment after
  one of their commits at which the committed stock row had the ordered quantity; committing the order
  stores that row less exactly this quantity, with the next version, inserts the order as RESERVED, and appends its
  \<open>orders.order_created\<close> event to the outbox, all three and nothing else; a commit that
  fails leaves none of them.
\<close>

theorem place_order_commits_as_a_whole:
  assumes "place_order M C io req s = (Inr out, s')" and "se_pending s = []"
    and "se_writes s = empty_db"
  shows "\<exists>k row. stock_t (se_db ((others_commit ^^ k) s)) (po_stock_id req) = Some row
    \<and> 0 < po_quantity req \<and> po_quantity req \<le> st_available row
    \<and> or_status (pr_order out) = O_RESERVED \<and> or_quantity (pr_order out) = po_quantity req
    \<and> pr_envelope out = order_created_envelope io (pr_order out)
    \<and> pr_outbox_event out = order_outbox C (se_now s) (pr_envelope out)
    \<and> (\<forall>oc u s''. session_commit oc s' = (Inr u, s'') \<longrightarrow>
         stock_t (se_db s'') = (stock_t (se_db (others_commit s')))(po_stock_id req \<mapsto>
           row\<lparr>st_available := st_available row - po_quantity req, st_version := st_version row + 1,
               st_updated_at := se_now s\<rparr>)
         \<and> orders_t (se_db s'') = (orders_t (se_db (others_commit s')))(pio_order_id io \<mapsto> pr_order out)
         \<and> outbox_t (se_db s'') = outbox_t (se_db (others_commit s')) @ [pr_outbox_event out]
         \<and> payments_t (se_db s'') = payments_t (se_db (others_commit s'))
         \<and> users_t (se_db s'') = users_t (se_db (others_commit s')))
    \<and> (\<forall>oc e s''. session_commit oc s' = (Inl e, s'') \<longrightarrow> se_db s'' = se_db (others_commit s'))"
proof -
  from place_order_success [OF assms(1,2)] obtain k row where
    view: "stock_t (view ((others_commit ^^ k) s)) (po_stock_id req) = Some row"
    and q: "0 < po_quantity req" "po_quantity req \<le> st_available row"
    and w: "order_written C io req s row out s'" by metis
  from view have row: "stock_t (se_db ((others_commit ^^ k) s)) (po_stock_id req) = Some row"
    by (simp add: view_def assms(3))
  from w assms(3) have writes: "se_writes s' = empty_db\<lparr>
      stock_t := [po_stock_id req \<mapsto> row\<lparr>st_available := st_available row - po_quantity req,
        st_version := st_version row + 1, st_updated_at := se_now s\<rparr>],
      orders_t := [pio_order_id io \<mapsto> pr_order out], outbox_t := [pr_outbox_event out]\<rparr>"
    and pend: "se_pending s' = []"
    by (simp_all add: order_written_def)
  have "se_db s'' = view (others_commit s')" if "session_commit oc s' = (Inr u, s'')" for oc u s''
    using commit_flushed [OF that pend] .
  moreover have "se_db s'' = se_db (others_commit s')" if "session_commit oc s' = (Inl e, s'')" for oc e s''
    using session_commit_error [OF that] by simp
  ultimately show ?thesis using row q w
    by (intro exI [of _ k] exI [of _ row]) (auto simp: order_written_def writes)
qed

definition buy :: "int \<Rightarrow> place_order_request" where
  "buy q = \<lparr>po_user_id = 1, po_stock_id = 4, po_quantity = q\<rparr>"

definition demo_place_io :: place_io where
  "demo_place_io = \<lparr>pio_order_id = 11, pio_event_id = 12, pio_occurred_at = ''now''\<rparr>"

definition demo_order :: "int \<Rightarrow> (exc + place_order_result) \<times> session" where
  "demo_order q = place_order orm_default json_codec demo_place_io (buy q) (new_session (shelf 5 1) [] 9)"

lemma demo_order_ok: "demo_order 2 = (Inr (projr (fst (demo_order 2))), snd (demo_order 2))"
proof -
  have "\<not> isl (fst (demo_order 2))" by code_simp
  then show ?thesis by (cases "demo_order 2"; cases "fst (demo_order 2)") auto
qed

theorem place_order_commits_as_a_whole_witness:
  "\<exists>s''. session_commit None (snd (demo_order 2)) = (Inr (), s'')
     \<and> map_option st_available (stock_t (se_db s'') 4) = Some 3
     \<and> map_option or_status (orders_t (se_db s'') 11) = Some O_RESERVED"
proof -
  have "\<not> isl (fst (session_commit None (snd (demo_order 2))))" by code_simp
  then obtain s'' where c: "session_commit None (snd (demo_order 2)) = (Inr (), s'')"
    by (cases "session_commit None (snd (demo_order 2))"; cases "fst (session_commit None (snd (demo_order 2)))") auto
  from place_order_commits_as_a_whole [OF demo_order_ok [unfolded demo_order_def]] obtain k row where
    "stock_t (se_db ((others_commit ^^ k) (new_session (shelf 5 1) [] 9))) 4 = Some row"
    "stock_t (se_db s'') 4 = Some (row\<lparr>st_available := st_available row - 2, st_version := st_version row + 1, st_updated_at := 9\<rparr>)"
    "map_option or_status (orders_t (se_db s'') 11) = Some O_RESERVED"
    using c by (fastforce simp: demo_order_def demo_place_io_def buy_def)
  moreover have "(others_commit ^^ k) (new_session (shelf 5 1) [] 9) = new_session (shelf 5 1) [] 9" for k
    by (induction k) simp_all
  ultimately show ?thesis using c by (auto simp: shelf_def)
qed

text \<open>
  A failing order leaves nothing. Whatever \<open>place_order\<close> raises (bad quantity, unknown stock, too
  little stock, three lost races, a column out of range, a duplicate key), the request that runs
  it in \<open>get_session\<close> and commits changes no committed table.
\<close>

theorem failed_order_changes_nothing:
  assumes "run_request schema oc (place_order M C io req) s = (Inl e, s')" and "se_env s = []"
  shows "se_db s' = se_db s"
  using place_order_svc.failed_request_changes_nothing [of schema oc M C "(io, req)" s e s'] assms by simp

theorem failed_order_changes_nothing_witness:
  "se_db (snd (run_request ''orders'' None (place_order orm_default json_codec demo_place_io (buy 6))
     (new_session (shelf 5 1) [] 9))) = shelf 5 1"
proof -
  let ?r = "run_request ''orders'' None (place_order orm_default json_codec demo_place_io (buy 6))
     (new_session (shelf 5 1) [] 9)"
  have "isl (fst ?r)" by code_simp
  then have "?r = (Inl (projl (fst ?r)), snd ?r)" by (cases ?r; cases "fst ?r") auto
  from failed_order_changes_nothing [OF this] show ?thesis by simp
qed

text \<open>
  What the order service needs of the object layer: re-reading an unchanged row changes nothing,
  and the UPDATE leaves the loaded object alone or applies the SET clause to it. Both settings
  meet it.
\<close>

definition orm_ok :: "orm \<Rightarrow> bool" where
  "orm_ok M \<longleftrightarrow> (\<forall>x. orm_reload M x x = x) \<and> (\<forall>P F x. orm_sync M P F x \<in> {x, F x})"

lemma orm_ok_instances: "orm_ok orm_default" "orm_ok orm_plain"
  by (simp_all add: orm_ok_def orm_default_def orm_plain_def)

lemma orm_ok_reserve:
  assumes "orm_ok M"
  shows "st_price_minor_units (orm_sync M P (reserve_values req) x) = st_price_minor_units x"
    and "st_currency (orm_sync M P (reserve_values req) x) = st_currency x"
    and "st_version (orm_sync M P (reserve_values req) x) \<in> {st_version x, st_version x + 1}"
  using assms unfolding orm_ok_def by (metis insertE reserve_values_def singletonD stock.select_convs
      stock.surjective stock.update_convs insertI1 insertI2)+

text \<open>One attempt on an undisturbed session.\<close>

lemma undisturbed_reserve:
  assumes "se_env s = []" and "stock_t (view s) k = Some row" and "se_stock_objs s k = Some row"
    and "orm_ok M" and "0 < q" and "q \<le> st_available row" and "stock_checks row"
    and "stock_columns_ok row" and "int32_ok (st_version row + 1)"
    and "req = \<lparr>rq_stock_id = k, rq_quantity = q, rq_expected_version = st_version row\<rparr>"
  obtains y s' where "y = orm_sync M (reserve_where req) (reserve_values req) row"
    and "reserve M req s = (Inr \<lparr>new_version = st_version y + 1, new_available = st_available y - q\<rparr>, s')"
    and "se_stock_objs s' k = Some y" and "se_pending s' = se_pending s" and "se_env s' = []"
    and "se_now s' = se_now s" and "orders_t (view s') = orders_t (view s)"
    and "outbox_t (view s') = outbox_t (view s)"
proof -
  let ?t = "s\<lparr>se_stock_objs := (se_stock_objs s)(k \<mapsto> row)\<rparr>"
  have rd: "read_stock M k s = (Inr (Some row), ?t)"
    using assms(1-4) by (simp add: read_stock_def Let_def orm_ok_def del: view_simps)
  have v: "stock_t (view ?t) k = Some row" using assms(2) by simp
  let ?y = "orm_sync M (reserve_where req) (reserve_values req) row"
  let ?row = "(reserve_values req row)\<lparr>st_updated_at := se_now s\<rparr>"
  let ?s' = "?t\<lparr>se_stock_objs := (se_stock_objs s)(k \<mapsto> ?y),
    se_writes := (se_writes s)\<lparr>stock_t := (stock_t (se_writes s))(k \<mapsto> ?row)\<rparr>\<rparr>"
  have "update_stock M k (reserve_where req) (reserve_values req) ?t = (Inr 1, ?s')"
    using v assms(1,5-10)
    by (simp add: update_stock_def Let_def reserve_where_def reserve_values_def stock_checks_def
        stock_columns_ok_def int32_ok_def del: view_simps)
  then have "reserve M req s = (Inr \<lparr>new_version = st_version ?y + 1, new_available = st_available ?y - q\<rparr>, ?s')"
    using rd assms(5,6,10) by (simp add: reserve_def seq_def reserve_outcome_def Let_def)
  then show thesis using assms(1) by (intro that [of ?y ?s']) simp_all
qed

definition reserve_request_of :: "place_order_request \<Rightarrow> stock \<Rightarrow> reserve_request" where
  "reserve_request_of req x =
     \<lparr>rq_stock_id = po_stock_id req, rq_quantity = po_quantity req, rq_expected_version = st_version x\<rparr>"

lemma undisturbed_attempt:
  assumes "orm_ok M" and "se_env s = []" and "se_pending s = []" and "se_stock_objs s = Map.empty"
    and "stock_t (view s) (po_stock_id req) = Some row" and "stock_checks row" and "stock_columns_ok row"
    and "0 < po_quantity req" and "po_quantity req \<le> st_available row"
    and "int32_ok (st_version row + 1)"
  obtains y s2 where "place_order M C io req s = finish_order C io req
      \<lparr>new_version = st_version y + 1, new_available = st_available y - po_quantity req\<rparr> y s2"
    and "st_price_minor_units y = st_price_minor_units row" and "st_currency y = st_currency row"
    and "st_version y \<in> {st_version row, st_version row + 1}"
    and "se_pending s2 = []" and "se_env s2 = []" and "se_now s2 = se_now s"
    and "orders_t (view s2) = orders_t (view s)" and "outbox_t (view s2) = outbox_t (view s)"
    and "y = orm_sync M (reserve_where (reserve_request_of req row)) (reserve_values (reserve_request_of req row)) row"
proof -
  let ?k = "po_stock_id req" and ?q = "po_quantity req"
  let ?t = "s\<lparr>se_stock_objs := [?k \<mapsto> row]\<rparr>"
  let ?req = "\<lparr>rq_stock_id = ?k, rq_quantity = ?q, rq_expected_version = st_version row\<rparr>"
  have g: "get_stock M ?k s = (Inr row, ?t)"
    using assms(2,4,5) by (simp add: get_stock_def read_stock_def Let_def seq_def del: view_simps)
  have v: "stock_t (view ?t) ?k = Some row" using assms(5) by simp
  obtain y s2 where y: "y = orm_sync M (reserve_where ?req) (reserve_values ?req) row"
    and r: "reserve M ?req ?t = (Inr \<lparr>new_version = st_version y + 1, new_available = st_available y - ?q\<rparr>, s2)"
    and s2: "se_stock_objs s2 ?k = Some y" "se_pending s2 = []" "se_env s2 = []" "se_now s2 = se_now s"
      "orders_t (view s2) = orders_t (view s)" "outbox_t (view s2) = outbox_t (view s)"
    by (rule undisturbed_reserve [of ?t ?k row M ?q ?req])
      (use assms(1,2,3,6-10) v in \<open>simp_all del: view_simps add: view_def\<close>)
  note same = orm_ok_reserve [OF assms(1), of "reserve_where ?req" ?req row, folded y]
  have "place_order M C io req s = finish_order C io req
      \<lparr>new_version = st_version y + 1, new_available = st_available y - ?q\<rparr> y s2"
    using place_order_unfold [OF assms(8), of M C io s] assms(2) g r s2(1)
    by (simp add: MAX_RESERVE_RETRIES_def numeral_3_eq_3)
  then show thesis using same s2(2-6) y [folded reserve_request_of_def] by (rule that)
qed

lemma finish_order_ok:
  assumes "se_env s = []" and "se_pending s = []"
    and "ord = make_order (se_now s) io req res x"
    and "env = order_created_envelope io ord" and "obx = order_outbox C (se_now s) env"
    and "order_columns_ok ord" and "order_checks ord" and "orders_t (view s) (pio_order_id io) = None"
    and "outbox_columns_ok obx"
    and "\<forall>y\<in>set (outbox_t (view s)). ob_id y \<noteq> ob_id obx \<and> ob_dedupe_id y \<noteq> ob_dedupe_id obx"
  shows "\<exists>s'. finish_order C io req res x s
    = (Inr \<lparr>pr_order = ord, pr_outbox_event = obx, pr_envelope = env\<rparr>, s')"
proof -
  have id: "or_id ord = pio_order_id io" using assms(3) by (simp add: make_order_def)
  let ?s = "s\<lparr>se_pending := [InsertOrder ord, InsertOutbox obx]\<rparr>"
  let ?s1 = "?s\<lparr>se_writes := (se_writes s)\<lparr>orders_t := (orders_t (se_writes s))(or_id ord \<mapsto> ord)\<rparr>\<rparr>"
  have "flush_row (InsertOrder ord) ?s = Inr ?s1"
    using assms(6-8) id by (simp add: flush_row_def Let_def)
  moreover have "\<exists>s2. flush_row (InsertOutbox obx) ?s1 = Inr s2"
    using assms(9,10) by (auto simp: flush_row_def Let_def)
  ultimately have "\<exists>s'. session_flush ?s = (Inr (), s')"
    using assms(1) by (auto simp: session_flush_def)
  moreover have "finish_order C io req res x s = seq session_flush
      (\<lambda>_. ret \<lparr>pr_order = ord, pr_outbox_event = obx, pr_envelope = env\<rparr>) ?s"
    using assms(2-5) by (simp add: finish_order_def Let_def seq_def)
  ultimately show ?thesis by (auto simp: seq_def)
qed

lemma order_outbox_columns:
  assumes "length (content_hash C env) \<le> 64" and "env = order_created_envelope io ord"
  shows "outbox_columns_ok (order_outbox C now env)"
  using assms
  by (simp add: outbox_columns_ok_def order_outbox_def new_outbox_event_def order_created_envelope_def
      int32_ok_def)

text \<open>
  An order that nothing stands in the way of is placed. With enough stock, no interference, fresh
  identifiers, a total within the 32 bits of its column and a hash that fits its column,
  \<open>place_order\<close> returns; the total is price times quantity in the currency of the stock row.
\<close>

theorem place_order_succeeds:
  assumes "orm_ok M" and "se_env s = []" and "se_pending s = []" and "se_stock_objs s = Map.empty"
    and "stock_t (view s) (po_stock_id req) = Some row" and "stock_checks row" and "stock_columns_ok row"
    and "0 < po_quantity req" and "po_quantity req \<le> st_available row"
    and "st_version row + 2 < 2 ^ 31" and "st_price_minor_units row * po_quantity req < 2 ^ 31"
    and "orders_t (view s) (pio_order_id io) = None"
    and "\<And>e. length (content_hash C e) \<le> 64"
    and "\<And>e y. y \<in> set (outbox_t (view s)) \<Longrightarrow> event_id e = pio_event_id io
           \<Longrightarrow> ob_id y \<noteq> event_id e \<and> ob_dedupe_id y \<noteq> content_hash C e"
  shows "\<exists>out s'. place_order M C io req s = (Inr out, s')
    \<and> or_total_amount_minor_units (pr_order out) = st_price_minor_units row * po_quantity req
    \<and> or_currency (pr_order out) = st_currency row"
proof -
  have ver: "int32_ok (st_version row + 1)"
    using assms(6,10) by (simp add: stock_checks_def int32_ok_def)
  obtain y s2 where p: "place_order M C io req s = finish_order C io req
      \<lparr>new_version = st_version y + 1, new_available = st_available y - po_quantity req\<rparr> y s2"
    and same: "st_price_minor_units y = st_price_minor_units row" "st_currency y = st_currency row"
      "st_version y \<in> {st_version row, st_version row + 1}"
    and s2: "se_pending s2 = []" "se_env s2 = []"
      "orders_t (view s2) = orders_t (view s)" "outbox_t (view s2) = outbox_t (view s)"
    using undisturbed_attempt [OF assms(1-9) ver] by metis
  let ?ord = "make_order (se_now s2) io req
    \<lparr>new_version = st_version y + 1, new_available = st_available y - po_quantity req\<rparr> y"
  let ?env = "order_created_envelope io ?ord"
  let ?obx = "order_outbox C (se_now s2) ?env"
  have cols: "order_columns_ok ?ord" "order_checks ?ord"
    using same assms(6-11)
    by (auto simp: make_order_def order_columns_ok_def order_checks_def stock_checks_def
        stock_columns_ok_def int32_ok_def intro: order_trans [OF _ mult_nonneg_nonneg])
  have fresh: "\<forall>z\<in>set (outbox_t (view s2)). ob_id z \<noteq> ob_id ?obx \<and> ob_dedupe_id z \<noteq> ob_dedupe_id ?obx"
    using s2(4) assms(14) [of _ ?env]
    by (simp add: order_outbox_def new_outbox_event_def order_created_envelope_def del: view_simps)
  have free: "orders_t (view s2) (pio_order_id io) = None" using s2(3) assms(12) by simp
  from finish_order_ok [OF s2(2,1) HOL.refl HOL.refl HOL.refl cols free
      order_outbox_columns [OF assms(13) HOL.refl] fresh] p same
  show ?thesis by (auto simp: make_order_def)
qed

theorem place_order_succeeds_witness:
  "\<exists>out s'. place_order orm_default json_codec demo_place_io (buy 2) (new_session (shelf 5 1) [] 9) = (Inr out, s')
     \<and> or_total_amount_minor_units (pr_order out) = 500"
proof -
  have "length (content_hash json_codec e) \<le> 64" for e by (simp add: content_hash_def json_codec_def)
  from place_order_succeeds [OF orm_ok_instances(1), of "new_session (shelf 5 1) [] 9" "buy 2"
      "the (stock_t (shelf 5 1) 4)" demo_place_io json_codec] this
  show ?thesis by (auto simp: shelf_def buy_def stock_checks_def stock_columns_ok_def int32_ok_def)
qed

text \<open>
  C39: The total must fit 32 bits. The column of the total is a four-byte integer, so an order whose
  price times quantity reaches two to the 31 is refused by the database although the stock is there:
  the flush raises and everything the attempt had written is rolled back.
\<close>

theorem order_total_overflow_refused:
  assumes "orm_ok M" and "se_env s = []" and "se_pending s = []" and "se_stock_objs s = Map.empty"
    and "stock_t (view s) (po_stock_id req) = Some row" and "stock_checks row" and "stock_columns_ok row"
    and "0 < po_quantity req" and "po_quantity req \<le> st_available row"
    and "int32_ok (st_version row + 1)" and "2 ^ 31 \<le> st_price_minor_units row * po_quantity req"
  shows "\<exists>s'. place_order M C io req s = (Inl (DBAPIError ''orders''), s')
    \<and> se_writes s' = empty_db \<and> se_pending s' = [] \<and> se_db s' = se_db s"
proof -
  obtain y s2 where p: "place_order M C io req s
      = finish_order C io req \<lparr>new_version = st_version y + 1, new_available = st_available y - po_quantity req\<rparr> y s2"
    and y: "st_price_minor_units y = st_price_minor_units row"
    and s2: "se_pending s2 = []" "se_env s2 = []"
    using undisturbed_attempt [OF assms(1-10)] by metis
  let ?ord = "make_order (se_now s2) io req
    \<lparr>new_version = st_version y + 1, new_available = st_available y - po_quantity req\<rparr> y"
  have "\<not> order_columns_ok ?ord"
    using assms(11) y by (simp add: make_order_def order_columns_ok_def int32_ok_def)
  then have "\<exists>s'. place_order M C io req s = (Inl (DBAPIError ''orders''), s')"
    using p s2 by (simp add: finish_order_def Let_def seq_def session_flush_def flush_row_def)
  then obtain s' where s': "place_order M C io req s = (Inl (DBAPIError ''orders''), s')" ..
  have "finish_order C io req \<lparr>new_version = st_version y + 1, new_available = st_available y - po_quantity req\<rparr> y s2
      = (Inl (DBAPIError ''orders''), s')" using p s' by simp
  from finish_order_error(1,2) [OF this] show ?thesis
    using s' place_order_quiet [OF s' assms(2)] by simp
qed

definition dear :: db where
  "dear = empty_db\<lparr>stock_t := [4 \<mapsto> (the (stock_t (shelf 5 1) 4))\<lparr>st_price_minor_units := 2000000000\<rparr>]\<rparr>"

theorem order_total_overflow_refused_witness:
  "\<exists>s'. place_order orm_default json_codec demo_place_io (buy 2) (new_session dear [] 9)
     = (Inl (DBAPIError ''orders''), s')"
  using order_total_overflow_refused [OF orm_ok_instances(1), of "new_session dear [] 9" "buy 2"
      "the (stock_t dear 4)" json_codec demo_place_io]
  by (auto simp: dear_def shelf_def buy_def stock_checks_def stock_columns_ok_def int32_ok_def)

text \<open>
  \<open>update_order_status\<close> implements the lifecycle: an unsupported target status raises without a
  query, an unknown order raises, and otherwise the order is locked and its status changes exactly
  when the lifecycle relation has the step; a step the relation does not have returns the order as
  it is and adds nothing to the unit of work.
\<close>

theorem update_order_status_refines:
  assumes "pending_order oid (se_pending s) = None"
  shows "update_order_status oid new s =
    (if new \<notin> {O_PAID, O_FAILED}
     then (Inl (ValueError (''update_order_status only supports PAID or FAILED, got ''
             @ order_status_value new)), s)
     else case orders_t (view (others_commit s)) oid of
       None \<Rightarrow> (Inl (order_not_found oid), others_commit s)
     | Some x \<Rightarrow>
         if order_transition (or_status x) new
         then (Inr (x\<lparr>or_status := new\<rparr>),
               (order_locked oid s)\<lparr>se_pending := se_pending s @ [UpdateOrder (x\<lparr>or_status := new\<rparr>)]\<rparr>)
         else (Inr x, order_locked oid s))"
proof (cases "new \<in> {O_PAID, O_FAILED}")
  case False
  then show ?thesis using update_unsupported by simp
next
  case True
  show ?thesis
  proof (cases "orders_t (view (others_commit s)) oid")
    case None
    then show ?thesis using True update_missing [OF True None] by (simp del: view_simps)
  next
    case (Some x)
    then show ?thesis using True update_found [OF True Some HOL.refl] assms
      by (simp del: view_simps)
  qed
qed

definition order_book :: "order_status \<Rightarrow> db" where
  "order_book st = (shelf 5 1)\<lparr>orders_t := [11 \<mapsto>
     \<lparr>or_id = 11, or_user_id = 1, or_stock_id = 4, or_quantity = 2, or_expected_version = 2,
      or_total_amount_minor_units = 500, or_currency = ''EUR'', or_status = st,
      or_created_at = 0, or_updated_at = 0\<rparr>]\<rparr>"

theorem update_order_status_refines_witness:
  "fst (update_order_status 11 O_FAILED (new_session (order_book O_PAID) [] 9))
   = Inr (the (orders_t (order_book O_PAID) 11))"
  using update_order_status_refines [of 11 "new_session (order_book O_PAID) [] 9" O_FAILED]
  by (simp add: order_book_def order_transition_iff)

text \<open>
  \<open>update_order_status\<close> is idempotent, also when the two calls disagree: once a call has
  returned, a second call in the same unit of work with the same or the opposite target returns the
  order with the status the first one left, and adds nothing, if that status is PAID or FAILED.
\<close>

theorem update_order_status_idempotent:
  assumes "update_order_status oid new s = (Inr x, s1)" and "pending_order oid (se_pending s) = None"
    and "\<And>y. orders_t (view (others_commit s)) oid = Some y \<Longrightarrow> or_id y = oid"
    and "or_status x \<in> {O_PAID, O_FAILED}" and "new' \<in> {O_PAID, O_FAILED}"
    and "se_env s = []"
  shows "fst (update_order_status oid new' s1) = Inr x
    \<and> se_pending (snd (update_order_status oid new' s1)) = se_pending s1"
proof -
  note ref = update_order_status_refines [OF assms(2), of new]
  have new: "new \<in> {O_PAID, O_FAILED}"
    using assms(1) update_unsupported [of new oid s] by (cases "new \<in> {O_PAID, O_FAILED}") simp_all
  obtain row where row: "orders_t (view (others_commit s)) oid = Some row"
    using assms(1) update_missing [OF new] by (cases "orders_t (view (others_commit s)) oid") auto
  have cases: "(x, s1) = (row\<lparr>or_status := new\<rparr>, (order_locked oid s)\<lparr>se_pending :=
        se_pending s @ [UpdateOrder (row\<lparr>or_status := new\<rparr>)]\<rparr>) \<or> (x, s1) = (row, order_locked oid s)"
    using assms(1,2) update_found [OF new row HOL.refl] by (auto split: if_splits)
  then have s1: "orders_t (view (others_commit s1)) oid = Some row"
    using row assms(6) by (elim disjE) (simp_all add: order_locked_def view_def)
  have obj: "(case pending_order oid (se_pending s1) of Some y \<Rightarrow> y | None \<Rightarrow> row) = x"
    using cases assms(2) assms(3) [OF row] by (auto simp: order_locked_def)
  have "\<not> order_transition (or_status x) new'" using assms(4) by (auto simp: order_transition_iff)
  with update_found [OF assms(5) s1 HOL.refl] obj show ?thesis by (simp add: order_locked_def)
qed

theorem update_order_status_idempotent_witness:
  "fst (update_order_status 11 O_FAILED
      (snd (update_order_status 11 O_PAID (new_session (order_book O_RESERVED) [] 9))))
   = Inr ((the (orders_t (order_book O_RESERVED) 11))\<lparr>or_status := O_PAID\<rparr>)"
proof -
  let ?s = "new_session (order_book O_RESERVED) [] 9"
  have "update_order_status 11 O_PAID ?s = (Inr ((the (orders_t (order_book O_RESERVED) 11))\<lparr>or_status := O_PAID\<rparr>),
      snd (update_order_status 11 O_PAID ?s))"
    using update_found [of O_PAID ?s 11 "the (orders_t (order_book O_RESERVED) 11)"]
    by (simp add: order_book_def order_transition_iff)
  from update_order_status_idempotent [OF this] show ?thesis
    by (simp add: order_book_def)
qed

end
