(* ===== verification/Order_Consumer.thy ===== *)
theory Order_Consumer
  imports Consumer Orders
begin

text \<open>
  The order module's consumer of payment events, \<open>src/modules/orders/consumer.py\<close>: the two
  handlers and their registration. A captured payment makes the order PAID; a failed payment makes
  it FAILED and releases its stock, the compensation step of the order saga.
\<close>

section \<open>Handlers\<close>

text \<open>
  The part both handlers share: the \<open>order_id\<close> of the payload, if it is a string that
  \<open>uuid.UUID\<close> accepts; otherwise the event is logged and skipped.
\<close>

definition with_order_id ::
    "event_envelope \<Rightarrow> (uuid \<Rightarrow> (session, exc, unit) comp) \<Rightarrow> (session, exc, unit) comp" where
  "with_order_id env body =
     (case json_get (payload env) ''order_id'' of
        Inl _ \<Rightarrow> raise_exc (AttributeError ''get'')
      | Inr (Some (JStr order_id_str)) \<Rightarrow>
          (case uuid_of_string order_id_str of
             None \<Rightarrow> ret ()
           | Some order_id \<Rightarrow> body order_id)
      | Inr _ \<Rightarrow> ret ())"

definition on_payment_captured :: handler where
  "on_payment_captured env =
     with_order_id env (\<lambda>order_id. seq (update_order_status order_id O_PAID) (\<lambda>_. ret ()))"

definition compensate :: "orm \<Rightarrow> uuid \<Rightarrow> (session, exc, unit) comp" where
  "compensate M order_id =
     with_schemas [''orders'', ''inventory'']
       (seq (select_order order_id) (\<lambda>found.
          case found of
            None \<Rightarrow> ret ()
          | Some x \<Rightarrow>
              seq (release M \<lparr>rl_stock_id = or_stock_id x, rl_quantity = or_quantity x,
                              rl_expected_version = or_expected_version x\<rparr>) (\<lambda>_. ret ())))"

definition on_payment_failed :: "orm \<Rightarrow> handler" where
  "on_payment_failed M env =
     with_order_id env (\<lambda>order_id.
       seq (update_order_status order_id O_FAILED) (\<lambda>_. compensate M order_id))"

definition order_topics :: "string list" where
  "order_topics = [''payments.events'']"

definition order_handlers :: "orm \<Rightarrow> handlers" where
  "order_handlers M =
     [(''payments.events'', ''payments.payment_captured'') \<mapsto> on_payment_captured,
      (''payments.events'', ''payments.payment_failed'') \<mapsto> on_payment_failed M]"

section \<open>The handlers leave committing to the base class\<close>

lemma seq_quiet:
  assumes "seq m f s = (r, s')" and "se_env s = []"
    and "\<And>r s1. m s = (r, s1) \<Longrightarrow> se_db s1 = se_db s \<and> se_env s1 = []"
    and "\<And>x s1 r s2. se_env s1 = [] \<Longrightarrow> f x s1 = (r, s2) \<Longrightarrow> se_db s2 = se_db s1 \<and> se_env s2 = []"
  shows "se_db s' = se_db s \<and> se_env s' = []"
proof -
  obtain r1 s1 where m: "m s = (r1, s1)" by (meson surj_pair)
  have s1: "se_db s1 = se_db s" "se_env s1 = []" using assms(3) [OF m] by simp_all
  show ?thesis
  proof (cases r1)
    case (Inl e)
    then show ?thesis using m assms(1) s1 by simp
  next
    case (Inr x)
    then have "f x s1 = (r, s')" using m assms(1) by simp
    then show ?thesis using assms(4) s1 by metis
  qed
qed

lemma with_order_id_quiet:
  assumes "with_order_id env body s = (r, s')" and "se_env s = []"
    and "\<And>oid r s'. body oid s = (r, s') \<Longrightarrow> se_db s' = se_db s \<and> se_env s' = []"
  shows "se_db s' = se_db s \<and> se_env s' = []"
  using assms by (auto simp: with_order_id_def split: sum.splits option.splits json.splits)

lemma compensate_quiet:
  assumes "compensate M oid s = (r, s')" and "se_env s = []"
  shows "se_db s' = se_db s \<and> se_env s' = []"
proof -
  have "seq (select_order oid) (\<lambda>found. case found of None \<Rightarrow> ret ()
      | Some x \<Rightarrow> seq (release M \<lparr>rl_stock_id = or_stock_id x, rl_quantity = or_quantity x,
                              rl_expected_version = or_expected_version x\<rparr>) (\<lambda>_. ret ())) s = (r, s')"
    using assms by (simp add: compensate_def with_schemas_orders_inventory)
  then show ?thesis
  proof (rule seq_quiet [OF _ assms(2)])
    fix r1 s1
    assume "select_order oid s = (r1, s1)"
    then show "se_db s1 = se_db s \<and> se_env s1 = []" using assms(2) by (auto simp: select_order_def)
  next
    fix found :: "order option" and s1 s2 :: session and r2 :: "exc + unit"
    assume q: "se_env s1 = []" and f: "(case found of None \<Rightarrow> ret ()
      | Some x \<Rightarrow> seq (release M \<lparr>rl_stock_id = or_stock_id x, rl_quantity = or_quantity x,
                              rl_expected_version = or_expected_version x\<rparr>) (\<lambda>_. ret ())) s1 = (r2, s2)"
    show "se_db s2 = se_db s1 \<and> se_env s2 = []"
    proof (cases found)
      case None
      then show ?thesis using f q by simp
    next
      case (Some x)
      then show ?thesis using f q release_frame
        by (fastforce simp: seq_def split: prod.splits sum.splits)
    qed
  qed
qed

lemma update_quiet:
  "update_order_status oid new s = (r, s') \<Longrightarrow> se_env s = [] \<Longrightarrow> se_db s' = se_db s \<and> se_env s' = []"
  using update_frame(4) by blast

lemma on_payment_captured_quiet:
  assumes "on_payment_captured env s = (r, s')" and "se_env s = []"
  shows "se_db s' = se_db s \<and> se_env s' = []"
  using assms unfolding on_payment_captured_def
  by (rule with_order_id_quiet) (auto elim!: seq_quiet [OF _ assms(2)] dest: update_quiet [OF _ assms(2)])

lemma on_payment_failed_quiet:
  assumes "on_payment_failed M env s = (r, s')" and "se_env s = []"
  shows "se_db s' = se_db s \<and> se_env s' = []"
  using assms unfolding on_payment_failed_def
  by (rule with_order_id_quiet)
    (auto elim!: seq_quiet [OF _ assms(2)] dest: update_quiet [OF _ assms(2)] compensate_quiet)

interpretation order_consumer: event_handlers "order_handlers M" for M
  by unfold_locales
    (auto simp: order_handlers_def dest: on_payment_captured_quiet on_payment_failed_quiet split: if_splits)

section \<open>What the handlers do\<close>

definition order_event :: "event_envelope \<Rightarrow> uuid \<Rightarrow> bool" where
  "order_event env oid \<longleftrightarrow> json_get (payload env) ''order_id'' = Inr (Some (JStr (str_uuid oid)))"

lemma with_order_id_event: "order_event env oid \<Longrightarrow> with_order_id env body = body oid"
  by (simp add: order_event_def with_order_id_def)

lemma view_new_session [simp]: "view (new_session d envs now) = d"
  by (rule db.equality) (simp_all add: view_def)

lemma commit_pending_order:
  assumes "se_env s = []" and "se_pending s = [UpdateOrder x]" and "order_columns_ok x" and "order_checks x"
  shows "\<exists>s'. session_commit None s = (Inr (), s')
    \<and> se_db s' = (view s)\<lparr>orders_t := (orders_t (view s))(or_id x \<mapsto> x\<lparr>or_updated_at := se_now s\<rparr>)\<rparr>"
proof -
  have "flush_rows (se_pending s) s = Inr (s\<lparr>se_writes := (se_writes s)\<lparr>orders_t :=
      (orders_t (se_writes s))(or_id x \<mapsto> x\<lparr>or_updated_at := se_now s\<rparr>)\<rparr>\<rparr>)"
    using assms by (simp add: flush_row_def Let_def)
  then show ?thesis using assms(1)
    by (auto simp: session_commit_def session_flush_def seq_def view_def intro!: db.equality)
qed

lemma commit_nothing_pending:
  assumes "se_env s = []" and "se_pending s = []"
  shows "\<exists>s'. session_commit None s = (Inr (), s') \<and> se_db s' = view s"
  using assms by (simp add: session_commit_def session_flush_def seq_def)

text \<open>The session after \<open>update_order_status\<close> in a fresh session.\<close>

lemma update_fresh:
  assumes "orders_t d oid = Some x" and "or_id x = oid" and "new \<in> {O_PAID, O_FAILED}"
  obtains s1 where "update_order_status oid new (new_session d [] now)
      = (Inr (if order_transition (or_status x) new then x\<lparr>or_status := new\<rparr> else x), s1)"
    and "se_env s1 = []" and "view s1 = d" and "se_now s1 = now"
    and "se_writes s1 = empty_db" and "se_db s1 = d"
    and "se_pending s1 = (if order_transition (or_status x) new then [UpdateOrder (x\<lparr>or_status := new\<rparr>)] else [])"
proof -
  let ?s = "new_session d [] now"
  have row: "orders_t (view (others_commit ?s)) oid = Some x" using assms(1) by simp
  have v: "view t = d" if "se_db t = d" "se_writes t = empty_db" for t
    using that by (intro db.equality) simp_all
  note up = update_found [OF assms(3) row HOL.refl]
  show thesis
  proof (cases "order_transition (or_status x) new")
    case True
    then show thesis using up
      by (intro that [of "(order_locked oid ?s)\<lparr>se_pending := [UpdateOrder (x\<lparr>or_status := new\<rparr>)]\<rparr>"])
        (simp_all add: order_locked_def v)
  next
    case False
    then show thesis using up
      by (intro that [of "order_locked oid ?s"]) (simp_all add: order_locked_def v)
  qed
qed

lemma captured_effect:
  assumes "order_event env oid" and "orders_t d oid = Some x" and "or_id x = oid"
    and "order_columns_ok x" and "order_checks x" and "mi_env io = []" and "mi_commit io = None"
  shows "run_handler io on_payment_captured env d =
    (Inr (), if or_status x = O_RESERVED
             then d\<lparr>orders_t := (orders_t d)(oid \<mapsto> x\<lparr>or_status := O_PAID, or_updated_at := mi_now io\<rparr>)\<rparr>
             else d)"
proof -
  obtain s1 where up: "update_order_status oid O_PAID (new_session d [] (mi_now io))
      = (Inr (if order_transition (or_status x) O_PAID then x\<lparr>or_status := O_PAID\<rparr> else x), s1)"
    and s1: "se_env s1 = []" "view s1 = d" "se_now s1 = mi_now io"
      "se_pending s1 = (if order_transition (or_status x) O_PAID then [UpdateOrder (x\<lparr>or_status := O_PAID\<rparr>)] else [])"
    by (rule update_fresh [OF assms(2,3), of O_PAID "mi_now io"]) simp
  have h: "on_payment_captured env (new_session d [] (mi_now io)) = (Inr (), s1)"
    using up by (simp add: on_payment_captured_def with_order_id_event [OF assms(1)] seq_def)
  show ?thesis
  proof (cases "or_status x = O_RESERVED")
    case True
    then have pend: "se_pending s1 = [UpdateOrder (x\<lparr>or_status := O_PAID\<rparr>)]"
      using s1(4) by (simp add: order_transition_iff)
    from commit_pending_order [OF s1(1) pend] assms(3-5) s1(2,3) obtain s2 where
      "session_commit None s1 = (Inr (), s2)"
      "se_db s2 = d\<lparr>orders_t := (orders_t d)(oid \<mapsto> x\<lparr>or_status := O_PAID, or_updated_at := mi_now io\<rparr>)\<rparr>"
      by (auto simp: order_columns_ok_def order_checks_def simp del: view_simps)
    then show ?thesis using h True assms(6,7) by (simp add: run_handler_def seq_def)
  next
    case False
    then have "se_pending s1 = []" using s1(4) by (simp add: order_transition_iff)
    from commit_nothing_pending [OF s1(1) this] s1(2) obtain s2 where
      "session_commit None s1 = (Inr (), s2)" "se_db s2 = d" by auto
    then show ?thesis using h False assms(6,7) by (simp add: run_handler_def seq_def)
  qed
qed

text \<open>The compensation in a session that has changed nothing but the order.\<close>

lemma compensate_effect:
  assumes "se_env s = []" and "view s = d" and "se_db s = d" and "se_writes s = empty_db"
    and "orders_t d oid = Some x"
    and "z = (case pending_order oid (se_pending s) of Some z \<Rightarrow> z | None \<Rightarrow> x)"
    and "or_stock_id z = or_stock_id x" and "or_quantity z = or_quantity x" and "0 < or_quantity x"
    and "stock_t d (or_stock_id x) = Some y" and "stock_checks y" and "stock_columns_ok y"
    and "int32_ok (st_available y + or_quantity x)"
  shows "\<exists>s'. compensate M oid s = (Inr (), s') \<and> se_env s' = [] \<and> se_now s' = se_now s
    \<and> se_pending s' = se_pending s
    \<and> view s' = d\<lparr>stock_t := (stock_t d)(or_stock_id x \<mapsto>
        y\<lparr>st_available := st_available y + or_quantity x, st_updated_at := se_now s\<rparr>)\<rparr>"
proof -
  let ?req = "\<lparr>rl_stock_id = or_stock_id z, rl_quantity = or_quantity z, rl_expected_version = or_expected_version z\<rparr>"
  have sel: "select_order oid s = (Inr (Some z), s)"
    using assms(1,2,5,6) by (simp add: select_order_def order_object_def Let_def del: view_simps split: option.splits)
  have row: "stock_t (view (others_commit s)) (rl_stock_id ?req) = Some y"
    using assms(1,2,7,10) by (simp del: view_simps)
  from release_row [OF _ row assms(11,12), of M] assms(1,3,4,7,8,9,13) obtain s' where
    rel: "release M ?req s = (Inr 0, s')"
    and s': "se_writes s' = empty_db\<lparr>stock_t := [or_stock_id x \<mapsto> (release_values ?req y)\<lparr>st_updated_at := se_now s\<rparr>]\<rparr>"
      "se_db s' = d" "se_pending s' = se_pending s" "se_now s' = se_now s" "se_env s' = []"
    by (auto simp del: view_simps)
  have "compensate M oid s = (Inr (), s')"
    using sel rel assms(1) by (simp add: compensate_def with_schemas_orders_inventory seq_def)
  moreover have "view s' = d\<lparr>stock_t := (stock_t d)(or_stock_id x \<mapsto>
      y\<lparr>st_available := st_available y + or_quantity x, st_updated_at := se_now s\<rparr>)\<rparr>"
    by (rule db.equality) (use s' assms(8) in \<open>simp_all add: release_values_def\<close>)
  ultimately show ?thesis using s' by blast
qed

lemma failed_effect:
  assumes "order_event env oid" and "orders_t d oid = Some x" and "or_id x = oid"
    and "order_columns_ok x" and "order_checks x"
    and "stock_t d (or_stock_id x) = Some y" and "stock_checks y" and "stock_columns_ok y"
    and "int32_ok (st_available y + or_quantity x)" and "mi_env io = []" and "mi_commit io = None"
    and "d1 = d\<lparr>stock_t := (stock_t d)(or_stock_id x \<mapsto>
           y\<lparr>st_available := st_available y + or_quantity x, st_updated_at := mi_now io\<rparr>)\<rparr>"
  shows "run_handler io (on_payment_failed M) env d =
    (Inr (), if order_transition (or_status x) O_FAILED
       then d1\<lparr>orders_t := (orders_t d)(oid \<mapsto> x\<lparr>or_status := O_FAILED, or_updated_at := mi_now io\<rparr>)\<rparr>
       else d1)"
proof -
  let ?tr = "order_transition (or_status x) O_FAILED" and ?x = "x\<lparr>or_status := O_FAILED\<rparr>"
  obtain s1 where up: "update_order_status oid O_FAILED (new_session d [] (mi_now io))
      = (Inr (if ?tr then ?x else x), s1)"
    and s1: "se_env s1 = []" "view s1 = d" "se_now s1 = mi_now io" "se_writes s1 = empty_db" "se_db s1 = d"
      "se_pending s1 = (if ?tr then [UpdateOrder ?x] else [])"
    by (rule update_fresh [OF assms(2,3), of O_FAILED "mi_now io"]) simp
  have z: "(case pending_order oid (se_pending s1) of Some z \<Rightarrow> z | None \<Rightarrow> x) = (if ?tr then ?x else x)"
    using s1(6) assms(3) by simp
  have same: "or_stock_id (if ?tr then ?x else x) = or_stock_id x"
      "or_quantity (if ?tr then ?x else x) = or_quantity x" "0 < or_quantity x"
    using assms(5) by (simp_all add: order_checks_def)
  from compensate_effect [OF s1(1,2,5,4) assms(2) z [symmetric] same assms(6-9), of M] s1(3) obtain s2
    where c: "compensate M oid s1 = (Inr (), s2)" and s2: "se_env s2 = []" "se_now s2 = mi_now io"
      "se_pending s2 = se_pending s1" "view s2 = d1"
    by (auto simp: assms(12) simp del: view_simps)
  have h: "on_payment_failed M env (new_session d [] (mi_now io)) = (Inr (), s2)"
    using up c by (simp add: on_payment_failed_def with_order_id_event [OF assms(1)] seq_def)
  show ?thesis
  proof (cases ?tr)
    case True
    then have pend: "se_pending s2 = [UpdateOrder ?x]" using s1(6) s2(3) by simp
    have ok: "order_columns_ok ?x" "order_checks ?x"
      using assms(4,5) by (simp_all add: order_columns_ok_def order_checks_def)
    from commit_pending_order [OF s2(1) pend ok] obtain s3 where
      "session_commit None s2 = (Inr (), s3)"
      "se_db s3 = d1\<lparr>orders_t := (orders_t d)(oid \<mapsto> ?x\<lparr>or_updated_at := mi_now io\<rparr>)\<rparr>"
      using s2(2,4) assms(3,12) by (auto simp del: view_simps)
    then show ?thesis using h True assms(10,11) by (simp add: run_handler_def seq_def)
  next
    case False
    then have "se_pending s2 = []" using s1(6) s2(3) by simp
    from commit_nothing_pending [OF s2(1) this] s2(4) obtain s3 where
      "session_commit None s2 = (Inr (), s3)" "se_db s3 = d1" by auto
    then show ?thesis using h False assms(10,11) by (simp add: run_handler_def seq_def)
  qed
qed

section \<open>Properties\<close>

text \<open>
  A captured payment pays the order. Handling a \<open>payment_captured\<close> event whose payload names an
  order makes exactly one change to the database: a RESERVED order becomes PAID; an order in any
  other status, and every other row, stays as it is.
\<close>

theorem captured_event_pays_order:
  assumes "order_event env oid" and "orders_t d oid = Some x" and "or_id x = oid"
    and "order_columns_ok x" and "order_checks x" and "mi_env io = []" and "mi_commit io = None"
    and "order_handlers M (''payments.events'', ''payments.payment_captured'') = Some h"
  shows "run_handler io h env d =
    (Inr (), if or_status x = O_RESERVED
             then d\<lparr>orders_t := (orders_t d)(oid \<mapsto> x\<lparr>or_status := O_PAID, or_updated_at := mi_now io\<rparr>)\<rparr>
             else d)"
  using captured_effect [OF assms(1-7)] assms(8) by (auto simp: order_handlers_def split: if_splits)

definition payment_event :: "string \<Rightarrow> event_envelope" where
  "payment_event ty = \<lparr>event_id = 21, event_type = ty, schema_version = 1, aggregate_type = ''Payment'',
     aggregate_id = ''p'', correlation_id = None, causation_id = None, occurred_at = ''t'',
     payload = JDict [(''order_id'', JStr (str_uuid 11))]\<rparr>"

definition quiet_msg :: "int \<Rightarrow> msg_io" where
  "quiet_msg t = \<lparr>mi_redis = \<lparr>io_now = t, io_mono = t, io_mono_fail = t, io_delivery = Delivered\<rparr>,
     mi_env = [], mi_now = t, mi_commit = None\<rparr>"

lemma payment_event_order: "order_event (payment_event ty) 11"
  by (simp add: order_event_def payment_event_def json_get_def)

definition booked :: "order_status \<Rightarrow> order" where
  "booked st = the (orders_t (order_book st) 11)"

definition shelved :: stock where
  "shelved = the (stock_t (shelf 5 1) 4)"

lemma order_book_facts:
  "orders_t (order_book st) 11 = Some (booked st)" "stock_t (order_book st) 4 = Some shelved"
  "or_id (booked st) = 11" "or_status (booked st) = st" "or_stock_id (booked st) = 4"
  "or_quantity (booked st) = 2" "order_columns_ok (booked st)" "order_checks (booked st)"
  "stock_checks shelved" "stock_columns_ok shelved" "st_available shelved = 5"
  by (simp_all add: booked_def shelved_def order_book_def shelf_def order_columns_ok_def
      order_checks_def stock_checks_def stock_columns_ok_def int32_ok_def)

theorem captured_event_pays_order_witness:
  "map_option or_status (orders_t (snd (run_handler (quiet_msg 9) on_payment_captured
     (payment_event ''payments.payment_captured'') (order_book O_RESERVED))) 11) = Some O_PAID"
  using captured_event_pays_order [of "payment_event ''payments.payment_captured''" 11 "order_book O_RESERVED"
      "booked O_RESERVED" "quiet_msg 9" orm_default on_payment_captured]
  by (simp add: quiet_msg_def order_book_facts payment_event_order order_handlers_def)

text \<open>
  A failed payment compensates the order. Handling a \<open>payment_failed\<close> event for a PENDING or
  RESERVED order makes the order FAILED and gives its quantity back to its stock row, in one
  transaction, and changes nothing else.
\<close>

theorem failed_event_compensates:
  assumes "order_event env oid" and "orders_t d oid = Some x" and "or_id x = oid"
    and "order_columns_ok x" and "order_checks x"
    and "stock_t d (or_stock_id x) = Some y" and "stock_checks y" and "stock_columns_ok y"
    and "int32_ok (st_available y + or_quantity x)" and "mi_env io = []" and "mi_commit io = None"
    and "or_status x \<in> {O_PENDING, O_RESERVED}"
    and "order_handlers M (''payments.events'', ''payments.payment_failed'') = Some h"
  shows "run_handler io h env d = (Inr (), d\<lparr>
    orders_t := (orders_t d)(oid \<mapsto> x\<lparr>or_status := O_FAILED, or_updated_at := mi_now io\<rparr>),
    stock_t := (stock_t d)(or_stock_id x \<mapsto>
      y\<lparr>st_available := st_available y + or_quantity x, st_updated_at := mi_now io\<rparr>)\<rparr>)"
proof -
  have h: "h = on_payment_failed M" using assms(13) by (simp add: order_handlers_def)
  have "order_transition (or_status x) O_FAILED" using assms(12) by (auto simp: order_transition_iff)
  then show ?thesis using failed_effect [OF assms(1-11) HOL.refl, of M] h by simp
qed

theorem failed_event_compensates_witness:
  "map_option st_available (stock_t (snd (run_handler (quiet_msg 9) (on_payment_failed orm_default)
     (payment_event ''payments.payment_failed'') (order_book O_RESERVED))) 4) = Some 7"
  using failed_event_compensates [of "payment_event ''payments.payment_failed''" 11 "order_book O_RESERVED"
      "booked O_RESERVED" shelved "quiet_msg 9" orm_default
      "on_payment_failed orm_default"]
  by (simp add: quiet_msg_def order_book_facts payment_event_order order_handlers_def int32_ok_def)

text \<open>
  C36: The compensation is not guarded by the status change. Handling a \<open>payment_failed\<close> event for an
  order that is already PAID, FAILED or SHIPPED leaves the order as it is, and still adds its
  quantity to the stock: a second failure event of an order, or one after its payment was
  captured, puts units on the shelf that nobody returned.
\<close>

theorem late_failed_event_still_releases:
  assumes "order_event env oid" and "orders_t d oid = Some x" and "or_id x = oid"
    and "order_columns_ok x" and "order_checks x"
    and "stock_t d (or_stock_id x) = Some y" and "stock_checks y" and "stock_columns_ok y"
    and "int32_ok (st_available y + or_quantity x)" and "mi_env io = []" and "mi_commit io = None"
    and "or_status x \<in> {O_PAID, O_FAILED, O_SHIPPED}"
  shows "run_handler io (on_payment_failed M) env d = (Inr (), d\<lparr>
    stock_t := (stock_t d)(or_stock_id x \<mapsto>
      y\<lparr>st_available := st_available y + or_quantity x, st_updated_at := mi_now io\<rparr>)\<rparr>)
    \<and> st_available y < st_available y + or_quantity x"
proof -
  have "\<not> order_transition (or_status x) O_FAILED" using assms(12) by (auto simp: order_transition_iff)
  then show ?thesis using failed_effect [OF assms(1-11) HOL.refl, of M] assms(5)
    by (simp add: order_checks_def)
qed

theorem late_failed_event_still_releases_witness:
  "map_option st_available (stock_t (snd (run_handler (quiet_msg 9) (on_payment_failed orm_default)
     (payment_event ''payments.payment_failed'') (order_book O_PAID))) 4) = Some 7"
  using late_failed_event_still_releases [of "payment_event ''payments.payment_failed''" 11 "order_book O_PAID"
      "booked O_PAID" shelved "quiet_msg 9" orm_default]
  by (simp add: quiet_msg_def order_book_facts payment_event_order int32_ok_def)

section \<open>Concrete runs of the base class\<close>

definition demo_consumer :: consumer where
  "demo_consumer = \<lparr>co_task = Running, co_stop_event = False, co_dedupe = True, co_consumer = True,
     co_session_factory = True\<rparr>"

definition demo_message :: "string \<Rightarrow> int \<Rightarrow> json consumer_record" where
  "demo_message ty off = \<lparr>rec_topic = ''payments.events'', rec_partition = 0, rec_offset = off,
     rec_value = Some (json_dump_envelope (payment_event ty))\<rparr>"

definition ready_breaker :: breaker where
  "ready_breaker = \<lparr>br_name = ''redis'', br_fail_max = 5, br_reset_timeout = seconds 30,
     br_state = Closed, br_failure_count = 0, br_opened_at = None\<rparr>"

abbreviation captured_type :: string where
  "captured_type \<equiv> ''payments.payment_captured''"

definition demo_handle :: "int \<Rightarrow> (breaker \<times> fake_redis) \<times> db \<Rightarrow> (exc + unit) \<times> ((breaker \<times> fake_redis) \<times> db)" where
  "demo_handle t = handle_message fake_redis_ops json_codec ''nimbus:dedupe:'' (order_handlers orm_default)
     demo_consumer (quiet_msg t) (demo_message captured_type t)"

lemma demo_message_decodes:
  "rec_value (demo_message captured_type off) = Some (json_dump_envelope (payment_event captured_type))"
  "cd_from_bytes json_codec (json_dump_envelope (payment_event captured_type)) = Inr (payment_event captured_type)"
  "content_hash json_codec (payment_event captured_type) \<noteq> []"
proof -
  show "rec_value (demo_message captured_type off) = Some (json_dump_envelope (payment_event captured_type))"
    by (simp add: demo_message_def)
  have "envelope_valid (payment_event captured_type)" by (simp add: envelope_valid_def payment_event_def)
  then show "cd_from_bytes json_codec (json_dump_envelope (payment_event captured_type)) = Inr (payment_event captured_type)"
    using json_codec_ok by (simp add: codec_ok_def json_codec_def)
  show "content_hash json_codec (payment_event captured_type) \<noteq> []"
    by (simp add: content_hash_def json_codec_def canonical_def content_def)
qed

lemma demo_fields [simp]:
  "br_state ready_breaker = Closed" "co_dedupe demo_consumer" "co_consumer demo_consumer"
  "io_delivery (mi_redis (quiet_msg t)) = Delivered" "io_now (mi_redis (quiet_msg t)) = t"
  "mi_env (quiet_msg t) = []" "fake_live t fake_empty k = None" "rec_offset (demo_message ty off) = off"
  by (simp_all add: ready_breaker_def demo_consumer_def quiet_msg_def fake_live_def fake_empty_def
      demo_message_def)

lemma fields_of_demo_message [simp]:
  "rec_topic (demo_message ty off) = ''payments.events''" "event_type (payment_event ty) = ty"
  "co_session_factory demo_consumer"
  by (simp_all add: demo_message_def payment_event_def demo_consumer_def)

text \<open>The first delivery runs the handler of the order module.\<close>

lemma demo_handle_first:
  "\<exists>r1. demo_handle t ((ready_breaker, fake_empty), d)
     = (fst (run_handler (quiet_msg t) on_payment_captured (payment_event captured_type) d),
        ((record_success ready_breaker, r1),
         snd (run_handler (quiet_msg t) on_payment_captured (payment_event captured_type) d)))"
proof -
  have "order_handlers orm_default (''payments.events'', captured_type) = Some on_payment_captured"
    by (simp add: order_handlers_def)
  then show ?thesis
    using answered_message [where c = demo_consumer and b = ready_breaker and io = "quiet_msg t"
        and prefix = "''nimbus:dedupe:''" and r = fake_empty and hs = "order_handlers orm_default" and d = d,
        OF fake.redis_like_axioms _ demo_message_decodes _ _ HOL.refl HOL.refl]
    by (simp add: demo_handle_def)
qed

lemma captured_for_missing_order:
  "fst (run_handler (quiet_msg t) on_payment_captured (payment_event captured_type) (shelf n v)) = Inl (order_not_found 11)"
proof -
  have "orders_t (view (others_commit (new_session (shelf n v) [] t))) 11 = None" by (simp add: shelf_def)
  from update_missing [OF _ this, of O_PAID] show ?thesis
    by (simp add: run_handler_def on_payment_captured_def with_order_id_event [OF payment_event_order] seq_def
        quiet_msg_def)
qed

theorem redelivery_has_no_effect_witness:
  "snd (snd (demo_handle 9 (snd (demo_handle 5 ((ready_breaker, fake_empty), order_book O_RESERVED)))))
   = snd (snd (demo_handle 5 ((ready_breaker, fake_empty), order_book O_RESERVED)))"
proof -
  let ?w1 = "snd (handle_message fake_redis_ops json_codec ''nimbus:dedupe:'' (order_handlers orm_default)
     demo_consumer (quiet_msg 5) (demo_message captured_type 5) ((ready_breaker, fake_empty), order_book O_RESERVED))"
  show ?thesis
    using redelivery_has_no_effect [where R = fake_redis_ops and live = fake_live and zset = fake_zset
        and c = demo_consumer and msg = "demo_message captured_type 5" and C = json_codec
        and env = "payment_event captured_type" and b = ready_breaker and io = "quiet_msg 5" and prefix = "''nimbus:dedupe:''"
        and hs = "order_handlers orm_default" and r = fake_empty and d = "order_book O_RESERVED" and ?w1.0 = ?w1
        and msg' = "demo_message captured_type 9" and env' = "payment_event captured_type" and io' = "quiet_msg 9",
        OF fake.redis_like_axioms _ demo_message_decodes(1,2,3) _ _ HOL.refl demo_message_decodes(1,2)]
    by (simp add: demo_handle_def seconds_def dedupe_default_ttl_def)
qed

theorem failed_message_is_never_retried_witness:
  "fst (demo_handle 5 ((ready_breaker, fake_empty), shelf 5 1)) = Inl (order_not_found 11)
   \<and> fst (demo_handle 5 (snd (demo_handle 5 ((ready_breaker, fake_empty), shelf 5 1)))) = Inr ()"
proof -
  have e: "fst (demo_handle 5 ((ready_breaker, fake_empty), shelf 5 1)) = Inl (order_not_found 11)"
    using demo_handle_first [of 5 "shelf 5 1"] captured_for_missing_order by auto
  then show ?thesis
    using failed_message_is_never_retried [OF fake.redis_like_axioms order_consumer.event_handlers_axioms _ _
        demo_message_decodes(1,2,3) _ _ _ e [unfolded demo_handle_def] HOL.refl, of "quiet_msg 5"]
    by (simp add: demo_handle_def seconds_def dedupe_default_ttl_def)
qed

theorem committed_offset_was_handled_witness:
  "\<exists>pre io msg post. [((''payments.events'', 0::int), quiet_msg 5, demo_message captured_type 5)]
       = pre @ ((''payments.events'', 0), io, msg) # post \<and> 6 = rec_offset msg + 1"
proof -
  let ?p = "poll_and_dispatch fake_redis_ops json_codec ''nimbus:dedupe:'' (order_handlers orm_default)
     demo_consumer (Inr [((''payments.events'', 0), quiet_msg 5, demo_message captured_type 5)]) None
     (Map.empty, ((ready_breaker, fake_empty), order_book O_RESERVED))"
  have "fst (run_handler (quiet_msg 5) on_payment_captured (payment_event captured_type) (order_book O_RESERVED)) = Inr ()"
    using captured_effect [OF payment_event_order order_book_facts(1,3,7,8)] by (simp add: quiet_msg_def)
  with demo_handle_first [of 5 "order_book O_RESERVED"]
  have "fst (snd ?p) (''payments.events'', 0) = Some 6"
    by (auto simp: poll_and_dispatch_def demo_handle_def)
  from committed_offset_was_handled [OF _ HOL.refl HOL.refl this] show ?thesis by simp blast
qed

theorem offset_skips_failed_message_witness:
  "\<exists>n. fst (snd (poll_and_dispatch fake_redis_ops json_codec ''nimbus:dedupe:'' (order_handlers orm_default) demo_consumer
     (Inr [((''payments.events'', 0), quiet_msg 5, demo_message captured_type 5),
           ((''payments.events'', 0), quiet_msg 5, (demo_message captured_type 6)\<lparr>rec_value := None\<rparr>)]) None
     (Map.empty, ((ready_breaker, fake_empty), shelf 5 1)))) (''payments.events'', 0) = Some n \<and> 5 < n"
proof -
  let ?h = "handle_message fake_redis_ops json_codec ''nimbus:dedupe:'' (order_handlers orm_default) demo_consumer (quiet_msg 5)"
  let ?w = "((ready_breaker, fake_empty), shelf 5 1)"
  let ?m2 = "(demo_message captured_type 6)\<lparr>rec_value := None\<rparr>"
  have "fst (?h (demo_message captured_type 5) ?w) = Inl (order_not_found 11)"
    using demo_handle_first [of 5 "shelf 5 1"] captured_for_missing_order by (auto simp: demo_handle_def)
  moreover have "?h ?m2 w = (Inr (), w)" for w by (simp add: handle_message_def)
  ultimately show ?thesis
    using offset_skips_failed_message [where pre = "[]" and mid = "[]" and post = "[]" and ?io1.0 = "quiet_msg 5"
        and ?rec1.0 = "demo_message captured_type 5" and ?io2.0 = "quiet_msg 5" and ?rec2.0 = ?m2
        and tp = "(''payments.events'', 0)" and w = ?w and offsets = Map.empty, OF _ HOL.refl]
    by simp
qed

end
