(* ===== verification/Security.thy ===== *)
theory Security
  imports Exceptions
begin

text \<open>
  Passwords and tokens, \<open>src/modules/gateway/security.py\<close>. The argon2 library and PyJWT are not
  part of the repository: they are parameters, with the documented behaviour the code relies on
  as the hypotheses \<open>argon2_ok\<close> and \<open>jwt_ok\<close>. A token is a value of any type; the program only
  passes it on.
\<close>

section \<open>Passwords\<close>

record argon2_params =
  time_cost :: int
  memory_cost :: int
  parallelism :: int
  hash_len :: int
  salt_len :: int

datatype verify_outcome = Verified | VerifyMismatchError | VerificationError | InvalidHashError string

record hasher =
  hs_hash :: "string \<Rightarrow> string \<Rightarrow> string"
  hs_verify :: "string \<Rightarrow> string \<Rightarrow> verify_outcome"
  hs_check_needs_rehash :: "string \<Rightarrow> bool"

type_synonym argon2 = "argon2_params \<Rightarrow> hasher"

definition get_hasher :: "argon2 \<Rightarrow> hasher" where
  "get_hasher A = A \<lparr>time_cost = 3, memory_cost = 65536, parallelism = 4, hash_len = 32, salt_len = 16\<rparr>"

text \<open>\<open>salt\<close> is the randomness the library draws.\<close>

definition hash_password :: "argon2 \<Rightarrow> string \<Rightarrow> string \<Rightarrow> exc + string" where
  "hash_password A salt plain =
     (if plain = [] then Inl (PasswordError ''Cannot hash an empty password.'')
      else Inr (hs_hash (get_hasher A) salt plain))"

definition verify_password :: "argon2 \<Rightarrow> string \<Rightarrow> string \<Rightarrow> exc + bool" where
  "verify_password A plain encoded =
     (if plain = [] \<or> encoded = [] then Inr False
      else case hs_verify (get_hasher A) encoded plain of
        Verified \<Rightarrow> Inr True
      | VerifyMismatchError \<Rightarrow> Inr False
      | VerificationError \<Rightarrow> Inr False
      | InvalidHashError m \<Rightarrow> Inl (PasswordError (''Malformed password hash: '' @ m)))"

definition needs_rehash :: "argon2 \<Rightarrow> string \<Rightarrow> bool" where
  "needs_rehash A encoded = hs_check_needs_rehash (get_hasher A) encoded"

text \<open>
  What the code relies on: a hash verifies the password it was made from, is not empty and fits
  the column that stores it.
\<close>

definition argon2_ok :: "argon2 \<Rightarrow> bool" where
  "argon2_ok A \<longleftrightarrow> (\<forall>salt plain. plain \<noteq> [] \<longrightarrow>
     hs_verify (get_hasher A) (hs_hash (get_hasher A) salt plain) plain = Verified
     \<and> hs_hash (get_hasher A) salt plain \<noteq> [] \<and> length (hs_hash (get_hasher A) salt plain) \<le> 255)"

lemma verify_hash_password:
  "argon2_ok A \<Longrightarrow> hash_password A salt plain = Inr encoded \<Longrightarrow> verify_password A plain encoded = Inr True"
  by (auto simp: hash_password_def verify_password_def argon2_ok_def split: if_splits)

section \<open>Tokens\<close>

datatype TokenType = ACCESS | REFRESH

fun token_type_value :: "TokenType \<Rightarrow> string" where
  "token_type_value ACCESS = ''access''"
| "token_type_value REFRESH = ''refresh''"

record TokenClaims =
  tc_subject :: string
  tc_token_type :: TokenType
  tc_issued_at :: int
  tc_expires_at :: int
  tc_jti :: string
  tc_issuer :: string
  tc_audience :: string
  tc_raw :: "(string \<times> json) list"

record jwt_settings =
  jwt_secret_key :: string
  jwt_algorithm :: string
  jwt_issuer :: string
  jwt_audience :: string
  jwt_access_token_ttl_seconds :: int
  jwt_refresh_token_ttl_seconds :: int

datatype jwt_error = ExpiredSignatureError | InvalidAudienceError | InvalidIssuerError | InvalidTokenError

text \<open>
  The library: \<open>jwt.encode(payload, key, algorithm)\<close> and \<open>jwt.decode\<close> at a time, with the key,
  the algorithms, the audience, the issuer and the required claims.
\<close>

record 'tok jwt_lib =
  jw_encode :: "(string \<times> json) list \<Rightarrow> string \<Rightarrow> string \<Rightarrow> 'tok"
  jw_decode :: "int \<Rightarrow> 'tok \<Rightarrow> string \<Rightarrow> string list \<Rightarrow> string \<Rightarrow> string \<Rightarrow> string list
    \<Rightarrow> jwt_error + (string \<times> json) list"

text \<open>\<open>now\<close> is \<open>int(time.time())\<close> and \<open>jti\<close> the UUID that is drawn.\<close>

definition build_payload ::
    "jwt_settings \<Rightarrow> int \<Rightarrow> uuid \<Rightarrow> string \<Rightarrow> TokenType \<Rightarrow> int \<Rightarrow> (string \<times> json) list option
     \<Rightarrow> (string \<times> json) list" where
  "build_payload S now jti subject token_type ttl_seconds extra =
     (let payload =
        [(''sub'', JStr subject),
         (''typ'', JStr (token_type_value token_type)),
         (''iat'', JInt now),
         (''nbf'', JInt now),
         (''exp'', JInt (now + ttl_seconds)),
         (''jti'', JStr (uuid_hex jti)),
         (''iss'', JStr (jwt_issuer S)),
         (''aud'', JStr (jwt_audience S))] in
      case extra of None \<Rightarrow> payload | Some e \<Rightarrow> if e = [] then payload else dict_update payload e)"

definition encode :: "'tok jwt_lib \<Rightarrow> jwt_settings \<Rightarrow> (string \<times> json) list \<Rightarrow> 'tok" where
  "encode J S payload = jw_encode J payload (jwt_secret_key S) (jwt_algorithm S)"

definition required_claims :: "string list" where
  "required_claims = [''sub'', ''typ'', ''iat'', ''exp'', ''jti'', ''iss'', ''aud'']"

definition token_error :: "string \<Rightarrow> exc" where
  "token_error m = nimbus_error TokenError (Some m) None"

fun translate_jwt_error :: "jwt_error \<Rightarrow> exc" where
  "translate_jwt_error ExpiredSignatureError = token_error ''Token has expired.''"
| "translate_jwt_error InvalidAudienceError = token_error ''Token audience is invalid.''"
| "translate_jwt_error InvalidIssuerError = token_error ''Token issuer is invalid.''"
| "translate_jwt_error InvalidTokenError = token_error ''Token is invalid.''"

text \<open>\<open>decoded[k]\<close>, and \<open>int(decoded[k])\<close>.\<close>

definition claim :: "(string \<times> json) list \<Rightarrow> string \<Rightarrow> exc + json" where
  "claim decoded k = (case map_of decoded k of None \<Rightarrow> Inl (OtherError ''KeyError'' k) | Some j \<Rightarrow> Inr j)"

definition int_claim :: "(string \<times> json) list \<Rightarrow> string \<Rightarrow> exc + int" where
  "int_claim decoded k = bind_sum (claim decoded k) (\<lambda>j.
     case j of
       JInt n \<Rightarrow> Inr n
     | JBool b \<Rightarrow> Inr (if b then 1 else 0)
     | JStr s \<Rightarrow> (case py_int s of Some n \<Rightarrow> Inr n | None \<Rightarrow> Inl (ValueError ''invalid literal for int()''))
     | _ \<Rightarrow> Inl (OtherError ''TypeError'' ''int() argument''))"

definition token_claims :: "TokenType \<Rightarrow> (string \<times> json) list \<Rightarrow> exc + TokenClaims" where
  "token_claims typ decoded =
     bind_sum (claim decoded ''sub'') (\<lambda>sub.
     bind_sum (int_claim decoded ''iat'') (\<lambda>iat.
     bind_sum (int_claim decoded ''exp'') (\<lambda>ex.
     bind_sum (claim decoded ''jti'') (\<lambda>jti.
     bind_sum (claim decoded ''iss'') (\<lambda>iss.
     bind_sum (claim decoded ''aud'') (\<lambda>aud.
     Inr \<lparr>tc_subject = py_str_json sub, tc_token_type = typ, tc_issued_at = iat, tc_expires_at = ex,
          tc_jti = py_str_json jti, tc_issuer = py_str_json iss, tc_audience = py_str_json aud,
          tc_raw = decoded\<rparr>))))))"

text \<open>The \<open>except (KeyError, ValueError)\<close> clause around it.\<close>

definition missing_claims :: "exc \<Rightarrow> exc" where
  "missing_claims e = (case e of
       ValueError _ \<Rightarrow> token_error ''Token is missing required claims.''
     | OtherError ty _ \<Rightarrow> if ty = ''KeyError'' then token_error ''Token is missing required claims.'' else e
     | _ \<Rightarrow> e)"

text \<open>
  The type claim: a value that cannot be an element of a set (a list or a dict) makes the
  membership test raise \<open>TypeError\<close>.
\<close>

definition token_type_of :: "(string \<times> json) list \<Rightarrow> exc + TokenType" where
  "token_type_of decoded =
     (case map_of decoded ''typ'' of
        Some (JStr t) \<Rightarrow>
          if t = ''access'' then Inr ACCESS
          else if t = ''refresh'' then Inr REFRESH
          else Inl (token_error ''Token type claim is missing or malformed.'')
      | Some (JList _) \<Rightarrow> Inl (OtherError ''TypeError'' ''unhashable type'')
      | Some (JDict _) \<Rightarrow> Inl (OtherError ''TypeError'' ''unhashable type'')
      | _ \<Rightarrow> Inl (token_error ''Token type claim is missing or malformed.''))"

definition decode :: "'tok jwt_lib \<Rightarrow> jwt_settings \<Rightarrow> int \<Rightarrow> 'tok \<Rightarrow> TokenType \<Rightarrow> exc + TokenClaims" where
  "decode J S now token expected_type =
     (case jw_decode J now token (jwt_secret_key S) [jwt_algorithm S] (jwt_audience S) (jwt_issuer S)
             required_claims of
        Inl err \<Rightarrow> Inl (translate_jwt_error err)
      | Inr decoded \<Rightarrow>
          bind_sum (token_type_of decoded) (\<lambda>typ.
            if typ \<noteq> expected_type
            then Inl (token_error (''Expected '' @ token_type_value expected_type @ '' token, got ''
                        @ py_repr_str (token_type_value typ) @ ''.''))
            else case token_claims typ decoded of Inl e \<Rightarrow> Inl (missing_claims e) | Inr c \<Rightarrow> Inr c))"

definition create_token ::
    "'tok jwt_lib \<Rightarrow> jwt_settings \<Rightarrow> int \<Rightarrow> uuid \<Rightarrow> TokenType \<Rightarrow> string \<Rightarrow> int \<Rightarrow> (string \<times> json) list option
     \<Rightarrow> exc + 'tok" where
  "create_token J S now jti typ subject ttl extra =
     (if ttl \<le> 0 then Inl (ValueError ''ttl_seconds must be > 0'')
      else Inr (encode J S (build_payload S now jti subject typ ttl extra)))"

definition create_access_token ::
    "'tok jwt_lib \<Rightarrow> jwt_settings \<Rightarrow> int \<Rightarrow> uuid \<Rightarrow> string \<Rightarrow> int option \<Rightarrow> (string \<times> json) list option
     \<Rightarrow> exc + 'tok" where
  "create_access_token J S now jti subject ttl_seconds extra_claims =
     create_token J S now jti ACCESS subject
       (case ttl_seconds of Some n \<Rightarrow> n | None \<Rightarrow> jwt_access_token_ttl_seconds S) extra_claims"

definition create_refresh_token ::
    "'tok jwt_lib \<Rightarrow> jwt_settings \<Rightarrow> int \<Rightarrow> uuid \<Rightarrow> string \<Rightarrow> int option \<Rightarrow> (string \<times> json) list option
     \<Rightarrow> exc + 'tok" where
  "create_refresh_token J S now jti subject ttl_seconds extra_claims =
     create_token J S now jti REFRESH subject
       (case ttl_seconds of Some n \<Rightarrow> n | None \<Rightarrow> jwt_refresh_token_ttl_seconds S) extra_claims"

definition decode_access_token :: "'tok jwt_lib \<Rightarrow> jwt_settings \<Rightarrow> int \<Rightarrow> 'tok \<Rightarrow> exc + TokenClaims" where
  "decode_access_token J S now token = decode J S now token ACCESS"

definition decode_refresh_token :: "'tok jwt_lib \<Rightarrow> jwt_settings \<Rightarrow> int \<Rightarrow> 'tok \<Rightarrow> exc + TokenClaims" where
  "decode_refresh_token J S now token = decode J S now token REFRESH"

section \<open>API keys\<close>

text \<open>\<open>random\<close> is \<open>secrets.token_urlsafe(32)\<close>.\<close>

definition generate_api_key :: "string \<Rightarrow> string \<Rightarrow> exc + string" where
  "generate_api_key prefix random =
     (let p = filter (\<lambda>c. c \<noteq> CHR ''_'') prefix in
      if prefix = [] \<or> p = [] \<or> \<not> list_all char_isalnum p
      then Inl (ValueError ''prefix must be alphanumeric (underscore allowed)'')
      else Inr (prefix @ ''_'' @ random))"

section \<open>The library's promises\<close>

text \<open>
  The claims of a token that PyJWT accepts for an audience and an issuer, its expiry apart: the
  required claims are there, it is not from the future, and the audience and the issuer match.
\<close>

definition standard_claims :: "int \<Rightarrow> string \<Rightarrow> string \<Rightarrow> string list \<Rightarrow> (string \<times> json) list \<Rightarrow> int \<Rightarrow> bool" where
  "standard_claims now aud iss required payload ex \<longleftrightarrow>
     (\<forall>k\<in>set required. map_of payload k \<notin> {None, Some JNull})
     \<and> (\<exists>iat\<le>now. map_of payload ''iat'' = Some (JInt iat))
     \<and> (\<exists>nbf\<le>now. map_of payload ''nbf'' = Some (JInt nbf))
     \<and> map_of payload ''exp'' = Some (JInt ex)
     \<and> (\<exists>s. map_of payload ''sub'' = Some (JStr s)) \<and> (\<exists>s. map_of payload ''jti'' = Some (JStr s))
     \<and> map_of payload ''aud'' = Some (JStr aud) \<and> map_of payload ''iss'' = Some (JStr iss)"

text \<open>
  A token that was signed with one of the HMAC algorithms decodes under the same key, which may be any
  text that PyJWT does not take for a PEM or SSH key. For the asymmetric algorithms nothing is promised:
  they verify with another key than they sign with.
\<close>

definition hmac_algorithms :: "string list" where
  "hmac_algorithms = [''HS256'', ''HS384'', ''HS512'']"

definition plain_secret :: "string \<Rightarrow> bool" where
  "plain_secret key \<longleftrightarrow> key \<noteq> [] \<and> \<not> contains ''-----BEGIN'' key \<and> \<not> contains ''ssh-'' key \<and> \<not> contains ''ecdsa-'' key"

definition jwt_ok :: "'tok jwt_lib \<Rightarrow> bool" where
  "jwt_ok J \<longleftrightarrow> (\<forall>now payload key alg aud iss required ex.
     alg \<in> set hmac_algorithms \<and> plain_secret key \<and> standard_claims now aud iss required payload ex \<longrightarrow>
     jw_decode J now (jw_encode J payload key alg) key [alg] aud iss required
       = (if ex \<le> now then Inl ExpiredSignatureError else Inr payload))"

definition hmac_settings :: "jwt_settings \<Rightarrow> bool" where
  "hmac_settings S \<longleftrightarrow> jwt_algorithm S \<in> set hmac_algorithms \<and> plain_secret (jwt_secret_key S)"

text \<open>Whenever a token is accepted, its claims are the same.\<close>

definition jwt_stable :: "'tok jwt_lib \<Rightarrow> bool" where
  "jwt_stable J \<longleftrightarrow> (\<forall>now now' token key algs aud iss required p p'.
     jw_decode J now token key algs aud iss required = Inr p \<and> jw_decode J now' token key algs aud iss required = Inr p'
     \<longrightarrow> p = p')"

section \<open>Facts\<close>

lemma token_type_value_inject [simp]: "token_type_value a = token_type_value b \<longleftrightarrow> a = b"
  by (cases a; cases b) simp_all

definition reserved_claims :: "string list" where
  "reserved_claims = [''sub'', ''typ'', ''iat'', ''nbf'', ''exp'', ''jti'', ''iss'', ''aud'']"

lemma payload_claims:
  assumes "case extra of None \<Rightarrow> True | Some e \<Rightarrow> fst ` set e \<inter> set reserved_claims = {}"
    and "p = build_payload S now jti subject typ ttl extra"
  shows "map_of p ''sub'' = Some (JStr subject)" "map_of p ''typ'' = Some (JStr (token_type_value typ))"
    "map_of p ''iat'' = Some (JInt now)" "map_of p ''nbf'' = Some (JInt now)"
    "map_of p ''exp'' = Some (JInt (now + ttl))" "map_of p ''jti'' = Some (JStr (uuid_hex jti))"
    "map_of p ''iss'' = Some (JStr (jwt_issuer S))" "map_of p ''aud'' = Some (JStr (jwt_audience S))"
proof -
  define base where "base = build_payload S now jti subject typ ttl None"
  have same: "map_of p k = map_of base k" if "k \<in> set reserved_claims" for k
  proof (cases extra)
    case None
    then show ?thesis by (simp add: assms(2) base_def)
  next
    case (Some e)
    then have "map_of (rev e) k = None"
      using assms(1) that by (auto simp: map_of_eq_None_iff)
    then show ?thesis
      using assms(2) Some
      by (auto simp: base_def build_payload_def map_of_dict_update map_add_def Let_def simp del: map_of.simps)
  qed
  show "map_of p ''sub'' = Some (JStr subject)" "map_of p ''typ'' = Some (JStr (token_type_value typ))"
    "map_of p ''iat'' = Some (JInt now)" "map_of p ''nbf'' = Some (JInt now)"
    "map_of p ''exp'' = Some (JInt (now + ttl))" "map_of p ''jti'' = Some (JStr (uuid_hex jti))"
    "map_of p ''iss'' = Some (JStr (jwt_issuer S))" "map_of p ''aud'' = Some (JStr (jwt_audience S))"
    by (subst same, simp add: reserved_claims_def, simp add: base_def build_payload_def)+
qed

lemma token_type_of_typ: "map_of decoded ''typ'' = Some (JStr (token_type_value typ)) \<Longrightarrow> token_type_of decoded = Inr typ"
  by (cases "typ") (simp_all add: token_type_of_def)

lemma decode_created:
  assumes "jwt_ok J" and "hmac_settings S" and "case extra of None \<Rightarrow> True | Some e \<Rightarrow> fst ` set e \<inter> set reserved_claims = {}"
    and "create_token J S now jti kind subject ttl extra = Inr token" and "now \<le> now'"
  shows "decode J S now' token expected =
    (if now + ttl \<le> now' then Inl (token_error ''Token has expired.'')
     else if kind \<noteq> expected
     then Inl (token_error (''Expected '' @ token_type_value expected @ '' token, got ''
                 @ py_repr_str (token_type_value kind) @ ''.''))
     else Inr \<lparr>tc_subject = subject, tc_token_type = kind, tc_issued_at = now, tc_expires_at = now + ttl,
            tc_jti = uuid_hex jti, tc_issuer = jwt_issuer S, tc_audience = jwt_audience S,
            tc_raw = build_payload S now jti subject kind ttl extra\<rparr>)"
proof -
  define p where "p = build_payload S now jti subject kind ttl extra"
  note claims = payload_claims [OF assms(3) p_def]
  have tok: "token = jw_encode J p (jwt_secret_key S) (jwt_algorithm S)"
    using assms(4) by (simp add: create_token_def encode_def p_def split: if_splits)
  have "standard_claims now' (jwt_audience S) (jwt_issuer S) required_claims p (now + ttl)"
    using assms(5) by (simp add: standard_claims_def required_claims_def claims)
  then have "jw_decode J now' token (jwt_secret_key S) [jwt_algorithm S] (jwt_audience S) (jwt_issuer S)
      required_claims = (if now + ttl \<le> now' then Inl ExpiredSignatureError else Inr p)"
    using assms(1,2) unfolding jwt_ok_def hmac_settings_def tok by blast
  moreover have "token_type_of p = Inr kind" by (rule token_type_of_typ) (rule claims)
  moreover have "token_claims kind p = Inr \<lparr>tc_subject = subject, tc_token_type = kind, tc_issued_at = now,
      tc_expires_at = now + ttl, tc_jti = uuid_hex jti, tc_issuer = jwt_issuer S,
      tc_audience = jwt_audience S, tc_raw = p\<rparr>"
    by (simp add: token_claims_def claim_def int_claim_def claims py_str_json_def)
  ultimately show ?thesis by (auto simp: decode_def p_def)
qed

section \<open>Properties\<close>

text \<open>
  C20: A token decodes to what it was minted with, when the settings name an HMAC algorithm (\<open>HS256\<close> is the
  default) and a secret that is not the text of a PEM or SSH key: one key then signs and verifies. An access token, minted with extra claims that do not
  use the reserved names, decodes at any later second before its expiry to its subject, type,
  issue and expiry times, identifier, issuer and audience; from the second of its expiry on it is
  refused as expired; and until then it is refused where a refresh token is expected.
\<close>

theorem access_token_roundtrip:
  assumes "jwt_ok J" and "hmac_settings S"
    and "case extra of None \<Rightarrow> True | Some e \<Rightarrow> fst ` set e \<inter> set reserved_claims = {}"
    and "create_access_token J S now jti subject ttl extra = Inr token" and "now \<le> now'"
    and "n = (case ttl of Some n \<Rightarrow> n | None \<Rightarrow> jwt_access_token_ttl_seconds S)"
  shows "decode_access_token J S now' token =
      (if now + n \<le> now' then Inl (token_error ''Token has expired.'')
       else Inr \<lparr>tc_subject = subject, tc_token_type = ACCESS, tc_issued_at = now, tc_expires_at = now + n,
              tc_jti = uuid_hex jti, tc_issuer = jwt_issuer S, tc_audience = jwt_audience S,
              tc_raw = build_payload S now jti subject ACCESS n extra\<rparr>)
    \<and> decode_refresh_token J S now' token =
      Inl (token_error (if now + n \<le> now' then ''Token has expired.''
        else ''Expected refresh token, got '' @ py_repr_str ''access'' @ ''.''))"
  using decode_created [OF assms(1-3) _ assms(5), of jti ACCESS subject n token] assms(4,6)
  by (simp add: create_access_token_def decode_access_token_def decode_refresh_token_def)

text \<open>A library that keeps the claims, the key and the algorithm in the token.\<close>

type_synonym open_token = "(string \<times> json) list \<times> string \<times> string"

definition int_at_most :: "int \<Rightarrow> json option \<Rightarrow> bool" where
  "int_at_most n j = (case j of Some (JInt m) \<Rightarrow> m \<le> n | _ \<Rightarrow> False)"

definition open_jwt :: "open_token jwt_lib" where
  "open_jwt =
     \<lparr>jw_encode = (\<lambda>payload key alg. (payload, key, alg)),
      jw_decode = (\<lambda>now (payload, key', alg) key algs aud iss required.
        if key' \<noteq> key \<or> alg \<notin> set algs \<or> list_ex (\<lambda>k. map_of payload k \<in> {None, Some JNull}) required
           \<or> \<not> int_at_most now (map_of payload ''iat'') \<or> \<not> int_at_most now (map_of payload ''nbf'')
        then Inl InvalidTokenError
        else if int_at_most now (map_of payload ''exp'') then Inl ExpiredSignatureError
        else if map_of payload ''iss'' \<noteq> Some (JStr iss) then Inl InvalidIssuerError
        else if map_of payload ''aud'' \<noteq> Some (JStr aud) then Inl InvalidAudienceError
        else Inr payload)\<rparr>"

lemma open_jwt_ok: "jwt_ok open_jwt"
  by (auto simp: jwt_ok_def open_jwt_def standard_claims_def int_at_most_def list_ex_iff)

definition demo_jwt_settings :: jwt_settings where
  "demo_jwt_settings = \<lparr>jwt_secret_key = ''k'', jwt_algorithm = ''HS256'', jwt_issuer = ''nimbus'',
     jwt_audience = ''nimbus-api'', jwt_access_token_ttl_seconds = 900, jwt_refresh_token_ttl_seconds = 604800\<rparr>"

lemma demo_jwt_settings_hmac: "hmac_settings demo_jwt_settings"
  unfolding hmac_settings_def demo_jwt_settings_def by code_simp

definition demo_token :: "TokenType \<Rightarrow> open_token" where
  "demo_token kind = encode open_jwt demo_jwt_settings (build_payload demo_jwt_settings 1000 7 ''alice'' kind
     (if kind = ACCESS then 900 else 604800) None)"

theorem access_token_roundtrip_witness:
  "map_sum id tc_subject (decode_access_token open_jwt demo_jwt_settings 1899 (demo_token ACCESS)) = Inr ''alice''
   \<and> decode_access_token open_jwt demo_jwt_settings 1900 (demo_token ACCESS) = Inl (token_error ''Token has expired.'')"
proof -
  have "create_access_token open_jwt demo_jwt_settings 1000 7 ''alice'' None None = Inr (demo_token ACCESS)"
    by (simp add: create_access_token_def create_token_def demo_token_def demo_jwt_settings_def)
  note round = access_token_roundtrip [OF open_jwt_ok demo_jwt_settings_hmac _ this _ HOL.refl]
  from round [of 1899] round [of 1900] show ?thesis by (simp add: demo_jwt_settings_def)
qed

lemma decode_kind:
  assumes "decode J S now token kind = Inr c"
  obtains decoded where "jw_decode J now token (jwt_secret_key S) [jwt_algorithm S] (jwt_audience S) (jwt_issuer S)
      required_claims = Inr decoded"
    and "token_type_of decoded = Inr kind" and "tc_token_type c = kind" and "tc_raw c = decoded"
    and "map_of decoded ''typ'' = Some (JStr (token_type_value kind))"
proof -
  from assms obtain decoded where d: "jw_decode J now token (jwt_secret_key S) [jwt_algorithm S]
      (jwt_audience S) (jwt_issuer S) required_claims = Inr decoded"
    by (auto simp: decode_def split: sum.splits)
  with assms have t: "token_type_of decoded = Inr kind" and c: "token_claims kind decoded = Inr c"
    by (cases "token_type_of decoded"; cases "token_claims kind decoded";
        auto simp: decode_def split: if_splits)+
  from c have "tc_token_type c = kind" "tc_raw c = decoded" by (auto simp: token_claims_def bind_sum_Inr)
  moreover from t have "map_of decoded ''typ'' = Some (JStr (token_type_value kind))"
    by (auto simp: token_type_of_def split: option.splits json.splits if_splits)
  ultimately show thesis using that d t by blast
qed

lemma decode_other_kind:
  assumes "now = now' \<or> jwt_stable J" and "decode J S now token kind = Inr c" and "other \<noteq> kind"
  shows "\<exists>e. decode J S now' token other = Inl e"
proof (rule ccontr)
  assume "\<nexists>e. decode J S now' token other = Inl e"
  then obtain c' where c': "decode J S now' token other = Inr c'" by (metis obj_sumE)
  from assms(2) obtain p where p: "jw_decode J now token (jwt_secret_key S) [jwt_algorithm S]
      (jwt_audience S) (jwt_issuer S) required_claims = Inr p" "token_type_of p = Inr kind" by (rule decode_kind)
  from c' obtain p' where p': "jw_decode J now' token (jwt_secret_key S) [jwt_algorithm S]
      (jwt_audience S) (jwt_issuer S) required_claims = Inr p'" "token_type_of p' = Inr other" by (rule decode_kind)
  have "p = p'" using assms(1) p(1) p'(1) unfolding jwt_stable_def by force
  with p(2) p'(2) assms(3) show False by simp
qed

text \<open>
  C21: No token is accepted as both kinds. A token that \<open>decode_access_token\<close> accepts carries the type claim
  \<open>access\<close>, and \<open>decode_refresh_token\<close> refuses it, and the other way round: at the same time whatever the
  library does, and at any two times when the library reads the same claims from a token whenever it
  accepts it.
\<close>

theorem token_kinds_disjoint:
  assumes "now = now' \<or> jwt_stable J"
  shows "(decode_access_token J S now token = Inr c \<longrightarrow>
      tc_token_type c = ACCESS \<and> map_of (tc_raw c) ''typ'' = Some (JStr ''access'')
      \<and> (\<exists>e. decode_refresh_token J S now' token = Inl e))
    \<and> (decode_refresh_token J S now token = Inr c \<longrightarrow>
      tc_token_type c = REFRESH \<and> map_of (tc_raw c) ''typ'' = Some (JStr ''refresh'')
      \<and> (\<exists>e. decode_access_token J S now' token = Inl e))"
  using decode_other_kind [OF assms, of S token ACCESS c REFRESH]
    decode_other_kind [OF assms, of S token REFRESH c ACCESS]
  by (auto simp: decode_access_token_def decode_refresh_token_def elim: decode_kind)

theorem token_kinds_disjoint_witness:
  "\<exists>e. decode_refresh_token open_jwt demo_jwt_settings 1700 (demo_token ACCESS) = Inl e"
proof -
  have "create_access_token open_jwt demo_jwt_settings 1000 7 ''alice'' None None = Inr (demo_token ACCESS)"
    by (simp add: create_access_token_def create_token_def demo_token_def demo_jwt_settings_def)
  from decode_created [OF open_jwt_ok demo_jwt_settings_hmac _ this [unfolded create_access_token_def], of 1500 ACCESS]
  obtain c where "decode_access_token open_jwt demo_jwt_settings 1500 (demo_token ACCESS) = Inr c"
    by (auto simp: decode_access_token_def demo_jwt_settings_def)
  moreover have "jwt_stable open_jwt"
    by (auto simp: jwt_stable_def open_jwt_def split: if_splits)
  ultimately show ?thesis
    using token_kinds_disjoint [of 1500 1700 open_jwt demo_jwt_settings "demo_token ACCESS" c] by blast
qed

end
