(* ===== verification/Users.thy ===== *)
theory Users
  imports Transactions Security
begin

text \<open>
  The users module, \<open>src/modules/users/services.py\<close>: registration, login and lookup, on the
  session model of the database and the password functions of the gateway.
\<close>

section \<open>Operations\<close>

record CreateUserRequest =
  cu_email :: string
  cu_password :: string

record AuthenticateRequest =
  au_email :: string
  au_password :: string

record user_io =
  ui_user_id :: uuid
  ui_salt :: string

definition normalize_email :: "string \<Rightarrow> string" where
  "normalize_email email = py_lower (py_strip email)"

definition one_or_none :: "'a list \<Rightarrow> (session, exc, 'a option) comp" where
  "one_or_none rows =
     (case rows of [] \<Rightarrow> ret None | [x] \<Rightarrow> ret (Some x)
      | _ \<Rightarrow> raise_exc (OtherError ''MultipleResultsFound'' []))"

definition get_user_by_email :: "string \<Rightarrow> (session, exc, user option) comp" where
  "get_user_by_email email =
     seq (modify others_commit) (\<lambda>_ s. one_or_none (filter (\<lambda>u. us_email u = email) (users_t (view s))) s)"

definition email_taken :: "string \<Rightarrow> exc" where
  "email_taken email = nimbus_error UserAlreadyExistsError (Some ''Email is already registered.'')
     (Some [(''email'', JStr email)])"

definition new_user :: "user_io \<Rightarrow> int \<Rightarrow> string \<Rightarrow> string \<Rightarrow> user" where
  "new_user io now email encoded =
     \<lparr>us_id = ui_user_id io, us_email = email, us_password_hash = encoded, us_created_at = now, us_updated_at = now\<rparr>"

definition create_user :: "argon2 \<Rightarrow> user_io \<Rightarrow> CreateUserRequest \<Rightarrow> (session, exc, user) comp" where
  "create_user A io request =
     (let email = normalize_email (cu_email request) in
      case hash_password A (ui_salt io) (cu_password request) of
        Inl e \<Rightarrow> raise_exc e
      | Inr encoded \<Rightarrow>
          seq (get_user_by_email email) (\<lambda>existing.
            case existing of
              Some _ \<Rightarrow> raise_exc (email_taken email)
            | None \<Rightarrow>
                (\<lambda>s. let u = new_user io (se_now s) email encoded in
                  seq (session_add (InsertUser u)) (\<lambda>_.
                  seq (try_except session_flush (\<lambda>e.
                         case e of
                           IntegrityError _ \<Rightarrow>
                             seq (modify session_rollback) (\<lambda>_. raise_exc (email_taken email))
                         | _ \<Rightarrow> raise_exc e)) (\<lambda>_.
                  ret u)) s)))"

definition invalid_credentials :: exc where
  "invalid_credentials = nimbus_error InvalidCredentialsError (Some ''Invalid email or password.'') None"

definition authenticate_user :: "argon2 \<Rightarrow> AuthenticateRequest \<Rightarrow> (session, exc, user) comp" where
  "authenticate_user A request =
     seq (get_user_by_email (normalize_email (au_email request))) (\<lambda>found.
       case found of
         None \<Rightarrow> raise_exc invalid_credentials
       | Some u \<Rightarrow>
           (case verify_password A (au_password request) (us_password_hash u) of
              Inl e \<Rightarrow> raise_exc e
            | Inr ok \<Rightarrow> if \<not> ok then raise_exc invalid_credentials else ret u))"

text \<open>The identifier is a UUID, or a string that is parsed as one.\<close>

datatype user_ref = UserUuid uuid | UserText string

definition user_not_found :: "uuid \<Rightarrow> exc" where
  "user_not_found uid = nimbus_error UserNotFoundError (Some ''User does not exist.'')
     (Some [(''user_id'', JStr (str_uuid uid))])"

definition get_user_by_id :: "user_ref \<Rightarrow> (session, exc, user) comp" where
  "get_user_by_id ref =
     (case (case ref of UserUuid uid \<Rightarrow> Some uid | UserText txt \<Rightarrow> uuid_of_string txt) of
        None \<Rightarrow> raise_exc (ValueError ''badly formed hexadecimal UUID string'')
      | Some uid \<Rightarrow>
          seq (modify others_commit) (\<lambda>_ s.
          seq (one_or_none (filter (\<lambda>u. us_id u = uid) (users_t (view s)))) (\<lambda>found.
            case found of None \<Rightarrow> raise_exc (user_not_found uid) | Some u \<Rightarrow> ret u) s))"

section \<open>Facts\<close>

lemma normalize_email_lower [simp]: "py_lower (normalize_email e) = normalize_email e"
  by (simp add: normalize_email_def)

lemma one_or_none_same_state: "one_or_none xs s = (r, s') \<Longrightarrow> s' = s"
  by (auto simp: one_or_none_def ret_def raise_exc_def split: list.splits)

lemma get_user_by_email_state: "get_user_by_email e s = (r, s') \<Longrightarrow> s' = others_commit s"
  by (auto simp: get_user_by_email_def seq_def modify_def dest: one_or_none_same_state)

lemma one_or_none_none: "one_or_none xs s = (Inr None, s') \<longleftrightarrow> xs = [] \<and> s' = s"
  by (auto simp: one_or_none_def ret_def raise_exc_def split: list.splits)

lemma get_user_by_email_none:
  "get_user_by_email e s = (Inr None, s') \<longleftrightarrow>
     s' = others_commit s \<and> (\<forall>u\<in>set (users_t (view (others_commit s))). us_email u \<noteq> e)"
  by (auto simp: get_user_by_email_def seq_def modify_def one_or_none_none filter_empty_conv
      simp del: view_simps)

lemma get_user_by_email_unique:
  assumes "se_env s = []" and "users_t (view s) = xs @ u # ys" and "\<forall>v\<in>set (xs @ ys). us_email v \<noteq> us_email u"
  shows "get_user_by_email (us_email u) s = (Inr (Some u), s)"
proof -
  have "filter (\<lambda>v. us_email v = us_email u) (users_t (view s)) = [u]"
    unfolding assms(2) using assms(3) by (simp add: filter_empty_conv)
  then show ?thesis using assms(1) by (simp add: get_user_by_email_def seq_def modify_def one_or_none_def ret_def)
qed

text \<open>The two ways through \<open>create_user\<close> once the password is hashed and the address is free.\<close>

definition insert_user :: "user \<Rightarrow> (session, exc, user) comp" where
  "insert_user u =
     seq (session_add (InsertUser u)) (\<lambda>_.
     seq (try_except session_flush (\<lambda>e.
            case e of IntegrityError _ \<Rightarrow> seq (modify session_rollback) (\<lambda>_. raise_exc (email_taken (us_email u)))
            | _ \<Rightarrow> raise_exc e)) (\<lambda>_.
     ret u))"

lemma new_user_email [simp]: "us_email (new_user io now email encoded) = email"
  by (simp add: new_user_def)

lemma create_user_eq:
  "create_user A io req =
     (case hash_password A (ui_salt io) (cu_password req) of
        Inl e \<Rightarrow> raise_exc e
      | Inr encoded \<Rightarrow>
          seq (get_user_by_email (normalize_email (cu_email req))) (\<lambda>existing.
            case existing of
              Some _ \<Rightarrow> raise_exc (email_taken (normalize_email (cu_email req)))
            | None \<Rightarrow> (\<lambda>s. insert_user (new_user io (se_now s) (normalize_email (cu_email req)) encoded) s)))"
  unfolding create_user_def insert_user_def Let_def new_user_email by (rule HOL.refl)

lemma insert_user_ok:
  assumes "insert_user u s = (Inr x, s')" and "se_pending s = []"
  shows "x = u \<and> user_columns_ok u \<and> user_checks u
    \<and> (\<forall>v\<in>set (users_t (view (others_commit s))). us_id v \<noteq> us_id u \<and> us_email v \<noteq> us_email u)
    \<and> se_writes s' = (se_writes s)\<lparr>users_t := users_t (se_writes s) @ [u]\<rparr>
    \<and> se_db s' = se_db (others_commit s) \<and> se_pending s' = [] \<and> se_env s' = se_env (others_commit s)"
proof -
  have add: "others_commit (s\<lparr>se_pending := ps\<rparr>) = (others_commit s)\<lparr>se_pending := ps\<rparr>" for ps
    by (simp add: others_commit_def Let_def split: list.splits)
  have v: "view (s\<lparr>se_pending := ps\<rparr>) = view s" for s ps by (simp add: view_def)
  from assms show ?thesis
    by (auto simp: insert_user_def seq_def session_add_def modify_def try_except_def session_flush_def
        flush_row_def Let_def add v ret_def raise_exc_def simp del: view_simps
        split: if_splits exc.splits sum.splits)
qed

lemma insert_user_error:
  assumes "insert_user u s = (Inl e, s')"
  shows "se_writes s' = empty_db \<and> se_pending s' = [] \<and> se_db s' = se_db (others_commit s)
    \<and> se_env s' = se_env (others_commit s)"
proof -
  have add: "others_commit (s\<lparr>se_pending := ps\<rparr>) = (others_commit s)\<lparr>se_pending := ps\<rparr>" for ps
    by (simp add: others_commit_def Let_def split: list.splits)
  from assms show ?thesis
    by (auto simp: insert_user_def seq_def session_add_def modify_def try_except_def
        add ret_def raise_exc_def dest!: session_flush_error
        split: prod.splits sum.splits exc.splits)
qed

lemma create_user_cases:
  obtains (refused) e s1 where "create_user A io req s = (Inl e, s1)" and "s1 = s \<or> s1 = others_commit s"
    | (inserted) encoded where "hash_password A (ui_salt io) (cu_password req) = Inr encoded"
        and "\<forall>u\<in>set (users_t (view (others_commit s))). us_email u \<noteq> normalize_email (cu_email req)"
        and "create_user A io req s
          = insert_user (new_user io (se_now s) (normalize_email (cu_email req)) encoded) (others_commit s)"
proof (cases "hash_password A (ui_salt io) (cu_password req)")
  case (Inl e)
  then show ?thesis by (intro refused [of e s]) (simp_all add: create_user_eq raise_exc_def)
next
  case (Inr encoded)
  obtain r where g: "get_user_by_email (normalize_email (cu_email req)) s = (r, others_commit s)"
    using get_user_by_email_state by (metis surj_pair)
  show ?thesis
  proof (cases "r = Inr None")
    case True
    with g have "\<forall>u\<in>set (users_t (view (others_commit s))). us_email u \<noteq> normalize_email (cu_email req)"
      by (simp add: get_user_by_email_none del: view_simps)
    with Inr g True show ?thesis by (intro inserted) (simp_all add: create_user_eq seq_def del: view_simps)
  next
    case False
    with Inr g show ?thesis
      by (cases r)
        (auto simp: create_user_eq seq_def raise_exc_def split: option.splits intro: refused)
  qed
qed

interpretation create_user_svc: service "\<lambda>(io, req). create_user A io req" for A
proof (unfold_locales, goal_cases)
  case (1 s q r s')
  obtain io req where q: "q = (io, req)" by (cases q)
  show ?case
  proof (cases rule: create_user_cases [of A io req s])
    case (refused e s1)
    with 1 q show ?thesis by auto
  next
    case (inserted encoded)
    have "se_db s' = se_db s \<and> se_env s' = []" if "insert_user u s = (r, s')" for u
    proof (cases r)
      case (Inl e)
      with that 1(1) insert_user_error [of u s e s'] show ?thesis by simp
    next
      case (Inr x)
      with that have "se_db s' = se_db s \<and> se_env s' = se_env s"
        using 1(1) flush_rows_frame
        by (auto simp: insert_user_def seq_def session_add_def modify_def try_except_def session_flush_def
            others_commit_def Let_def ret_def raise_exc_def
            split: sum.splits exc.splits)
      with 1(1) show ?thesis by simp
    qed
    with inserted(3) 1 q show ?thesis by simp
  qed
next
  case (2 s q e s')
  obtain io req where q: "q = (io, req)" by (cases q)
  show ?case
    by (cases rule: create_user_cases [of A io req s])
      (use 2 q in \<open>auto dest!: insert_user_error\<close>)
qed

interpretation authenticate_svc: service "authenticate_user A" for A
proof (unfold_locales, goal_cases)
  case (1 s q r s')
  then show ?case
    by (auto simp: authenticate_user_def seq_def raise_exc_def ret_def
        dest!: get_user_by_email_state split: prod.splits sum.splits option.splits if_splits)
next
  case (2 s q e s')
  then show ?case
    by (auto simp: authenticate_user_def seq_def raise_exc_def ret_def
        dest!: get_user_by_email_state split: prod.splits sum.splits option.splits if_splits)
qed

lemma get_user_by_id_state: "get_user_by_id ref s = (r, s') \<Longrightarrow> s' = s \<or> s' = others_commit s"
  by (auto simp: get_user_by_id_def seq_def raise_exc_def modify_def ret_def
      dest!: one_or_none_same_state split: prod.splits sum.splits option.splits)

interpretation get_user_svc: service get_user_by_id
  by unfold_locales (auto dest!: get_user_by_id_state)

section \<open>Properties\<close>

text \<open>
  What a registration stores, whatever other transactions do meanwhile: the address stripped and
  lowercased, between 3 and 254 characters long, the hash of the password and not the password,
  as one new row; at the time of the INSERT no visible user has the address or the identifier.
\<close>

theorem create_user_effect:
  assumes "create_user A io req s = (Inr u, s')" and "se_pending s = []"
  shows "us_email u = normalize_email (cu_email req) \<and> py_lower (us_email u) = us_email u
    \<and> 3 \<le> length (us_email u) \<and> length (us_email u) \<le> 254
    \<and> hash_password A (ui_salt io) (cu_password req) = Inr (us_password_hash u)
    \<and> se_writes s' = (se_writes s)\<lparr>users_t := users_t (se_writes s) @ [u]\<rparr>
    \<and> (\<forall>v\<in>set (users_t (view (others_commit (others_commit s)))).
         us_email v \<noteq> us_email u \<and> us_id v \<noteq> us_id u)"
proof (cases rule: create_user_cases [of A io req s])
  case (refused e s1)
  with assms show ?thesis by simp
next
  case (inserted encoded)
  note ins = insert_user_ok [OF inserted(3) [symmetric, unfolded assms(1)]]
  have "se_pending (others_commit s) = []" using assms(2) by simp
  note ins = insert_user_ok [of _ "others_commit s", OF _ this]
  from ins [OF inserted(3) [symmetric, unfolded assms(1)]] inserted(1)
  show ?thesis by (auto simp: user_checks_def new_user_def simp del: view_simps)
qed

definition clear_argon2 :: argon2 where
  "clear_argon2 p =
     \<lparr>hs_hash = (\<lambda>salt plain. ''$'' @ take 200 plain),
      hs_verify = (\<lambda>encoded plain. if encoded = ''$'' @ take 200 plain then Verified else VerifyMismatchError),
      hs_check_needs_rehash = (\<lambda>_. False)\<rparr>"

lemma clear_argon2_ok: "argon2_ok clear_argon2"
  by (auto simp: argon2_ok_def get_hasher_def clear_argon2_def min_def)

definition alice :: CreateUserRequest where
  "alice = \<lparr>cu_email = '' Alice[at]x.org '', cu_password = ''pw''\<rparr>"

definition alice_row :: user where
  "alice_row = \<lparr>us_id = 1, us_email = ''alice[at]x.org'', us_password_hash = ''$pw'', us_created_at = 5, us_updated_at = 5\<rparr>"

lemma alice_email: "normalize_email '' Alice[at]x.org '' = ''alice[at]x.org''"
  by code_simp

lemma alice_registers:
  "create_user clear_argon2 \<lparr>ui_user_id = 1, ui_salt = []\<rparr> alice (new_session empty_db [] 5)
   = (Inr alice_row, (new_session empty_db [] 5)\<lparr>se_writes := empty_db\<lparr>users_t := [alice_row]\<rparr>\<rparr>)"
proof -
  have checks: "user_columns_ok alice_row \<and> user_checks alice_row" by code_simp
  show ?thesis
    using checks
    by (simp add: create_user_eq insert_user_def alice_def alice_email hash_password_def clear_argon2_def
        get_hasher_def seq_def get_user_by_email_def modify_def one_or_none_def ret_def new_user_def
        session_add_def try_except_def session_flush_def flush_row_def Let_def alice_row_def)
qed

theorem create_user_effect_witness:
  "us_email alice_row = ''alice[at]x.org'' \<and> us_password_hash alice_row = ''$pw''"
  using create_user_effect [OF alice_registers] alice_email
  by (simp add: alice_def hash_password_def clear_argon2_def get_hasher_def)

text \<open>
  C22: Registration and login fit together. After a registration was committed the table has exactly the
  new user more; whoever knows the password can log in with any spelling of the address that
  normalizes to the same, and gets that user; a password the hash does not verify is refused; and
  nobody can register the address again.
\<close>

theorem register_then_authenticate:
  assumes "argon2_ok A" and "create_user A io req (new_session d [] now) = (Inr u, s1)"
    and "session_commit None s1 = (Inr x, s2)"
    and "normalize_email email = normalize_email (cu_email req)" and "pw \<noteq> []"
  shows "users_t (se_db s2) = users_t d @ [u]
    \<and> fst (authenticate_user A \<lparr>au_email = email, au_password = cu_password req\<rparr> (new_session (se_db s2) [] later)) = Inr u
    \<and> (verify_password A pw (us_password_hash u) = Inr False \<longrightarrow>
        fst (authenticate_user A \<lparr>au_email = email, au_password = pw\<rparr> (new_session (se_db s2) [] later))
          = Inl invalid_credentials)
    \<and> fst (create_user A io' \<lparr>cu_email = email, cu_password = pw\<rparr> (new_session (se_db s2) [] later))
        = Inl (email_taken (us_email u))"
proof (cases rule: create_user_cases [of A io req "new_session d [] now"])
  case (refused e s')
  with assms(2) show ?thesis by simp
next
  case (inserted encoded)
  let ?s = "new_session (se_db s2) [] later"
  have "insert_user (new_user io now (normalize_email (cu_email req)) encoded) (new_session d [] now) = (Inr u, s1)"
    using inserted(3) assms(2) by simp
  from insert_user_ok [OF this] have ins: "u = new_user io now (normalize_email (cu_email req)) encoded"
    "\<forall>v\<in>set (users_t d). us_email v \<noteq> us_email u" "users_t (view s1) = users_t d @ [u]"
    "se_pending s1 = []" "se_env s1 = []" by simp_all
  from assms(3) ins(4,5) have db: "users_t (se_db s2) = users_t d @ [u]"
    using ins(3) by (auto simp: session_commit_def seq_def session_flush_def Let_def simp del: view_simps)
  have email: "us_email u = normalize_email email" using ins(1) assms(4) by simp
  have found: "get_user_by_email (normalize_email email) ?s = (Inr (Some u), ?s)"
    using get_user_by_email_unique [of ?s "users_t d" u "[]"] db ins(2) email by simp
  have "us_password_hash u = encoded" using ins(1) by (simp add: new_user_def)
  then have "verify_password A (cu_password req) (us_password_hash u) = Inr True"
    using verify_hash_password [OF assms(1) inserted(1)] by simp
  then show ?thesis
    using db found email assms(5)
    by (simp add: authenticate_user_def create_user_eq hash_password_def seq_def raise_exc_def ret_def)
qed

theorem register_then_authenticate_witness:
  "fst (authenticate_user clear_argon2 \<lparr>au_email = ''ALICE[at]x.org'', au_password = ''pw''\<rparr>
     (new_session (empty_db\<lparr>users_t := [alice_row]\<rparr>) [] 9)) = Inr alice_row"
proof -
  let ?s1 = "(new_session empty_db [] 5)\<lparr>se_writes := empty_db\<lparr>users_t := [alice_row]\<rparr>\<rparr>"
  have "session_commit None ?s1 = (Inr (), new_session (empty_db\<lparr>users_t := [alice_row]\<rparr>) [] 5)"
    by (simp add: session_commit_def seq_def session_flush_def Let_def session_rollback_def new_session_def
        view_def empty_db_def)
  note step = register_then_authenticate [OF clear_argon2_ok alice_registers this,
      of "''ALICE[at]x.org''" "''x''" 9]
  have "normalize_email ''ALICE[at]x.org'' = normalize_email (cu_email alice)" by code_simp
  from step [OF this] show ?thesis by (simp add: alice_def)
qed

text \<open>
  The decision of a login. With one user per address and well-formed hashes, a login returns a user
  exactly if the address is theirs and their hash verifies the password; every other login ends
  in the same exception and so in the same 401 response, whether or not the address is
  registered.
\<close>

theorem authenticate_decision:
  assumes "users = users_t (view (others_commit s))" and "distinct (map us_email users)"
    and "\<forall>u\<in>set users. \<exists>ok. verify_password A (au_password req) (us_password_hash u) = Inr ok"
  shows "(fst (authenticate_user A req s) = Inr u \<longleftrightarrow>
      u \<in> set users \<and> us_email u = normalize_email (au_email req)
      \<and> verify_password A (au_password req) (us_password_hash u) = Inr True)
    \<and> (fst (authenticate_user A req s) = Inl e \<longrightarrow>
        e = invalid_credentials \<and> resp_status (handle_exception e) = 401
        \<and> resp_content (handle_exception e) = error_payload ''users.invalid_credentials'' ''Invalid email or password.'' None)"
proof -
  let ?email = "normalize_email (au_email req)"
  have r401: "resp_status (handle_exception invalid_credentials) = 401"
    "resp_content (handle_exception invalid_credentials)
       = error_payload ''users.invalid_credentials'' ''Invalid email or password.'' None"
    by code_simp+
  show ?thesis
  proof (cases "\<exists>v\<in>set users. us_email v = ?email")
    case False
    then have "get_user_by_email ?email s = (Inr None, others_commit s)"
      using assms(1) by (simp add: get_user_by_email_none del: view_simps)
    then have "fst (authenticate_user A req s) = Inl invalid_credentials"
      by (simp add: authenticate_user_def seq_def raise_exc_def)
    with False r401 show ?thesis by auto
  next
    case True
    then obtain v where v: "v \<in> set users" "us_email v = ?email" by blast
    then obtain xs ys where sp: "users = xs @ v # ys" by (meson split_list)
    then have other: "\<forall>w\<in>set (xs @ ys). us_email w \<noteq> us_email v"
      using assms(2) by (auto simp: image_iff)
    have "filter (\<lambda>w. us_email w = ?email) users = [v]"
      using other v(2) unfolding sp by (simp add: filter_empty_conv)
    then have g: "get_user_by_email ?email s = (Inr (Some v), others_commit s)"
      using assms(1) by (simp add: get_user_by_email_def seq_def modify_def one_or_none_def ret_def del: view_simps)
    obtain ok where ok: "verify_password A (au_password req) (us_password_hash v) = Inr ok"
      using assms(3) v(1) by blast
    have only: "w \<in> set users \<and> us_email w = ?email \<longleftrightarrow> w = v" for w
      using sp other v(2) by auto
    from g ok only [of u] r401 show ?thesis
      by (cases ok; cases "u = v") (auto simp: authenticate_user_def seq_def raise_exc_def ret_def)
  qed
qed

theorem authenticate_decision_witness:
  "fst (authenticate_user clear_argon2 \<lparr>au_email = ''alice[at]x.org'', au_password = ''no''\<rparr>
       (new_session (empty_db\<lparr>users_t := [alice_row]\<rparr>) [] 9)) = Inl invalid_credentials"
proof -
  let ?req = "\<lparr>au_email = ''alice[at]x.org'', au_password = ''no''\<rparr>"
    and ?s = "new_session (empty_db\<lparr>users_t := [alice_row]\<rparr>) [] 9"
  have no: "verify_password clear_argon2 ''no'' (us_password_hash alice_row) = Inr False"
    by (simp add: verify_password_def clear_argon2_def get_hasher_def alice_row_def)
  have raises_not: "Ex Not" by blast
  have d: "(fst (authenticate_user clear_argon2 ?req ?s) = Inr u \<longrightarrow> False)
      \<and> (fst (authenticate_user clear_argon2 ?req ?s) = Inl e \<longrightarrow> e = invalid_credentials)" for u e
    using authenticate_decision [of "[alice_row]" ?s clear_argon2 ?req u e] no raises_not by auto
  then show ?thesis by (cases "fst (authenticate_user clear_argon2 ?req ?s)") auto
qed

text \<open>
  An invalid address is reported as taken. The database refuses an address of fewer than three
  characters by a CHECK constraint; the flush raises \<open>IntegrityError\<close>, which \<open>create_user\<close> takes
  for a duplicate, so that the client is told with status 409 that an account with this address
  exists, although there is none.
\<close>

theorem invalid_email_reported_as_taken:
  assumes "argon2_ok A" and "cu_password req \<noteq> []" and "length (normalize_email (cu_email req)) < 3"
    and "\<forall>u\<in>set (users_t d). us_email u \<noteq> normalize_email (cu_email req)"
  shows "fst (create_user A io req (new_session d [] now)) = Inl (email_taken (normalize_email (cu_email req)))
    \<and> resp_status (handle_exception (email_taken (normalize_email (cu_email req)))) = 409"
proof
  let ?s = "new_session d [] now" and ?email = "normalize_email (cu_email req)"
  obtain encoded where h: "hash_password A (ui_salt io) (cu_password req) = Inr encoded" "length encoded \<le> 255"
    using assms(1,2) by (simp add: hash_password_def argon2_ok_def)
  have g: "get_user_by_email ?email ?s = (Inr None, ?s)"
    using assms(4) by (simp add: get_user_by_email_none)
  let ?u = "new_user io now ?email encoded"
  have "user_columns_ok ?u" "\<not> user_checks ?u"
    using assms(3) h(2) by (simp_all add: user_columns_ok_def user_checks_def new_user_def)
  then have "fst (insert_user ?u ?s) = Inl (email_taken ?email)"
    by (simp add: insert_user_def seq_def session_add_def modify_def try_except_def session_flush_def
        flush_row_def Let_def raise_exc_def)
  then show "fst (create_user A io req ?s) = Inl (email_taken ?email)"
    using h(1) g by (simp add: create_user_eq seq_def)
  show "resp_status (handle_exception (email_taken ?email)) = 409"
    by (simp add: email_taken_def nimbus_error_def handle_exception_def nimbus_error_handler_def
        status_code_def) code_simp
qed

theorem invalid_email_reported_as_taken_witness:
  "fst (create_user clear_argon2 \<lparr>ui_user_id = 1, ui_salt = []\<rparr> \<lparr>cu_email = ''a'', cu_password = ''pw''\<rparr>
     (new_session empty_db [] 5)) = Inl (email_taken (normalize_email ''a''))"
proof -
  have "length (normalize_email ''a'') < 3" by code_simp
  then show ?thesis
    using invalid_email_reported_as_taken [OF clear_argon2_ok, of "\<lparr>cu_email = ''a'', cu_password = ''pw''\<rparr>" empty_db]
    by simp
qed

end
