(* ===== verification/Url.thy ===== *)
theory Url
  imports Py_Std
begin

text \<open>
  \<open>urllib.parse.urlparse\<close> and the attributes of its result, as far as the program uses them, for
  ASCII URLs. Unbalanced brackets in the host raise \<open>ValueError\<close> (here \<open>None\<close>); that a bracketed
  host is an IP address is not checked.
\<close>

record url =
  url_scheme :: string
  url_netloc :: string
  url_path :: string

definition scheme_char :: "char \<Rightarrow> bool" where
  "scheme_char c \<longleftrightarrow> py_isalnum c \<or> c \<in> set ''+-.''"

definition clean_url :: "string \<Rightarrow> string" where
  "clean_url s = filter (\<lambda>c. c \<notin> {CHR 0x09, CHR 0x0A, CHR 0x0D}) (dropWhile (\<lambda>c. (of_char c :: nat) \<le> 32) s)"

definition split_scheme :: "string \<Rightarrow> string \<times> string" where
  "split_scheme s =
     (let i = takeWhile (\<lambda>c. c \<noteq> CHR '':'') s in
      if i \<noteq> [] \<and> i \<noteq> s \<and> (py_isupper (hd i) \<or> py_islower (hd i)) \<and> list_all scheme_char i
      then (py_lower i, drop (length i + 1) s) else ([], s))"

definition split_netloc :: "string \<Rightarrow> string \<times> string" where
  "split_netloc s =
     (if take 2 s = ''//''
      then (takeWhile (\<lambda>c. c \<notin> set ''/?#'') (drop 2 s), dropWhile (\<lambda>c. c \<notin> set ''/?#'') (drop 2 s))
      else ([], s))"

text \<open>Schemes with parameters: what follows a semicolon in the last segment is not part of the path.\<close>

definition uses_params :: "string list" where
  "uses_params = ['''', ''ftp'', ''hdl'', ''prospero'', ''http'', ''https'', ''shttp'', ''rtsp'', ''rtsps'',
     ''sip'', ''sips'', ''mms'', ''sftp'', ''tel'']"

definition last_segment :: "string \<Rightarrow> string" where
  "last_segment p = rev (takeWhile (\<lambda>c. c \<noteq> CHR ''/'') (rev p))"

definition split_params :: "string \<Rightarrow> string" where
  "split_params p =
     (let seg = last_segment p in
      if CHR '';'' \<in> set seg
      then take (length p - length seg) p @ takeWhile (\<lambda>c. c \<noteq> CHR '';'') seg else p)"

definition urlparse :: "string \<Rightarrow> url option" where
  "urlparse s =
     (case split_scheme (clean_url s) of (scheme, rest) \<Rightarrow>
      case split_netloc rest of (netloc, rest') \<Rightarrow>
      if (CHR ''['' \<in> set netloc) \<noteq> (CHR '']'' \<in> set netloc) then None
      else let p = takeWhile (\<lambda>c. c \<noteq> CHR ''?'') (takeWhile (\<lambda>c. c \<noteq> CHR ''#'') rest') in
        Some \<lparr>url_scheme = scheme, url_netloc = netloc,
              url_path = (if scheme \<in> set uses_params then split_params p else p)\<rparr>)"

text \<open>\<open>netloc.rpartition('@')\<close>.\<close>

definition host_info :: "url \<Rightarrow> string" where
  "host_info u = rev (takeWhile (\<lambda>c. c \<noteq> CHR 0x40) (rev (url_netloc u)))"

definition user_info :: "url \<Rightarrow> string option" where
  "user_info u =
     (if CHR 0x40 \<in> set (url_netloc u)
      then Some (take (length (url_netloc u) - length (host_info u) - 1) (url_netloc u)) else None)"

definition host_text :: "url \<Rightarrow> string" where
  "host_text u =
     (let h = host_info u in
      if CHR ''['' \<in> set h then takeWhile (\<lambda>c. c \<noteq> CHR '']'') (tl (dropWhile (\<lambda>c. c \<noteq> CHR ''['') h))
      else takeWhile (\<lambda>c. c \<noteq> CHR '':'') h)"

text \<open>\<open>(parsed.hostname or "")\<close>: lowercase up to a zone identifier.\<close>

definition hostname :: "url \<Rightarrow> string" where
  "hostname u =
     (let h = host_text u; name = takeWhile (\<lambda>c. c \<noteq> CHR ''%'') h in
      py_lower name @ drop (length name) h)"

text \<open>The text after the host's colon, and \<open>parsed.port\<close>: \<open>None\<close> is the \<open>ValueError\<close> of a bad port.\<close>

definition port_text :: "url \<Rightarrow> string" where
  "port_text u =
     (let h = host_info u;
          rest = (if CHR ''['' \<in> set h then tl (dropWhile (\<lambda>c. c \<noteq> CHR '']'') h) else h) in
      tl (dropWhile (\<lambda>c. c \<noteq> CHR '':'') rest))"

definition port :: "url \<Rightarrow> int option option" where
  "port u =
     (let p = port_text u in
      if p = [] then Some None
      else if list_all py_isdigit p
      then (case py_int p of Some n \<Rightarrow> if n \<le> 65535 then Some (Some n) else None | None \<Rightarrow> None)
      else None)"

text \<open>Whether \<open>parsed.username or parsed.password\<close> is true: one of the two is a non-empty string.\<close>

definition has_credentials :: "url \<Rightarrow> bool" where
  "has_credentials u =
     (case user_info u of None \<Rightarrow> False
      | Some i \<Rightarrow> takeWhile (\<lambda>c. c \<noteq> CHR '':'') i \<noteq> [] \<or> tl (dropWhile (\<lambda>c. c \<noteq> CHR '':'') i) \<noteq> [])"

text \<open>The first segment of the path as the guards take it: \<open>path.lstrip("/").split("?")[0]\<close>.\<close>

definition database_name :: "url \<Rightarrow> string" where
  "database_name u = takeWhile (\<lambda>c. c \<noteq> CHR ''?'') (dropWhile (\<lambda>c. c = CHR ''/'') (url_path u))"

end
