(* ===== verification/Abuse.thy ===== *)
theory Abuse
  imports Dedupe
begin

text \<open>
  The abuse layer of the gateway, \<open>src/modules/gateway/abuse.py\<close>: the fingerprint of a request,
  the sliding-window script that Redis runs, the check behind the circuit breaker and the
  middleware. The SHA-256 digest, the text that Lua prints for a number and the downstream
  application are parameters, about which nothing is assumed. The script is shown to implement a
  sliding-window counter with a temporary blacklist, stated without Redis.
\<close>

section \<open>Requests and fingerprints\<close>

record abuse_settings =
  abuse_rate_limit_window_seconds :: int
  abuse_rate_limit_max :: int
  abuse_blacklist_threshold :: int
  abuse_blacklist_ttl_seconds :: int
  abuse_trust_forwarded_for :: bool

record http_request =
  hr_path :: string
  hr_headers :: "(string \<times> string) list"
  hr_client :: "string option"

text \<open>Header names are compared without case; the first one of a name counts.\<close>

definition header_get :: "string \<Rightarrow> http_request \<Rightarrow> string option" where
  "header_get name req = map_of (map (\<lambda>(k, v). (py_lower k, v)) (hr_headers req)) (py_lower name)"

definition header_or_empty :: "string \<Rightarrow> http_request \<Rightarrow> string" where
  "header_or_empty name req = (case header_get name req of None \<Rightarrow> [] | Some v \<Rightarrow> v)"

definition compute_fingerprint :: "(string \<Rightarrow> string) \<Rightarrow> string \<Rightarrow> string \<Rightarrow> string \<Rightarrow> string \<Rightarrow> string" where
  "compute_fingerprint sha256 client_ip user_agent accept_language extra =
     sha256 (client_ip @ ''|'' @ user_agent @ ''|'' @ accept_language @ ''|'' @ extra)"

definition extract_client_ip :: "http_request \<Rightarrow> bool \<Rightarrow> string" where
  "extract_client_ip req trust_forwarded_for =
     (let peer = (case hr_client req of Some host \<Rightarrow> host | None \<Rightarrow> ''unknown'') in
      if trust_forwarded_for
      then (case header_get ''X-Forwarded-For'' req of
              None \<Rightarrow> peer
            | Some xff \<Rightarrow>
                if xff = [] then peer
                else let first = py_strip (takeWhile (\<lambda>c. c \<noteq> CHR '','') xff) in
                  if first = [] then peer else first)
      else peer)"

section \<open>The script\<close>

text \<open>
  \<open>_SLIDING_WINDOW_LUA\<close>. Redis runs a script atomically; \<open>srv\<close> is the clock of the server, \<open>now\<close>
  the one the client passes, both in microseconds (the client formats six decimals). The result
  is the pair \<open>{count, status}\<close>.
\<close>

definition sliding_window_lua ::
    "'r redis_ops \<Rightarrow> (int \<Rightarrow> string) \<Rightarrow> int \<Rightarrow> string \<Rightarrow> string \<Rightarrow> int \<Rightarrow> int \<Rightarrow> int \<Rightarrow> int \<Rightarrow> int \<Rightarrow> string
     \<Rightarrow> 'r \<Rightarrow> (int \<times> int) \<times> 'r" where
  "sliding_window_lua R tostring srv rl_key bl_key now window max_req bl_thr bl_ttl rand r =
     (case rd_exists R srv bl_key r of (e, r1) \<Rightarrow>
      if e = 1 then ((0, 3), r1)
      else
      case rd_zremrangebyscore R srv rl_key (now - seconds window) r1 of (_, r2) \<Rightarrow>
      let member = tostring now @ '':'' @ rand in
      case rd_zadd R srv rl_key member now r2 of (_, r3) \<Rightarrow>
      case rd_expire R srv rl_key (window + 1) r3 of (_, r4) \<Rightarrow>
      case rd_zcard R srv rl_key r4 of (n, r5) \<Rightarrow>
      if n > bl_thr then ((n, 2), snd (rd_set R srv bl_key ''1'' (Some bl_ttl) False r5))
      else if n > max_req then ((n, 1), r5)
      else ((n, 0), r5))"

section \<open>The check\<close>

datatype RateLimitStatus =
  RL_OK | RATE_LIMITED | JUST_BLACKLISTED | ALREADY_BLACKLISTED | BYPASSED

record RateLimitResult =
  rl_status :: RateLimitStatus
  rl_count :: int
  rl_fingerprint :: string
  rl_headers :: "(string \<times> string) list"

record abuse_io =
  ai_redis :: redis_io
  ai_now :: int
  ai_rand :: string

definition rate_limit_result :: "abuse_settings \<Rightarrow> string \<Rightarrow> int \<times> int \<Rightarrow> RateLimitResult" where
  "rate_limit_result s fingerprint result =
     (case result of (n, status) \<Rightarrow>
      if status = 3 then
        \<lparr>rl_status = ALREADY_BLACKLISTED, rl_count = n, rl_fingerprint = fingerprint,
         rl_headers = [(''Retry-After'', py_str_int (abuse_blacklist_ttl_seconds s))]\<rparr>
      else if status = 2 then
        \<lparr>rl_status = JUST_BLACKLISTED, rl_count = n, rl_fingerprint = fingerprint,
         rl_headers = [(''Retry-After'', py_str_int (abuse_blacklist_ttl_seconds s))]\<rparr>
      else if status = 1 then
        \<lparr>rl_status = RATE_LIMITED, rl_count = n, rl_fingerprint = fingerprint,
         rl_headers = [(''Retry-After'', py_str_int (abuse_rate_limit_window_seconds s))]\<rparr>
      else
        \<lparr>rl_status = RL_OK, rl_count = n, rl_fingerprint = fingerprint, rl_headers = []\<rparr>)"

definition rl_key :: "string \<Rightarrow> string" where
  "rl_key fingerprint = ''rl:fp:'' @ fingerprint"

definition bl_key :: "string \<Rightarrow> string" where
  "bl_key fingerprint = ''bl:fp:'' @ fingerprint"

definition do_check ::
    "'r redis_ops \<Rightarrow> (int \<Rightarrow> string) \<Rightarrow> abuse_settings \<Rightarrow> abuse_io \<Rightarrow> string \<Rightarrow> ('r, exc, RateLimitResult) comp" where
  "do_check R tostring s io fingerprint =
     seq (round_trip (io_delivery (ai_redis io))
           (sliding_window_lua R tostring (io_now (ai_redis io)) (rl_key fingerprint) (bl_key fingerprint)
              (ai_now io) (abuse_rate_limit_window_seconds s) (abuse_rate_limit_max s)
              (abuse_blacklist_threshold s) (abuse_blacklist_ttl_seconds s) (ai_rand io)))
       (\<lambda>result. ret (rate_limit_result s fingerprint result))"

definition bypassed :: "string \<Rightarrow> RateLimitResult" where
  "bypassed fp = \<lparr>rl_status = BYPASSED, rl_count = 0, rl_fingerprint = fp, rl_headers = []\<rparr>"

definition check ::
    "'r redis_ops \<Rightarrow> (string \<Rightarrow> string) \<Rightarrow> (int \<Rightarrow> string) \<Rightarrow> abuse_settings \<Rightarrow> abuse_io
     \<Rightarrow> string \<Rightarrow> string \<Rightarrow> string \<Rightarrow> string \<Rightarrow> (breaker \<times> 'r, exc, RateLimitResult) comp" where
  "check R sha256 tostring s io client_ip user_agent accept_language extra =
     (let fp = compute_fingerprint sha256 client_ip user_agent accept_language extra in
      try_except
        (breaker_call (io_mono (ai_redis io)) (io_mono_fail (ai_redis io)) (do_check R tostring s io fp))
        (\<lambda>e. if exc_isinstance e CacheUnavailableError then ret (bypassed fp) else raise_exc e))"

section \<open>The middleware\<close>

definition json_error ::
    "int \<Rightarrow> string \<Rightarrow> string \<Rightarrow> (string \<times> json) list \<Rightarrow> (string \<times> string) list \<Rightarrow> response" where
  "json_error status code message details headers =
     \<lparr>resp_status = status,
      resp_content = JDict [(''error'', JDict [(''code'', JStr code), (''message'', JStr message),
                                               (''details'', JDict details)])],
      resp_headers = headers\<rparr>"

definition rate_limited_response :: "abuse_settings \<Rightarrow> response" where
  "rate_limited_response s =
     json_error 429 ''nimbus.rate_limited'' ''Too many requests. Please retry later.''
       [(''retry_after_seconds'', JInt (abuse_rate_limit_window_seconds s))]
       [(''Retry-After'', py_str_int (abuse_rate_limit_window_seconds s)),
        (''X-RateLimit-Limit'', py_str_int (abuse_rate_limit_max s)),
        (''X-RateLimit-Remaining'', ''0'')]"

definition blacklisted_response :: "abuse_settings \<Rightarrow> response" where
  "blacklisted_response s =
     json_error 403 ''nimbus.blacklisted'' ''Origin has been temporarily blocked due to abuse.''
       [(''retry_after_seconds'', JInt (abuse_blacklist_ttl_seconds s))]
       [(''Retry-After'', py_str_int (abuse_blacklist_ttl_seconds s))]"

text \<open>
  \<open>_get_script\<close>: the handle is kept on the client object, and is registered on its first use only;
  \<open>register\<close> is what \<open>redis.register_script\<close> would return now.
\<close>

definition get_script :: "'h \<Rightarrow> 'h option \<Rightarrow> 'h \<times> 'h option" where
  "get_script register cached = (case cached of None \<Rightarrow> (register, Some register) | Some h \<Rightarrow> (h, cached))"

lemma get_script_once: "get_script r' (snd (get_script r c)) = (fst (get_script r c), snd (get_script r c))"
  by (simp add: get_script_def split: option.split)

text \<open>\<open>layer\<close> says whether \<open>app.state.abuse\<close> is set.\<close>

definition abuse_dispatch ::
    "'r redis_ops \<Rightarrow> (string \<Rightarrow> string) \<Rightarrow> (int \<Rightarrow> string) \<Rightarrow> abuse_settings \<Rightarrow> bool \<Rightarrow> abuse_io
     \<Rightarrow> (http_request \<Rightarrow> ((breaker \<times> 'r) \<times> 's, exc, response) comp)
     \<Rightarrow> http_request \<Rightarrow> ((breaker \<times> 'r) \<times> 's, exc, response) comp" where
  "abuse_dispatch R sha256 tostring s layer io call_next req =
     (if hr_path req \<in> {''/health'', ''/ready'', ''/metrics''} then call_next req
      else if \<not> layer then call_next req
      else
        seq (on_fst (check R sha256 tostring s io
                (extract_client_ip req (abuse_trust_forwarded_for s))
                (header_or_empty ''User-Agent'' req) (header_or_empty ''Accept-Language'' req) []))
          (\<lambda>result.
             if rl_status result = RL_OK then call_next req
             else if rl_status result = BYPASSED then call_next req
             else if rl_status result = RATE_LIMITED then ret (rate_limited_response s)
             else ret (blacklisted_response s)))"

section \<open>The specification: a sliding window per fingerprint\<close>

text \<open>
  A hit is a request the script sees, with the time at which the client sent it, the time at which the
  server runs it, each on its own clock, and the random suffix the client drew. The specification
  keeps the hits that were counted and, per fingerprint, until when it is blocked. Windows are measured on
  the clock of the client, blocking on the clock of the server.
\<close>

record hit =
  h_fp :: string
  h_now :: int
  h_srv :: int
  h_rand :: string

definition recent :: "int \<Rightarrow> string \<Rightarrow> int \<Rightarrow> hit list \<Rightarrow> hit list" where
  "recent window fp now past = filter (\<lambda>q. h_fp q = fp \<and> now - seconds window < h_now q) past"

definition blocked :: "(string \<Rightarrow> int option) \<Rightarrow> hit \<Rightarrow> bool" where
  "blocked bl q = (case bl (h_fp q) of None \<Rightarrow> False | Some u \<Rightarrow> h_srv q < u)"

definition spec_count :: "abuse_settings \<Rightarrow> hit list \<Rightarrow> hit \<Rightarrow> int" where
  "spec_count s past q = int (length (recent (abuse_rate_limit_window_seconds s) (h_fp q) (h_now q) (past @ [q])))"

definition spec_step ::
    "abuse_settings \<Rightarrow> hit \<Rightarrow> hit list \<times> (string \<Rightarrow> int option) \<Rightarrow> (int \<times> int) \<times> hit list \<times> (string \<Rightarrow> int option)" where
  "spec_step s q st =
     (case st of (past, bl) \<Rightarrow>
      if blocked bl q then ((0, 3), (past, bl))
      else let n = spec_count s past q in
        if n > abuse_blacklist_threshold s
        then ((n, 2), (past @ [q], bl(h_fp q \<mapsto> h_srv q + seconds (abuse_blacklist_ttl_seconds s))))
        else ((n, if n > abuse_rate_limit_max s then 1 else 0), (past @ [q], bl)))"

fun spec_run :: "abuse_settings \<Rightarrow> hit list \<Rightarrow> hit list \<times> (string \<Rightarrow> int option) \<Rightarrow> (int \<times> int) list" where
  "spec_run s [] st = []"
| "spec_run s (q # qs) st = (case spec_step s q st of (x, st') \<Rightarrow> x # spec_run s qs st')"

text \<open>The same hits through the script.\<close>

definition script_step ::
    "'r redis_ops \<Rightarrow> (int \<Rightarrow> string) \<Rightarrow> abuse_settings \<Rightarrow> hit \<Rightarrow> 'r \<Rightarrow> (int \<times> int) \<times> 'r" where
  "script_step R tostring s q =
     sliding_window_lua R tostring (h_srv q) (rl_key (h_fp q)) (bl_key (h_fp q)) (h_now q)
       (abuse_rate_limit_window_seconds s) (abuse_rate_limit_max s) (abuse_blacklist_threshold s)
       (abuse_blacklist_ttl_seconds s) (h_rand q)"

fun script_run ::
    "'r redis_ops \<Rightarrow> (int \<Rightarrow> string) \<Rightarrow> abuse_settings \<Rightarrow> hit list \<Rightarrow> 'r \<Rightarrow> (int \<times> int) list" where
  "script_run R tostring s [] r = []"
| "script_run R tostring s (q # qs) r =
     (case script_step R tostring s q r of (x, r') \<Rightarrow> x # script_run R tostring s qs r')"

text \<open>And through \<open>_do_check\<close>, with answered requests.\<close>

definition hit_io :: "hit \<Rightarrow> abuse_io" where
  "hit_io q = \<lparr>ai_redis = \<lparr>io_now = h_srv q, io_mono = 0, io_mono_fail = 0, io_delivery = Delivered\<rparr>,
     ai_now = h_now q, ai_rand = h_rand q\<rparr>"

fun check_run ::
    "'r redis_ops \<Rightarrow> (int \<Rightarrow> string) \<Rightarrow> abuse_settings \<Rightarrow> hit list \<Rightarrow> 'r \<Rightarrow> (exc + RateLimitResult) list" where
  "check_run R tostring s [] r = []"
| "check_run R tostring s (q # qs) r =
     (case do_check R tostring s (hit_io q) (h_fp q) r of (x, r') \<Rightarrow> x # check_run R tostring s qs r')"

section \<open>The script implements the specification\<close>

definition entry :: "(int \<Rightarrow> string) \<Rightarrow> hit \<Rightarrow> int \<times> string" where
  "entry tostring q = (h_now q, tostring (h_now q) @ '':'' @ h_rand q)"

lemma key_inject [simp]:
  "rl_key a = rl_key b \<longleftrightarrow> a = b" "bl_key a = bl_key b \<longleftrightarrow> a = b"
  "rl_key a \<noteq> bl_key b" "bl_key a \<noteq> rl_key b"
  by (simp_all add: rl_key_def bl_key_def)

lemma entry_member_inject:
  assumes "length (h_rand q) = length (h_rand p)" and "snd (entry f q) = snd (entry f p)"
  shows "h_rand q = h_rand p"
proof -
  have "f (h_now q) @ '':'' @ h_rand q = f (h_now p) @ '':'' @ h_rand p"
    using assms(2) by (simp add: entry_def)
  with assms(1) show ?thesis by (simp add: append_eq_append_conv)
qed

lemma recent_append [simp]:
  "recent w fp now (xs @ ys) = recent w fp now xs @ recent w fp now ys"
  by (simp add: recent_def)

text \<open>
  The commands between the blacklist test and the verdict: what they leave of the server, and the
  count they find.
\<close>

definition window_commands :: "'r redis_ops \<Rightarrow> (int \<Rightarrow> string) \<Rightarrow> int \<Rightarrow> hit \<Rightarrow> 'r \<Rightarrow> int \<times> 'r" where
  "window_commands R f w q r =
     (let k = rl_key (h_fp q);
          r2 = snd (rd_zremrangebyscore R (h_srv q) k (h_now q - seconds w) r);
          r3 = snd (rd_zadd R (h_srv q) k (snd (entry f q)) (h_now q) r2);
          r4 = snd (rd_expire R (h_srv q) k (w + 1) r3) in
      rd_zcard R (h_srv q) k r4)"

lemma script_step_eq:
  "script_step R f s q r =
     (let (e, r1) = rd_exists R (h_srv q) (bl_key (h_fp q)) r;
          (n, r5) = window_commands R f (abuse_rate_limit_window_seconds s) q r1 in
      if e = 1 then ((0, 3), r1)
      else if n > abuse_blacklist_threshold s
      then ((n, 2), snd (rd_set R (h_srv q) (bl_key (h_fp q)) ''1'' (Some (abuse_blacklist_ttl_seconds s)) False r5))
      else ((n, if n > abuse_rate_limit_max s then 1 else 0), r5))"
  by (simp add: script_step_def sliding_window_lua_def window_commands_def entry_def Let_def split_beta)

text \<open>
  What the server knows about a history: the abstraction relation. The two clocks drift by less than a
  second, the second that the script adds to the window when it sets the lifetime of the set.
\<close>

definition near :: "int \<Rightarrow> int \<Rightarrow> int \<Rightarrow> bool" where
  "near skew t c \<longleftrightarrow> skew \<le> t - c \<and> t - c < skew + seconds 1"

definition tracks_hits ::
    "(int \<Rightarrow> 'r \<Rightarrow> string \<Rightarrow> (int \<times> string) list option) \<Rightarrow> (int \<Rightarrow> string) \<Rightarrow> int \<Rightarrow> int \<Rightarrow> int \<Rightarrow> int \<Rightarrow> 'r \<Rightarrow> hit list \<Rightarrow> bool" where
  "tracks_hits zset f w skew t c r past \<longleftrightarrow>
     (\<forall>q\<in>set past. h_now q \<le> c)
     \<and> (\<forall>fp t' c'. t \<le> t' \<and> c \<le> c' \<and> near skew t' c' \<longrightarrow>
          mset (filter (\<lambda>e. c' - seconds w < fst e) (entries (zset t' r (rl_key fp))))
          = mset (map (entry f) (recent w fp c' past)))"

definition tracks_blocks ::
    "(int \<Rightarrow> 'r \<Rightarrow> string \<Rightarrow> string option) \<Rightarrow> (int \<Rightarrow> 'r \<Rightarrow> string \<Rightarrow> (int \<times> string) list option)
     \<Rightarrow> int \<Rightarrow> 'r \<Rightarrow> (string \<Rightarrow> int option) \<Rightarrow> bool" where
  "tracks_blocks live zset t r bl \<longleftrightarrow>
     (\<forall>fp t'. t \<le> t' \<longrightarrow> zset t' r (bl_key fp) = None
        \<and> (bl fp = None \<longrightarrow> live t' r (bl_key fp) = None)
        \<and> (\<forall>u. bl fp = Some u \<and> t' < u \<longrightarrow> live t' r (bl_key fp) = Some ''1'')
        \<and> (\<forall>u. bl fp = Some u \<and> u < t' \<longrightarrow> live t' r (bl_key fp) = None))"

text \<open>The relation depends only on what the keys show from now on.\<close>

lemma tracks_blocks_cong:
  assumes "tracks_blocks live zset t r bl" and "t \<le> t0"
    and "\<And>fp t'. t0 \<le> t' \<Longrightarrow> live t' r' (bl_key fp) = live t' r (bl_key fp)
                         \<and> zset t' r' (bl_key fp) = zset t' r (bl_key fp)"
  shows "tracks_blocks live zset t0 r' bl"
  using assms by (simp add: tracks_blocks_def)

lemma tracks_hits_cong:
  assumes "tracks_hits zset f w skew t c r past" and "t \<le> t0" and "c \<le> c0"
    and "\<And>fp t'. t0 \<le> t' \<Longrightarrow> zset t' r' (rl_key fp) = zset t' r (rl_key fp)"
  shows "tracks_hits zset f w skew t0 c0 r' past"
  using assms by (force simp: tracks_hits_def)

lemma recent_old: "\<forall>q\<in>set past. h_now q \<le> now - seconds w \<Longrightarrow> recent w fp now past = []"
  by (auto simp: recent_def filter_empty_conv)

text \<open>
  The deadlines of blacklist entries are the times of earlier hits plus the TTL; no
  hit falls on one exactly.
\<close>

definition deadlines_ok :: "int \<Rightarrow> (string \<Rightarrow> int option) \<Rightarrow> hit list \<Rightarrow> bool" where
  "deadlines_ok ttl bl qs \<longleftrightarrow> (\<forall>q\<in>set qs. bl (h_fp q) \<noteq> Some (h_srv q) \<and> (\<forall>p\<in>set qs. h_srv q \<noteq> h_srv p + seconds ttl))"

context redis_sorted_sets
begin

lemma window_commands_frame:
  assumes "h_srv q \<le> t'" and "k' \<noteq> rl_key (h_fp q)"
  shows "live t' (snd (window_commands R f w q r)) k' = live t' r k'"
    and "zset t' (snd (window_commands R f w q r)) k' = zset t' r k'"
  using assms
  by (simp_all add: window_commands_def Let_def zcard_frame expire_other zadd_live zadd_other
      zrem_live zrem_other)

lemma window_commands_count:
  assumes hits: "tracks_hits zset f w skew t c r past" and "t \<le> h_srv q" and "c \<le> h_now q" and "0 < w"
    and near: "near skew (h_srv q) (h_now q)"
    and fresh: "\<forall>p\<in>set past. length (h_rand p) = length (h_rand q) \<and> h_rand p \<noteq> h_rand q"
  shows "fst (window_commands R f w q r) = int (length (recent w (h_fp q) (h_now q) (past @ [q])))"
    and "h_srv q \<le> t' \<Longrightarrow> h_now q \<le> c' \<Longrightarrow> near skew t' c' \<Longrightarrow>
      mset (filter (\<lambda>e. c' - seconds w < fst e)
        (entries (zset t' (snd (window_commands R f w q r)) (rl_key (h_fp q)))))
      = mset (map (entry f) (recent w (h_fp q) c' (past @ [q])))"
proof -
  let ?k = "rl_key (h_fp q)" and ?srv = "h_srv q" and ?now = "h_now q"
  let ?old = "recent w (h_fp q) ?now past"
  define r2 where "r2 = snd (rd_zremrangebyscore R ?srv ?k (?now - seconds w) r)"
  define r3 where "r3 = snd (rd_zadd R ?srv ?k (snd (entry f q)) ?now r2)"
  define r4 where "r4 = snd (rd_expire R ?srv ?k (w + 1) r3)"
  have wc: "window_commands R f w q r = rd_zcard R ?srv ?k r4"
    by (simp add: window_commands_def Let_def r2_def r3_def r4_def)
  have "mset (entries (zset ?srv r2 ?k)) = mset (map (entry f) ?old)"
    using hits \<open>t \<le> ?srv\<close> \<open>c \<le> ?now\<close> near by (simp add: r2_def zrem_entries tracks_hits_def)
  moreover from this have "snd ` set (entries (zset ?srv r2 ?k)) = snd ` set (map (entry f) ?old)"
    by (metis set_mset_mset)
  moreover have "snd (entry f q) \<notin> snd ` set (map (entry f) ?old)"
  proof
    assume "snd (entry f q) \<in> snd ` set (map (entry f) ?old)"
    then obtain p where "p \<in> set past" "snd (entry f q) = snd (entry f p)" by (auto simp: recent_def)
    with fresh show False using entry_member_inject [of q p f] by auto
  qed
  ultimately have m3: "mset (entries (zset ?srv r3 ?k)) = mset (map (entry f) (?old @ [q]))"
    unfolding r3_def by (subst zadd_entries) (simp_all add: entry_def)
  then have ne: "entries (zset ?srv r3 ?k) \<noteq> []" by auto
  have e4: "entries (zset t' r4 ?k) = entries (zset ?srv r3 ?k)"
    if "?srv \<le> t'" "t' < ?srv + seconds (w + 1)" for t'
    using that expire_entries [OF _ ne, of "w + 1" t'] \<open>0 < w\<close> by (simp add: r4_def)
  have now4: "entries (zset ?srv r4 ?k) = entries (zset ?srv r3 ?k)"
    using e4 [of ?srv] \<open>0 < w\<close> by (simp add: seconds_def)
  have new: "recent w (h_fp q) ?now [q] = [q]" using \<open>0 < w\<close> by (simp add: recent_def seconds_def)
  show "fst (window_commands R f w q r) = int (length (recent w (h_fp q) ?now (past @ [q])))"
    using arg_cong [OF m3, of size] by (simp add: wc zcard_value now4 new)
  show "mset (filter (\<lambda>e. c' - seconds w < fst e)
        (entries (zset t' (snd (window_commands R f w q r)) ?k)))
      = mset (map (entry f) (recent w (h_fp q) c' (past @ [q])))"
    if t': "?srv \<le> t'" and c': "?now \<le> c'" and near': "near skew t' c'"
  proof (cases "t' < ?srv + seconds (w + 1)")
    case True
    let ?P = "\<lambda>e. c' - seconds w < fst e"
    have "mset (filter ?P (entries (zset t' r4 ?k))) = filter_mset ?P (mset (map (entry f) (?old @ [q])))"
      using e4 [OF t' True] m3 by (simp add: mset_filter)
    also have "\<dots> = mset (map (entry f) (filter (?P \<circ> entry f) (?old @ [q])))"
      by (simp only: mset_filter [symmetric] filter_map)
    also have "filter (?P \<circ> entry f) (?old @ [q]) = recent w (h_fp q) c' (past @ [q])"
      using c' by (auto simp: recent_def entry_def comp_def intro!: filter_cong)
    finally show ?thesis using t' by (simp add: wc zcard_frame)
  next
    case False
    then have late: "?now \<le> c' - seconds w" using near near' by (simp add: near_def seconds_def)
    have "set (entries (zset t' r4 ?k)) \<subseteq> set (entries (zset ?srv r4 ?k))"
      using zset_fades [OF t', of r4 ?k] by auto
    also have "\<dots> = entry f ` set (?old @ [q])"
      using m3 by (metis now4 set_map set_mset_mset)
    finally have "filter (\<lambda>e. c' - seconds w < fst e) (entries (zset t' r4 ?k)) = []"
      using late hits \<open>c \<le> ?now\<close> by (fastforce simp: filter_empty_conv tracks_hits_def recent_def entry_def)
    moreover have "recent w (h_fp q) c' (past @ [q]) = []"
      using late hits \<open>c \<le> ?now\<close> by (intro recent_old) (auto simp: tracks_hits_def)
    ultimately show ?thesis using t' by (simp add: wc zcard_frame)
  qed
qed

lemma exists_blocked:
  assumes "tracks_blocks live zset t r bl" and "t \<le> h_srv q" and "bl (h_fp q) \<noteq> Some (h_srv q)"
  shows "fst (rd_exists R (h_srv q) (bl_key (h_fp q)) r) = (if blocked bl q then 1 else 0)"
proof -
  have "zset (h_srv q) r (bl_key (h_fp q)) = None"
    using assms(1,2) by (simp add: tracks_blocks_def)
  moreover have "(live (h_srv q) r (bl_key (h_fp q)) = None) = (\<not> blocked bl q)"
  proof (cases "bl (h_fp q)")
    case None
    with assms show ?thesis by (simp add: tracks_blocks_def blocked_def)
  next
    case (Some u)
    with assms(3) have "h_srv q < u \<or> u < h_srv q" by auto
    with assms(1,2) Some show ?thesis by (auto simp: tracks_blocks_def blocked_def)
  qed
  ultimately show ?thesis by (simp add: exists_string)
qed

lemma exists_tracks:
  assumes "t \<le> t0" and "c \<le> c0"
  shows "tracks_hits zset f w skew t c r past \<Longrightarrow> tracks_hits zset f w skew t0 c0 (snd (rd_exists R t0 k r)) past"
    and "tracks_blocks live zset t r bl \<Longrightarrow> tracks_blocks live zset t0 (snd (rd_exists R t0 k r)) bl"
  by (rule tracks_hits_cong [OF _ assms], assumption, simp add: exists_zset)
    (rule tracks_blocks_cong [OF _ assms(1)], assumption, simp add: exists_zset exists_live)

lemma window_commands_tracks:
  assumes "tracks_hits zset f w skew t c r past" and "tracks_blocks live zset t r bl" and "t \<le> h_srv q"
    and "c \<le> h_now q" and "0 < w" and "near skew (h_srv q) (h_now q)"
    and "\<forall>p\<in>set past. length (h_rand p) = length (h_rand q) \<and> h_rand p \<noteq> h_rand q"
  shows "tracks_hits zset f w skew (h_srv q) (h_now q) (snd (window_commands R f w q r)) (past @ [q])"
    and "tracks_blocks live zset (h_srv q) (snd (window_commands R f w q r)) bl"
proof -
  have "mset (filter (\<lambda>e. c' - seconds w < fst e)
          (entries (zset t' (snd (window_commands R f w q r)) (rl_key fp))))
        = mset (map (entry f) (recent w fp c' (past @ [q])))"
    if "h_srv q \<le> t'" "h_now q \<le> c'" "near skew t' c'" for fp t' c'
  proof (cases "fp = h_fp q")
    case True
    then show ?thesis using window_commands_count(2) [OF assms(1,3-7) that] by simp
  next
    case False
    then have "recent w fp c' [q] = []" by (simp add: recent_def)
    with False that assms(1,3,4) show ?thesis by (simp add: window_commands_frame tracks_hits_def)
  qed
  with assms(1,4) show "tracks_hits zset f w skew (h_srv q) (h_now q) (snd (window_commands R f w q r)) (past @ [q])"
    by (auto simp: tracks_hits_def)
  show "tracks_blocks live zset (h_srv q) (snd (window_commands R f w q r)) bl"
    by (rule tracks_blocks_cong [OF assms(2,3)]) (simp add: window_commands_frame)
qed

lemma blacklisting_tracks:
  fixes t :: int and fp :: string
  assumes "0 < ttl"
  defines "r' \<equiv> \<lambda>r. snd (rd_set R t (bl_key fp) ''1'' (Some ttl) False r)"
  shows "tracks_hits zset f w skew t c r past \<Longrightarrow> tracks_hits zset f w skew t c (r' r) past"
    and "tracks_blocks live zset t r bl \<Longrightarrow> tracks_blocks live zset t (r' r) (bl(fp \<mapsto> t + seconds ttl))"
proof -
  show "tracks_hits zset f w skew t c (r' r) past" if "tracks_hits zset f w skew t c r past"
    by (rule tracks_hits_cong [OF that]) (simp_all add: r'_def set_zset)
  assume b: "tracks_blocks live zset t r bl"
  have same: "live t' (r' r) (bl_key fp') = live t' r (bl_key fp')
      \<and> zset t' (r' r) (bl_key fp') = zset t' r (bl_key fp')" if "t \<le> t'" "fp' \<noteq> fp" for t' fp'
    using that by (simp add: r'_def set_zset set_other)
  have "zset t r (bl_key fp) = None" using b by (simp add: tracks_blocks_def)
  then have new: "zset t' (r' r) (bl_key fp) = None"
    "t' < t + seconds ttl \<Longrightarrow> live t' (r' r) (bl_key fp) = Some ''1''"
    "t + seconds ttl < t' \<Longrightarrow> live t' (r' r) (bl_key fp) = None" if "t \<le> t'" for t'
    using that assms(1) by (simp_all add: r'_def set_zset_key set_live set_expired)
  show "tracks_blocks live zset t (r' r) (bl(fp \<mapsto> t + seconds ttl))"
    unfolding tracks_blocks_def
  proof (intro allI impI)
    fix fp' t' assume t': "t \<le> t'"
    show "zset t' (r' r) (bl_key fp') = None
        \<and> ((bl(fp \<mapsto> t + seconds ttl)) fp' = None \<longrightarrow> live t' (r' r) (bl_key fp') = None)
        \<and> (\<forall>u. (bl(fp \<mapsto> t + seconds ttl)) fp' = Some u \<and> t' < u \<longrightarrow> live t' (r' r) (bl_key fp') = Some ''1'')
        \<and> (\<forall>u. (bl(fp \<mapsto> t + seconds ttl)) fp' = Some u \<and> u < t' \<longrightarrow> live t' (r' r) (bl_key fp') = None)"
      using b same [OF t'] new [OF t'] t' by (cases "fp' = fp") (auto simp: tracks_blocks_def)
  qed
qed

text \<open>One run of the script against one step of the specification.\<close>

lemma script_step_refines:
  assumes "tracks_hits zset f w skew t c r past" and "tracks_blocks live zset t r bl"
    and "t \<le> h_srv q" and "c \<le> h_now q" and "near skew (h_srv q) (h_now q)" and "bl (h_fp q) \<noteq> Some (h_srv q)"
    and "\<forall>p\<in>set past. length (h_rand p) = length (h_rand q) \<and> h_rand p \<noteq> h_rand q"
    and "w = abuse_rate_limit_window_seconds s" and "0 < w" and "0 < abuse_blacklist_ttl_seconds s"
    and step: "script_step R f s q r = (x, r')" "spec_step s q (past, bl) = (y, (past', bl'))"
  shows "x = y \<and> tracks_hits zset f w skew (h_srv q) (h_now q) r' past' \<and> tracks_blocks live zset (h_srv q) r' bl'"
proof -
  define r1 where "r1 = snd (rd_exists R (h_srv q) (bl_key (h_fp q)) r)"
  have t1: "tracks_hits zset f w skew (h_srv q) (h_now q) r1 past" "tracks_blocks live zset (h_srv q) r1 bl"
    using exists_tracks [OF assms(3,4)] assms(1,2) by (simp_all add: r1_def)
  have e: "rd_exists R (h_srv q) (bl_key (h_fp q)) r = (if blocked bl q then 1 else 0, r1)"
    using exists_blocked [OF assms(2,3,6)] by (simp add: r1_def prod_eq_iff)
  define r5 where "r5 = snd (window_commands R f w q r1)"
  have n: "window_commands R f w q r1 = (spec_count s past q, r5)"
    using window_commands_count(1) [OF t1(1) order.refl order.refl assms(9,5,7)] assms(8)
    by (simp add: spec_count_def r5_def prod_eq_iff)
  have t5: "tracks_hits zset f w skew (h_srv q) (h_now q) r5 (past @ [q])" "tracks_blocks live zset (h_srv q) r5 bl"
    using window_commands_tracks [OF t1 order.refl order.refl assms(9,5,7)] by (simp_all add: r5_def)
  note t6 = blacklisting_tracks [OF assms(10)]
  show ?thesis
    using step t1 t5 t6(1) [OF t5(1)] t6(2) [OF t5(2)] n e assms(8)
    by (auto simp: script_step_eq spec_step_def Let_def split: if_splits)
qed

text \<open>A whole run.\<close>

lemma script_run_refines:
  assumes "tracks_hits zset f w skew t c r past" and "tracks_blocks live zset t r bl"
    and "sorted (map h_srv qs)" and "sorted (map h_now qs)"
    and "\<forall>q\<in>set qs. t \<le> h_srv q \<and> c \<le> h_now q \<and> near skew (h_srv q) (h_now q)"
    and "deadlines_ok (abuse_blacklist_ttl_seconds s) bl qs"
    and "distinct (map h_rand (past @ qs))" and "\<forall>q\<in>set (past @ qs). length (h_rand q) = n"
    and "w = abuse_rate_limit_window_seconds s" and "0 < w" and "0 < abuse_blacklist_ttl_seconds s"
  shows "script_run R f s qs r = spec_run s qs (past, bl)"
  using assms
proof (induction qs arbitrary: t c r past bl)
  case Nil
  show ?case by simp
next
  case (Cons q qs)
  obtain x r' where step: "script_step R f s q r = (x, r')" by (meson surj_pair)
  obtain y past' bl' where spec: "spec_step s q (past, bl) = (y, (past', bl'))" by (metis surj_pair)
  have "\<forall>p\<in>set past. h_rand p \<noteq> h_rand q" using Cons.prems(7) by (simp add: image_iff) metis
  then have fresh: "\<forall>p\<in>set past. length (h_rand p) = length (h_rand q) \<and> h_rand p \<noteq> h_rand q"
    using Cons.prems(8) by simp
  have *: "x = y \<and> tracks_hits zset f w skew (h_srv q) (h_now q) r' past' \<and> tracks_blocks live zset (h_srv q) r' bl'"
    using Cons.prems(5,6)
    by (intro script_step_refines [OF Cons.prems(1,2) _ _ _ _ fresh Cons.prems(9-11) step spec])
      (auto simp: deadlines_ok_def)
  from spec consider "past' = past" | "past' = past @ [q]"
    by (auto simp: spec_step_def Let_def split: if_splits)
  then have d: "distinct (map h_rand (past' @ qs)) \<and> (\<forall>q\<in>set (past' @ qs). length (h_rand q) = n)"
    using Cons.prems(7,8) by cases simp_all
  have "deadlines_ok (abuse_blacklist_ttl_seconds s) bl' qs"
    using spec Cons.prems(6)
    by (auto simp: deadlines_ok_def spec_step_def Let_def split: if_splits)
  with * d Cons.prems(3-5,9-11) have "script_run R f s qs r' = spec_run s qs (past', bl')"
    by (intro Cons.IH [of "h_srv q" "h_now q"]) simp_all
  with * show ?case by (simp add: step spec)
qed

end

text \<open>
  The requests of a run, as the refinement needs them, on an empty server: neither clock runs
  backwards, the offset between them changes by less than a second, no request hits the very instant a
  blacklist entry expires, and the random suffixes differ.
\<close>

definition fair_run :: "abuse_settings \<Rightarrow> int \<Rightarrow> hit list \<Rightarrow> bool" where
  "fair_run s t0 qs \<longleftrightarrow>
     sorted (map h_srv qs) \<and> sorted (map h_now qs) \<and> (\<forall>q\<in>set qs. t0 \<le> h_srv q)
     \<and> (\<forall>q\<in>set qs. \<forall>p\<in>set qs. h_srv q - h_now q < h_srv p - h_now p + seconds 1)
     \<and> (\<forall>q\<in>set qs. \<forall>p\<in>set qs. h_srv q \<noteq> h_srv p + seconds (abuse_blacklist_ttl_seconds s))
     \<and> distinct (map h_rand qs) \<and> (\<forall>q\<in>set qs. length (h_rand q) = 8)
     \<and> 0 < abuse_rate_limit_window_seconds s \<and> 0 < abuse_blacklist_ttl_seconds s"

lemma least_skew:
  assumes "\<forall>q\<in>set qs. \<forall>p\<in>set qs. h_srv q - h_now q < h_srv p - h_now p + seconds 1"
  obtains skew where "\<forall>q\<in>set qs. near skew (h_srv q) (h_now q)"
proof (cases "qs = []")
  case False
  let ?d = "(\<lambda>q. h_srv q - h_now q) ` set qs"
  have "Min ?d \<in> ?d" using False by simp
  moreover have "Min ?d \<le> h_srv q - h_now q" if "q \<in> set qs" for q using that by simp
  ultimately have "\<forall>q\<in>set qs. near (Min ?d) (h_srv q) (h_now q)"
    using assms by (force simp: near_def)
  then show thesis by (rule that)
qed (use that in simp)

lemma least_now: obtains c where "\<forall>q\<in>set qs. c \<le> h_now q"
  by (cases "qs = []") (use that [of 0] that [of "Min (h_now ` set qs)"] in simp_all)

context redis_sorted_sets
begin

lemma empty_server_run:
  assumes "fair_run s t0 qs" and "\<And>k. live t0 r k = None \<and> zset t0 r k = None"
  shows "script_run R f s qs r = spec_run s qs ([], Map.empty)"
proof -
  have "live t' r k = None" "zset t' r k = None" if "t0 \<le> t'" for t' k
    using live_antimono [OF that, of r k] zset_antimono [OF that, of r k] assms(2) [of k]
    by (metis not_None_eq, simp)
  then have "tracks_hits zset f w skew t0 c r []" "tracks_blocks live zset t0 r Map.empty" for w skew c
    by (simp_all add: tracks_hits_def tracks_blocks_def recent_def)
  moreover obtain skew where "\<forall>q\<in>set qs. near skew (h_srv q) (h_now q)"
    using least_skew [of qs] assms(1) by (auto simp: fair_run_def)
  moreover obtain c where "\<forall>q\<in>set qs. c \<le> h_now q" by (rule least_now)
  ultimately show ?thesis
    using assms(1)
    by (intro script_run_refines [where n = 8 and skew = skew and c = c]) (auto simp: fair_run_def deadlines_ok_def)
qed

end

section \<open>Consequences for the specification\<close>

definition passed :: "int \<Rightarrow> hit \<Rightarrow> hit \<times> int \<times> int \<Rightarrow> bool" where
  "passed w q x \<longleftrightarrow> h_fp (fst x) = h_fp q \<and> h_now q - seconds w < h_now (fst x) \<and> snd (snd x) = 0"

definition answered_ok :: "exc + RateLimitResult \<Rightarrow> bool" where
  "answered_ok x = (case x of Inl e \<Rightarrow> False | Inr res \<Rightarrow> rl_status res = RL_OK)"

definition let_through :: "int \<Rightarrow> hit \<Rightarrow> hit \<times> (exc + RateLimitResult) \<Rightarrow> bool" where
  "let_through w q x \<longleftrightarrow> h_fp (fst x) = h_fp q \<and> h_now q - seconds w < h_now (fst x) \<and> answered_ok (snd x)"

lemma do_check_script:
  "do_check R f s (hit_io q) (h_fp q) r =
     (Inr (rate_limit_result s (h_fp q) (fst (script_step R f s q r))), snd (script_step R f s q r))"
  by (simp add: do_check_def hit_io_def script_step_def round_trip_def seq_def split: prod.split)

lemma check_run_zip:
  "zip qs (check_run R f s qs r)
    = map (\<lambda>(q, v). (q, Inr (rate_limit_result s (h_fp q) v))) (zip qs (script_run R f s qs r))"
  by (induction qs arbitrary: r) (simp_all add: do_check_script split: prod.split)

lemma run_lengths [simp]: "length (check_run R f s qs r) = length qs" "length (spec_run s qs st) = length qs"
  by (induction qs arbitrary: r st) (simp_all split: prod.split)

lemma spec_run_status: "v \<in> set (spec_run s qs st) \<Longrightarrow> snd v \<in> {0, 1, 2, 3}"
proof (induction qs arbitrary: st)
  case (Cons q qs)
  obtain x st' where step: "spec_step s q st = (x, st')" by (meson surj_pair)
  then have "snd x \<in> {0, 1, 2, 3}" by (auto simp: spec_step_def Let_def split: prod.splits if_splits)
  then show ?case using Cons.IH [of st'] Cons.prems step by (cases "v = x") simp_all
qed simp

lemma spec_step_past:
  assumes "spec_step s q (past, bl) = (x, (past', bl'))" and "w = abuse_rate_limit_window_seconds s" and "0 < w"
  shows "length (recent w fp t past) + length (filter (\<lambda>x. h_fp (fst x) = fp \<and> t - seconds w < h_now (fst x) \<and> snd (snd x) = 0) [(q, x)])
     \<le> length (recent w fp t past')"
    and "snd x = 0 \<Longrightarrow> past' = past @ [q] \<and> int (length (recent w (h_fp q) (h_now q) past')) \<le> abuse_rate_limit_max s"
  using assms
  by (auto simp: spec_step_def Let_def recent_def spec_count_def split: if_splits)

lemma spec_run_bound:
  assumes "0 < w" and "w = abuse_rate_limit_window_seconds s"
    and "i < length qs" and "snd (spec_run s qs (past, bl) ! i) = 0"
  shows "int (length (recent w (h_fp (qs ! i)) (h_now (qs ! i)) past)
       + length (filter (passed w (qs ! i)) (take (Suc i) (zip qs (spec_run s qs (past, bl))))))
     \<le> abuse_rate_limit_max s"
  using assms(3,4)
proof (induction qs arbitrary: i past bl)
  case (Cons q qs)
  obtain x past' bl' where step: "spec_step s q (past, bl) = (x, (past', bl'))" by (metis surj_pair)
  note past = spec_step_past [OF step assms(2,1)]
  show ?case
  proof (cases i)
    case 0
    with Cons.prems step past(1) [of "h_fp q" "h_now q"] past(2) show ?thesis
      by (auto simp: passed_def split: if_splits)
  next
    case (Suc j)
    with Cons.prems step have "j < length qs" "snd (spec_run s qs (past', bl') ! j) = 0" by simp_all
    from Cons.IH [OF this] past(1) [of "h_fp (qs ! j)" "h_now (qs ! j)"] Suc step
    show ?thesis by (auto simp: passed_def split: if_splits)
  qed
qed simp

section \<open>Properties\<close>

text \<open>
  C19: The script is a sliding-window limiter. Any sequence of requests, from any number of clients,
  gets from the script on Redis exactly the counts and verdicts of the specification: a
  fingerprint's count is the number of its requests that were counted within the last window,
  this one included; above the threshold the fingerprint is blocked until the TTL has passed, and
  blocked requests are not counted. No fingerprint influences another. The server starts empty, neither
  the clock of the client nor that of the server runs backwards, the offset between them changes by less
  than a second, random suffixes differ, and no request hits the very instant a blacklist entry expires.
\<close>

theorem sliding_window_refines:
  assumes "redis_sorted_sets R live zset" and "fair_run s t0 qs"
    and "\<And>k. live t0 r k = None \<and> zset t0 r k = None"
  shows "script_run R tostring s qs r = spec_run s qs ([], Map.empty)"
  by (rule redis_sorted_sets.empty_server_run [OF assms])

definition demo_settings :: abuse_settings where
  "demo_settings = \<lparr>abuse_rate_limit_window_seconds = 60, abuse_rate_limit_max = 2,
     abuse_blacklist_threshold = 3, abuse_blacklist_ttl_seconds = 100, abuse_trust_forwarded_for = False\<rparr>"

definition demo_hit :: "string \<Rightarrow> int \<Rightarrow> char \<Rightarrow> hit" where
  "demo_hit fp now c = \<lparr>h_fp = fp, h_now = seconds now, h_srv = seconds now + 400000, h_rand = replicate 8 c\<rparr>"

definition demo_hits :: "hit list" where
  "demo_hits = [demo_hit ''a'' 1 CHR ''0'', demo_hit ''a'' 2 CHR ''1'', demo_hit ''b'' 3 CHR ''2'',
     demo_hit ''a'' 4 CHR ''3'', demo_hit ''a'' 5 CHR ''4'', demo_hit ''a'' 90 CHR ''5'',
     demo_hit ''a'' 170 CHR ''6'']"

lemma demo_hits_fair: "fair_run demo_settings 0 demo_hits"
  unfolding fair_run_def demo_hits_def demo_settings_def by (intro conjI; code_simp)

lemma fake_empty_shows_nothing: "fake_live t fake_empty k = None \<and> fake_zset t fake_empty k = None"
  by (simp add: fake_defs fake_empty_def)

lemma demo_hits_spec:
  "spec_run demo_settings demo_hits ([], Map.empty)
     = [(1, 0), (2, 0), (1, 0), (3, 1), (4, 2), (0, 3), (1, 0)]"
  by (simp add: demo_hits_def demo_hit_def demo_settings_def spec_step_def spec_count_def blocked_def
      recent_def seconds_def)

theorem sliding_window_refines_witness:
  "script_run fake_redis_ops py_str_int demo_settings demo_hits fake_empty
     = spec_run demo_settings demo_hits ([], Map.empty)
   \<and> spec_run demo_settings demo_hits ([], Map.empty)
     = [(1, 0), (2, 0), (1, 0), (3, 1), (4, 2), (0, 3), (1, 0)]"
  using sliding_window_refines [OF fake_sets.redis_sorted_sets_axioms demo_hits_fair fake_empty_shows_nothing]
  by (simp add: demo_hits_spec)

text \<open>
  C18: No more than \<open>abuse_rate_limit_max\<close> requests of a fingerprint are let through within a window.
  Take any request to which \<open>_do_check\<close> answers \<open>OK\<close>, and count the requests of the same fingerprint to
  which it answered \<open>OK\<close> within the window that ends there: they are at most the limit, whatever other
  clients do. As for the refinement, the server starts empty and answers, neither the clock of the client
  nor that of the server runs backwards, the offset between them changes by less than a second, the random
  suffixes of all requests differ, and no request hits the very instant a blacklist entry expires.
\<close>

theorem rate_limit_bound:
  assumes "redis_sorted_sets R live zset" and "fair_run s t0 qs"
    and "\<And>k. live t0 r k = None \<and> zset t0 r k = None"
    and "i < length qs" and "answered_ok (check_run R tostring s qs r ! i)"
  shows "int (length (filter (let_through (abuse_rate_limit_window_seconds s) (qs ! i))
      (take (Suc i) (zip qs (check_run R tostring s qs r))))) \<le> abuse_rate_limit_max s"
proof -
  let ?w = "abuse_rate_limit_window_seconds s" and ?vs = "spec_run s qs ([], Map.empty)"
  let ?g = "\<lambda>(q, v). (q, Inr (rate_limit_result s (h_fp q) v))"
  have "zip qs (check_run R tostring s qs r) = map ?g (zip qs (script_run R tostring s qs r))"
    by (rule check_run_zip)
  also have "script_run R tostring s qs r = ?vs" by (rule redis_sorted_sets.empty_server_run [OF assms(1-3)])
  finally have zip: "zip qs (check_run R tostring s qs r) = map ?g (zip qs ?vs)" .
  have len: "length ?vs = length qs" "length (check_run R tostring s qs r) = length qs" by simp_all
  have same: "let_through ?w q (?g x) = passed ?w q x" if "x \<in> set (zip qs ?vs)" for q x
  proof -
    have "snd x \<in> set ?vs" using that by (metis in_set_zipE prod.collapse)
    from spec_run_status [OF this] show ?thesis
      by (cases x) (auto simp: let_through_def passed_def answered_ok_def rate_limit_result_def split: prod.splits)
  qed
  have "zip qs (check_run R tostring s qs r) ! i = ?g (zip qs ?vs ! i)" unfolding zip using assms(4) by simp
  then have "check_run R tostring s qs r ! i = snd (?g (qs ! i, ?vs ! i))" using assms(4) len by simp
  moreover have "?vs ! i \<in> set ?vs" using assms(4) len by simp
  ultimately have "snd (?vs ! i) = 0"
    using assms(5) spec_run_status [of "?vs ! i" s qs "([], Map.empty)"]
    by (cases "?vs ! i") (auto simp: answered_ok_def rate_limit_result_def)
  moreover have "0 < ?w" using assms(2) by (simp add: fair_run_def)
  ultimately have "int (length (filter (passed ?w (qs ! i)) (take (Suc i) (zip qs ?vs)))) \<le> abuse_rate_limit_max s"
    using spec_run_bound [OF _ HOL.refl assms(4), of s "[]" Map.empty] by (simp add: recent_def)
  moreover have "filter (\<lambda>x. let_through ?w (qs ! i) (?g x)) (take (Suc i) (zip qs ?vs))
      = filter (passed ?w (qs ! i)) (take (Suc i) (zip qs ?vs))"
    by (rule filter_cong [OF HOL.refl same]) (meson in_set_takeD)
  ultimately show ?thesis unfolding zip take_map filter_map comp_def length_map by simp
qed

theorem rate_limit_bound_witness:
  "int (length (filter (let_through 60 (demo_hits ! 1))
      (take 2 (zip demo_hits (check_run fake_redis_ops py_str_int demo_settings demo_hits fake_empty))))) \<le> 2"
proof -
  have run: "script_run fake_redis_ops py_str_int demo_settings demo_hits fake_empty
      = spec_run demo_settings demo_hits ([], Map.empty)"
    by (rule fake_sets.empty_server_run [OF demo_hits_fair fake_empty_shows_nothing])
  have len: "1 < length demo_hits" by (simp add: demo_hits_def)
  let ?c = "check_run fake_redis_ops py_str_int demo_settings demo_hits fake_empty"
  have "zip demo_hits ?c ! 1 = (\<lambda>(q, v). (q, Inr (rate_limit_result demo_settings (h_fp q) v)))
      (zip demo_hits (spec_run demo_settings demo_hits ([], Map.empty)) ! 1)"
    unfolding check_run_zip run by (rule nth_map) (use len in simp)
  then have "?c ! 1 = Inr (rate_limit_result demo_settings (h_fp (demo_hits ! 1)) (2, 0))"
    using len by (simp add: demo_hits_spec)
  then have "answered_ok (?c ! 1)" by (simp add: answered_ok_def rate_limit_result_def)
  moreover have "1 < length demo_hits" by (simp add: demo_hits_def)
  ultimately show ?thesis
    using rate_limit_bound [OF fake_sets.redis_sorted_sets_axioms demo_hits_fair fake_empty_shows_nothing, of 1]
    by (simp add: demo_settings_def numeral_2_eq_2)
qed

text \<open>What the middleware does with the verdict of the script.\<close>

lemma check_admitted:
  assumes "br_state b = Closed" and "fp = compute_fingerprint sha ip ua al ex"
  shows "io_delivery (ai_redis io) = Delivered \<Longrightarrow>
      sliding_window_lua R tostring (io_now (ai_redis io)) (rl_key fp) (bl_key fp) (ai_now io)
        (abuse_rate_limit_window_seconds s) (abuse_rate_limit_max s) (abuse_blacklist_threshold s)
        (abuse_blacklist_ttl_seconds s) (ai_rand io) r = (v, r') \<Longrightarrow>
      check R sha tostring s io ip ua al ex (b, r)
        = (Inr (rate_limit_result s fp v), (record_success b, r'))"
    and "io_delivery (ai_redis io) = NotDelivered e \<Longrightarrow>
      check R sha tostring s io ip ua al ex (b, r)
        = (if exc_isinstance e CacheUnavailableError then Inr (bypassed fp) else Inl e,
           (record_failure (io_mono_fail (ai_redis io)) b, r))"
  using assms
  by (simp_all add: check_def do_check_def breaker_call_admitted round_trip_def try_except_def seq_def
      ret_def raise_exc_def Let_def)

text \<open>
  The middleware. A request to a probe path, or with no layer configured, goes straight to the
  application. While the breaker is open the request is let through unchecked and Redis is not
  asked. With a closed breaker and an answer from Redis, the application runs exactly if the
  verdict is \<open>OK\<close>; otherwise the client gets 429 or 403 and the application does not run. If Redis
  fails while the breaker is still closed, the request fails with the error of the driver: the
  layer does not fail open then.
\<close>

theorem abuse_dispatch_decision:
  assumes "fp = compute_fingerprint sha (extract_client_ip req (abuse_trust_forwarded_for s))
      (header_or_empty ''User-Agent'' req) (header_or_empty ''Accept-Language'' req) []"
    and "sliding_window_lua R tostring (io_now (ai_redis io)) (rl_key fp) (bl_key fp) (ai_now io)
        (abuse_rate_limit_window_seconds s) (abuse_rate_limit_max s) (abuse_blacklist_threshold s)
        (abuse_blacklist_ttl_seconds s) (ai_rand io) r = ((n, status), r')"
    and "dispatched = abuse_dispatch R sha tostring s layer io app req ((b, r), w)"
  shows "((hr_path req \<in> {''/health'', ''/ready'', ''/metrics''} \<or> \<not> layer) \<longrightarrow> dispatched = app req ((b, r), w))
    \<and> (br_state b = Open \<and> br_opened_at b = Some o' \<and> io_mono (ai_redis io) - o' < br_reset_timeout b \<longrightarrow>
         dispatched = app req ((b, r), w))
    \<and> (hr_path req \<notin> {''/health'', ''/ready'', ''/metrics''} \<and> layer \<and> br_state b = Closed \<longrightarrow>
        (io_delivery (ai_redis io) = Delivered \<longrightarrow>
          dispatched = (if status = 3 \<or> status = 2 then (Inr (blacklisted_response s), ((record_success b, r'), w))
            else if status = 1 then (Inr (rate_limited_response s), ((record_success b, r'), w))
            else app req ((record_success b, r'), w)))
        \<and> (io_delivery (ai_redis io) = NotDelivered (RedisError m) \<longrightarrow>
          dispatched = (Inl (RedisError m), ((record_failure (io_mono_fail (ai_redis io)) b, r), w))))"
proof (intro conjI impI)
  show "dispatched = app req ((b, r), w)" if "hr_path req \<in> {''/health'', ''/ready'', ''/metrics''} \<or> \<not> layer"
    using that assms(3) by (auto simp: abuse_dispatch_def)
  show "dispatched = app req ((b, r), w)"
    if "br_state b = Open \<and> br_opened_at b = Some o' \<and> io_mono (ai_redis io) - o' < br_reset_timeout b"
  proof -
    have "check R sha tostring s io ip ua al ex (b, r)
        = (Inr (bypassed (compute_fingerprint sha ip ua al ex)), (b, r))" for ip ua al ex
      using that by (simp add: check_def breaker_call_refused try_except_def ret_def Let_def
          breaker_open_error_def nimbus_error_def exc_isinstance_def)
    then show ?thesis using assms(3) by (simp add: abuse_dispatch_def seq_def on_fst_def bypassed_def)
  qed
  assume *: "hr_path req \<notin> {''/health'', ''/ready'', ''/metrics''} \<and> layer \<and> br_state b = Closed"
  note ck = check_admitted [of b fp sha "extract_client_ip req (abuse_trust_forwarded_for s)"
      "header_or_empty ''User-Agent'' req" "header_or_empty ''Accept-Language'' req" "[]", OF _ assms(1)]
  note defs = abuse_dispatch_def seq_def on_fst_def ret_def rate_limit_result_def exc_isinstance_def
  show "dispatched = (if status = 3 \<or> status = 2 then (Inr (blacklisted_response s), ((record_success b, r'), w))
            else if status = 1 then (Inr (rate_limited_response s), ((record_success b, r'), w))
            else app req ((record_success b, r'), w))" if "io_delivery (ai_redis io) = Delivered"
    using that * assms(3) ck(1) [OF _ _ assms(2)] by (simp add: defs)
  show "dispatched = (Inl (RedisError m), ((record_failure (io_mono_fail (ai_redis io)) b, r), w))"
    if "io_delivery (ai_redis io) = NotDelivered (RedisError m)"
    using that * assms(3) ck(2) [of io "RedisError m" R tostring s r] by (simp add: defs)
qed

definition strict_settings :: abuse_settings where
  "strict_settings = demo_settings\<lparr>abuse_rate_limit_max := 0\<rparr>"

definition demo_request :: http_request where
  "demo_request = \<lparr>hr_path = ''/pay'', hr_headers = [], hr_client = Some ''10.0.0.1''\<rparr>"

definition demo_io :: abuse_io where
  "demo_io = \<lparr>ai_redis = \<lparr>io_now = 5, io_mono = 0, io_mono_fail = 0, io_delivery = Delivered\<rparr>,
     ai_now = 5, ai_rand = ''0''\<rparr>"

definition demo_breaker :: breaker where
  "demo_breaker = \<lparr>br_name = ''redis'', br_fail_max = 5, br_reset_timeout = 30, br_state = Closed,
     br_failure_count = 0, br_opened_at = None\<rparr>"

theorem abuse_dispatch_decision_witness:
  "\<exists>r'. abuse_dispatch fake_redis_ops id py_str_int strict_settings True demo_io
      (\<lambda>req. raise_exc (OtherError ''NeverReached'' [])) demo_request ((demo_breaker, fake_empty), ())
    = (Inr (rate_limited_response strict_settings), ((record_success demo_breaker, r'), ()))"
proof -
  let ?fp = "compute_fingerprint id (extract_client_ip demo_request (abuse_trust_forwarded_for strict_settings))
      (header_or_empty ''User-Agent'' demo_request) (header_or_empty ''Accept-Language'' demo_request) []"
  let ?run = "sliding_window_lua fake_redis_ops py_str_int (io_now (ai_redis demo_io)) (rl_key ?fp) (bl_key ?fp)
      (ai_now demo_io) (abuse_rate_limit_window_seconds strict_settings) (abuse_rate_limit_max strict_settings)
      (abuse_blacklist_threshold strict_settings) (abuse_blacklist_ttl_seconds strict_settings)
      (ai_rand demo_io) fake_empty"
  have "fst ?run = (1, 1)"
    by (simp add: sliding_window_lua_def demo_io_def strict_settings_def demo_settings_def fake_exists_def
        fake_zremrangebyscore_def fake_zadd_def fake_expire_def fake_zcard_def zentries_def fake_defs
        fake_empty_def Let_def seconds_def)
  then have run: "?run = ((1, 1), snd ?run)" by (metis prod.collapse)
  have "io_delivery (ai_redis demo_io) = Delivered" "br_state demo_breaker = Closed"
    "hr_path demo_request \<notin> {''/health'', ''/ready'', ''/metrics''}"
    by (simp_all add: demo_io_def demo_breaker_def demo_request_def)
  moreover note abuse_dispatch_decision [OF HOL.refl run HOL.refl, of True
      "\<lambda>req. raise_exc (OtherError ''NeverReached'' [])" demo_breaker "()" 0 "[]"]
  ultimately show ?thesis by auto
qed

end
