(* ===== verification/Config.thy ===== *)
theory Config
  imports Complex_Main Url Json Exceptions Abuse Security
begin

text \<open>
  The settings, \<open>src/core/config.py\<close>: the fields with their defaults, the CSV fields and the log level
  validator, the guard that keeps tests away from production hosts, and the cached accessor
  \<open>get_settings\<close>. Reading the environment and coercing the values is Pydantic's work and is a
  parameter: the \<open>Settings\<close> object it returns, or the exception it raises.
\<close>

section \<open>Settings\<close>

datatype Environment = Env_development | Env_staging | Env_production | Env_test

fun environment_value :: "Environment \<Rightarrow> string" where
  "environment_value Env_development = ''development''"
| "environment_value Env_staging = ''staging''"
| "environment_value Env_production = ''production''"
| "environment_value Env_test = ''test''"

record settings =
  environment :: Environment
  debug :: bool
  app_name :: string
  app_version :: string
  api_prefix :: string
  cors_origins :: "string list"
  database_url :: string
  database_pool_size :: int
  database_max_overflow :: int
  database_pool_timeout_seconds :: rat
  database_echo :: bool
  database_default_schema :: string
  database_command_timeout_seconds :: rat
  database_health_check_interval_seconds :: int
  database_module_schemas :: "(string \<times> string) list"
  redis_url :: string
  redis_max_connections :: int
  redis_socket_timeout_seconds :: rat
  redis_health_check_interval_seconds :: int
  redis_circuit_breaker_fail_max :: int
  redis_circuit_breaker_reset_timeout_seconds :: rat
  jwt :: jwt_settings
  abuse :: abuse_settings
  outbox_relay_enabled :: bool
  outbox_relay_poll_interval_seconds :: rat
  outbox_relay_batch_size :: int
  outbox_relay_max_attempts :: int
  outbox_relay_graceful_shutdown_timeout_seconds :: rat
  kafka_bootstrap_servers :: "string list"
  kafka_request_timeout_ms :: int
  kafka_consumer_enabled :: bool
  kafka_consumer_group :: string
  log_level :: string
  log_json :: "bool option"

text \<open>The defaults; the two URLs have none and must be given.\<close>

definition default_settings :: "string \<Rightarrow> string \<Rightarrow> settings" where
  "default_settings db_url redis =
     \<lparr>environment = Env_development, debug = False, app_name = ''nimbus'', app_version = ''0.1.0'',
      api_prefix = ''/api/v1'', cors_origins = [], database_url = db_url, database_pool_size = 10,
      database_max_overflow = 20, database_pool_timeout_seconds = 10, database_echo = False,
      database_default_schema = ''public'', database_command_timeout_seconds = 30,
      database_health_check_interval_seconds = 30, database_module_schemas = [], redis_url = redis,
      redis_max_connections = 20, redis_socket_timeout_seconds = 5,
      redis_health_check_interval_seconds = 30, redis_circuit_breaker_fail_max = 5,
      redis_circuit_breaker_reset_timeout_seconds = 30,
      jwt = \<lparr>jwt_secret_key = ''dev-only-secret-replace-me'', jwt_algorithm = ''HS256'', jwt_issuer = ''nimbus'',
        jwt_audience = ''nimbus-api'', jwt_access_token_ttl_seconds = 900,
        jwt_refresh_token_ttl_seconds = 604800\<rparr>,
      abuse = \<lparr>abuse_rate_limit_window_seconds = 60, abuse_rate_limit_max = 100,
        abuse_blacklist_threshold = 200, abuse_blacklist_ttl_seconds = 3600, abuse_trust_forwarded_for = False\<rparr>,
      outbox_relay_enabled = True, outbox_relay_poll_interval_seconds = 1, outbox_relay_batch_size = 50,
      outbox_relay_max_attempts = 10, outbox_relay_graceful_shutdown_timeout_seconds = 10,
      kafka_bootstrap_servers = [''127.0.0.1:9092''], kafka_request_timeout_ms = 30000,
      kafka_consumer_enabled = True, kafka_consumer_group = ''nimbus-orders'', log_level = ''INFO'',
      log_json = None\<rparr>"

definition is_production :: "settings \<Rightarrow> bool" where
  "is_production s \<longleftrightarrow> environment s = Env_production"

definition is_staging :: "settings \<Rightarrow> bool" where
  "is_staging s \<longleftrightarrow> environment s = Env_staging"

definition is_test :: "settings \<Rightarrow> bool" where
  "is_test s \<longleftrightarrow> environment s = Env_test"

definition is_development :: "settings \<Rightarrow> bool" where
  "is_development s \<longleftrightarrow> environment s = Env_development"

definition use_json_logs :: "settings \<Rightarrow> bool" where
  "use_json_logs s = (case log_json s of Some b \<Rightarrow> b | None \<Rightarrow> is_production s \<or> is_staging s)"

section \<open>Validators\<close>

fun type_name :: "json \<Rightarrow> string" where
  "type_name JNull = ''NoneType''"
| "type_name (JBool _) = ''bool''"
| "type_name (JInt _) = ''int''"
| "type_name (JStr _) = ''str''"
| "type_name (JList _) = ''list''"
| "type_name (JDict _) = ''dict''"

definition stripped :: "string list \<Rightarrow> string list" where
  "stripped xs = filter (\<lambda>x. x \<noteq> []) (map py_strip xs)"

definition split_csv :: "json \<Rightarrow> exc + string list" where
  "split_csv value =
     (case value of
        JNull \<Rightarrow> Inr []
      | JStr s \<Rightarrow> if s = [] then Inr [] else Inr (stripped (py_split CHR '','' s))
      | JList items \<Rightarrow> Inr (stripped (map py_str_json items))
      | _ \<Rightarrow> Inl (OtherError ''TypeError'' (''Cannot coerce '' @ py_repr_str (type_name value)
          @ '' to list[str]. Provide a comma-separated string or a list of strings.'')))"

definition log_levels :: "string list" where
  "log_levels = [''DEBUG'', ''INFO'', ''WARNING'', ''ERROR'', ''CRITICAL'']"

definition normalize_log_level :: "string \<Rightarrow> exc + string" where
  "normalize_log_level value =
     (let normalized = py_upper value in
      if normalized \<notin> set log_levels
      then Inl (ValueError (''Invalid log_level '' @ py_repr_str value
             @ ''. Use one of DEBUG, INFO, WARNING, ERROR, CRITICAL.''))
      else Inr normalized)"

section \<open>Test isolation\<close>

definition PROD_HOST_SUBSTRINGS :: "string list" where
  "PROD_HOST_SUBSTRINGS = [''rds.amazonaws.com'', ''amazonaws.com'', ''azure.com'', ''windows.net'',
     ''confluent.cloud'', ''memorystore.googleapis.com'']"

definition isolation_error :: "string \<Rightarrow> exc" where
  "isolation_error m = ValueError (''Test isolation violated: '' @ m)"

definition check_host :: "string \<Rightarrow> string \<Rightarrow> url \<Rightarrow> exc + unit" where
  "check_host name raw u =
     (case find (\<lambda>forbidden. contains forbidden (py_lower (hostname u))) PROD_HOST_SUBSTRINGS of
        Some forbidden \<Rightarrow> Inl (isolation_error (name @ ''='' @ py_repr_str raw
            @ '' contains forbidden production host substring '' @ py_repr_str forbidden @ ''.''))
      | None \<Rightarrow> Inr ())"

definition check_database :: "url \<Rightarrow> exc + unit" where
  "check_database u =
     (if \<not> contains ''test'' (py_lower (database_name u))
      then Inl (isolation_error (''TEST_DATABASE_URL database name '' @ py_repr_str (database_name u)
             @ '' does not contain '' @ py_repr_str ''test'' @ ''.''))
      else Inr ())"

definition check_redis :: "url \<Rightarrow> exc + unit" where
  "check_redis u =
     (if database_name u = [] \<or> database_name u = ''0''
      then Inl (isolation_error ''TEST_REDIS_URL uses db 0 (the default). Use a dedicated test db (1-15).'')
      else Inr ())"

definition parse_url :: "string \<Rightarrow> exc + url" where
  "parse_url s = (case urlparse s of None \<Rightarrow> Inl (ValueError ''Invalid IPv6 URL'') | Some u \<Rightarrow> Inr u)"

definition assert_test_isolation :: "settings \<Rightarrow> exc + unit" where
  "assert_test_isolation s =
     (if \<not> is_test s then Inr ()
      else
        bind_sum (parse_url (database_url s)) (\<lambda>d.
        bind_sum (check_host ''TEST_DATABASE_URL'' (database_url s) d) (\<lambda>_.
        bind_sum (check_database d) (\<lambda>_.
        bind_sum (parse_url (redis_url s)) (\<lambda>r.
        bind_sum (check_host ''TEST_REDIS_URL'' (redis_url s) r) (\<lambda>_.
        check_redis r))))))"

text \<open>
  \<open>get_settings()\<close>: the cache holds at most one object, and an exception is not cached. \<open>load\<close> is
  what constructing \<open>Settings()\<close> gives at the time of the call.
\<close>

definition get_settings :: "exc + settings \<Rightarrow> (settings option, exc, settings) comp" where
  "get_settings load cache =
     (case cache of
        Some s \<Rightarrow> (Inr s, cache)
      | None \<Rightarrow>
          (case bind_sum load (\<lambda>s. bind_sum (assert_test_isolation s) (\<lambda>_. Inr s)) of
             Inl e \<Rightarrow> (Inl e, None)
           | Inr s \<Rightarrow> (Inr s, Some s)))"

section \<open>Facts\<close>

lemma py_split_single: "c \<notin> set s \<Longrightarrow> py_split c s = [s]"
  by (induction s) auto

lemma py_split_append: "c \<notin> set x \<Longrightarrow> py_split c (x @ c # s) = x # py_split c s"
  by (induction x) auto

lemma py_split_join:
  "xs \<noteq> [] \<Longrightarrow> \<forall>x\<in>set xs. c \<notin> set x \<Longrightarrow> py_split c (join [c] xs) = xs"
  by (induction "[c]" xs rule: join.induct) (simp_all add: py_split_single py_split_append)

lemma dropWhile_rev_dropWhile:
  "dropWhile P (rev (dropWhile P (rev (dropWhile P s)))) = rev (dropWhile P (rev (dropWhile P s)))"
proof -
  let ?t = "rev (dropWhile P (rev (dropWhile P s)))"
  have "\<not> P (hd ?t)" if "?t \<noteq> []"
  proof -
    obtain ys where ys: "dropWhile P s = ?t @ ys"
      by (metis rev_append rev_rev_ident takeWhile_dropWhile_id)
    with that have "hd (dropWhile P s) = hd ?t" "dropWhile P s \<noteq> []" by (metis hd_append2, force)
    then show ?thesis by (metis hd_dropWhile)
  qed
  moreover have "dropWhile P t = t" if "t \<noteq> [] \<Longrightarrow> \<not> P (hd t)" for t
    using that by (cases t) auto
  ultimately show ?thesis by blast
qed

lemma py_strip_idem [simp]: "py_strip (py_strip s) = py_strip s"
  by (simp add: py_strip_def py_strip_of_def dropWhile_rev_dropWhile)

lemma set_py_strip: "set (py_strip s) \<subseteq> set s"
  by (auto simp: py_strip_def py_strip_of_def dest!: set_dropWhileD)

definition csv_item :: "string \<Rightarrow> bool" where
  "csv_item x \<longleftrightarrow> x \<noteq> [] \<and> py_strip x = x \<and> CHR '','' \<notin> set x"

lemma stripped_clean: "\<forall>x\<in>set xs. csv_item x \<Longrightarrow> stripped xs = xs"
  by (induction xs) (auto simp: stripped_def csv_item_def)

lemma split_csv_join:
  assumes "\<forall>x\<in>set xs. csv_item x"
  shows "split_csv (JStr (join '','' xs)) = Inr xs"
proof (cases "xs = []")
  case False
  then have split: "py_split CHR '','' (join '','' xs) = xs"
    using assms by (intro py_split_join) (auto simp: csv_item_def)
  moreover have "join '','' xs \<noteq> []"
  proof
    assume "join '','' xs = []"
    with split have "xs = [[]]" by simp
    with assms show False by (simp add: csv_item_def)
  qed
  ultimately show ?thesis using stripped_clean [OF assms] by (simp add: split_csv_def)
qed (simp add: split_csv_def)

lemma split_csv_items:
  assumes "split_csv (JStr s) = Inr xs"
  shows "\<forall>x\<in>set xs. csv_item x"
proof
  fix x assume "x \<in> set xs"
  with assms have "x \<in> set (stripped (py_split CHR '','' s))"
    by (simp add: split_csv_def split: if_splits)
  then obtain y where "y \<in> set (py_split CHR '','' s)" "x = py_strip y" "x \<noteq> []"
    by (auto simp: stripped_def)
  with py_split_no_sep [of y "CHR '',''" s] set_py_strip [of y] show "csv_item x"
    by (auto simp: csv_item_def)
qed

section \<open>Properties\<close>

text \<open>
  CSV settings. A string always splits, into items that are not empty, have no surrounding space and
  no comma; joining clean items with commas and splitting gives the items back, so that
  splitting is the inverse of joining on what it produces.
\<close>

theorem csv_roundtrip:
  shows "(\<exists>xs. split_csv (JStr s) = Inr xs \<and> (\<forall>x\<in>set xs. csv_item x) \<and> split_csv (JStr (join '','' xs)) = Inr xs)
    \<and> ((\<forall>x\<in>set items. csv_item x) \<longrightarrow> split_csv (JStr (join '','' items)) = Inr items)"
proof -
  obtain xs where xs: "split_csv (JStr s) = Inr xs" by (cases "s = []") (simp_all add: split_csv_def)
  show ?thesis using xs split_csv_items [OF xs] split_csv_join by blast
qed

theorem csv_roundtrip_witness:
  "split_csv (JStr ''a,b'') = Inr [''a'', ''b''] \<and> split_csv (JStr '' a , , b '') = Inr [''a'', ''b'']"
proof -
  have "list_all csv_item [''a'', ''b'']" by code_simp
  then have "split_csv (JStr (join '','' [''a'', ''b''])) = Inr [''a'', ''b'']"
    using csv_roundtrip [of _ "[''a'', ''b'']"] by (simp add: list_all_iff)
  moreover have "split_csv (JStr '' a , , b '') = Inr [''a'', ''b'']" by code_simp
  ultimately show ?thesis by simp
qed

text \<open>What the guard guarantees about the settings of a test process.\<close>

definition isolated :: "settings \<Rightarrow> bool" where
  "isolated s \<longleftrightarrow> (\<exists>d r. urlparse (database_url s) = Some d \<and> urlparse (redis_url s) = Some r
     \<and> (\<forall>f\<in>set PROD_HOST_SUBSTRINGS. \<not> contains f (py_lower (hostname d)) \<and> \<not> contains f (py_lower (hostname r)))
     \<and> contains ''test'' (py_lower (database_name d)) \<and> database_name r \<notin> {[], ''0''})"

lemma parse_url_Inr [simp]: "parse_url s = Inr u \<longleftrightarrow> urlparse s = Some u"
  by (simp add: parse_url_def split: option.splits)

lemma check_host_Inr:
  "check_host name raw u = Inr x \<longleftrightarrow>
     (\<forall>f\<in>set PROD_HOST_SUBSTRINGS. \<not> contains f (py_lower (hostname u)))"
  by (auto simp: check_host_def find_None_iff find_Some_iff split: option.splits)

lemma check_database_Inr: "check_database u = Inr x \<longleftrightarrow> contains ''test'' (py_lower (database_name u))"
  by (simp add: check_database_def)

lemma check_redis_Inr: "check_redis u = Inr x \<longleftrightarrow> database_name u \<notin> {[], ''0''}"
  by (simp add: check_redis_def)

lemma assert_test_isolation_iff:
  "assert_test_isolation s = Inr () \<longleftrightarrow> is_test s \<longrightarrow> isolated s"
  unfolding assert_test_isolation_def isolated_def
  by (cases "is_test s") (auto simp: bind_sum_Inr check_host_Inr check_database_Inr check_redis_Inr)

fun settings_calls :: "(exc + settings) list \<Rightarrow> settings option \<Rightarrow> (exc + settings) list" where
  "settings_calls [] cache = []"
| "settings_calls (load # loads) cache =
     (case get_settings load cache of (r, cache') \<Rightarrow> r # settings_calls loads cache')"

lemma settings_calls_cached: "settings_calls loads (Some s) = map (\<lambda>_. Inr s) loads"
  by (induction loads) (simp_all add: get_settings_def)

text \<open>
  C23: The settings of a process. However often \<open>get_settings\<close> is called from an empty cache, whatever
  the environment holds at each call, every object it returns in a test process passed the
  isolation guard: neither host contains a production host, the database name contains \<open>test\<close> and
  the Redis database is given and is not \<open>0\<close>; and all calls that return give the same object.
\<close>

theorem settings_isolated_and_unique:
  assumes "Inr s \<in> set (settings_calls loads None)"
  shows "(is_test s \<longrightarrow> isolated s) \<and> (\<forall>s'. Inr s' \<in> set (settings_calls loads None) \<longrightarrow> s' = s)"
  using assms
proof (induction loads)
  case (Cons load loads)
  show ?case
  proof (cases "\<exists>s0. load = Inr s0 \<and> assert_test_isolation s0 = Inr ()")
    case True
    then obtain s0 where s0: "load = Inr s0" "assert_test_isolation s0 = Inr ()" by blast
    then have "settings_calls (load # loads) None = Inr s0 # map (\<lambda>_. Inr s0) loads"
      by (simp add: get_settings_def settings_calls_cached)
    with Cons.prems s0(2) show ?thesis by (auto simp: assert_test_isolation_iff simp del: settings_calls.simps)
  next
    case False
    have "\<exists>e. get_settings load None = (Inl e, None)"
    proof (cases load)
      case (Inl e)
      then show ?thesis by (simp add: get_settings_def)
    next
      case (Inr s0)
      with False obtain e where "assert_test_isolation s0 = Inl e"
        by (cases "assert_test_isolation s0") auto
      with Inr show ?thesis by (simp add: get_settings_def)
    qed
    then have same: "Inr x \<in> set (settings_calls (load # loads) None) \<longleftrightarrow> Inr x \<in> set (settings_calls loads None)"
      for x by auto
    with Cons.IH Cons.prems show ?thesis unfolding same by blast
  qed
qed simp

definition test_settings :: settings where
  "test_settings = (default_settings ''p://db/test'' ''r://kv/1'')
     \<lparr>environment := Env_test\<rparr>"

theorem settings_isolated_and_unique_witness:
  "isolated test_settings"
proof -
  have "urlparse ''p://db/test'' = Some \<lparr>url_scheme = ''p'', url_netloc = ''db'', url_path = ''/test''\<rparr>"
    "urlparse ''r://kv/1'' = Some \<lparr>url_scheme = ''r'', url_netloc = ''kv'', url_path = ''/1''\<rparr>"
    by code_simp+
  moreover have "check_host ''TEST_DATABASE_URL'' ''p://db/test'' \<lparr>url_scheme = ''p'', url_netloc = ''db'', url_path = ''/test''\<rparr> = Inr ()"
    "check_host ''TEST_REDIS_URL'' ''r://kv/1'' \<lparr>url_scheme = ''r'', url_netloc = ''kv'', url_path = ''/1''\<rparr> = Inr ()"
    "check_database \<lparr>url_scheme = ''p'', url_netloc = ''db'', url_path = ''/test''\<rparr> = Inr ()"
    "check_redis \<lparr>url_scheme = ''r'', url_netloc = ''kv'', url_path = ''/1''\<rparr> = Inr ()"
    by code_simp+
  ultimately have "assert_test_isolation test_settings = Inr ()"
    by (simp add: assert_test_isolation_def test_settings_def default_settings_def is_test_def parse_url_def)
  then have "Inr test_settings \<in> set (settings_calls [Inl (ValueError []), Inr test_settings] None)"
    by (simp add: get_settings_def)
  from settings_isolated_and_unique [OF this] show ?thesis
    by (simp add: is_test_def test_settings_def)
qed

end
