(* ===== verification/Singletons.thy ===== *)
theory Singletons
  imports Config Cache Messaging
begin

text \<open>
  The process singletons: the Redis client with its breaker (\<open>src/core/cache.py\<close>), the engine with
  its session factory and breaker (\<open>src/core/database.py\<close>) and the producer
  (\<open>src/core/messaging.py\<close>). Each module keeps them in global variables, here the fields of a
  record, and builds them on first use. What \<open>get_settings()\<close> gives at the call is the parameter
  \<open>load\<close>; the constructors of the libraries are functions of what they are given.
\<close>

definition assertion_error :: exc where
  "assertion_error = OtherError ''AssertionError'' []"

section \<open>Redis\<close>

record pool_config =
  pc_url :: string
  pc_max_connections :: int
  pc_socket_timeout :: rat
  pc_socket_connect_timeout :: rat
  pc_health_check_interval :: int

definition build_pool :: "settings \<Rightarrow> pool_config" where
  "build_pool s =
     \<lparr>pc_url = redis_url s,
      pc_max_connections = (if is_test s then min (redis_max_connections s) 5 else redis_max_connections s),
      pc_socket_timeout = redis_socket_timeout_seconds s,
      pc_socket_connect_timeout = redis_socket_timeout_seconds s,
      pc_health_check_interval = redis_health_check_interval_seconds s\<rparr>"

text \<open>A client is identified by the pool it was built on.\<close>

record 'p cache_module =
  cm_pool :: "'p option"
  cm_redis :: "'p option"
  cm_breaker :: "breaker option"

definition fresh_cache :: "'p cache_module" where
  "fresh_cache = \<lparr>cm_pool = None, cm_redis = None, cm_breaker = None\<rparr>"

definition micros :: "rat \<Rightarrow> int" where
  "micros r = ceiling (r * 1000000)"

definition redis_breaker :: "settings \<Rightarrow> exc + breaker" where
  "redis_breaker s = new_breaker ''nimbus.redis'' (redis_circuit_breaker_fail_max s)
     (micros (redis_circuit_breaker_reset_timeout_seconds s))"

definition get_redis ::
    "(pool_config \<Rightarrow> exc + 'p) \<Rightarrow> exc + settings \<Rightarrow> ('p cache_module, exc, 'p) comp" where
  "get_redis from_url load m =
     (case cm_redis m of
        Some client \<Rightarrow> (Inr client, m)
      | None \<Rightarrow>
          (case load of
             Inl e \<Rightarrow> (Inl e, m)
           | Inr s \<Rightarrow>
               (case from_url (build_pool s) of
                  Inl e \<Rightarrow> (Inl e, m)
                | Inr pool \<Rightarrow>
                    let m1 = m\<lparr>cm_pool := Some pool, cm_redis := Some pool\<rparr> in
                    (case redis_breaker s of
                       Inl e \<Rightarrow> (Inl e, m1)
                     | Inr b \<Rightarrow> (Inr pool, m1\<lparr>cm_breaker := Some b\<rparr>)))))"

definition get_breaker ::
    "(pool_config \<Rightarrow> exc + 'p) \<Rightarrow> exc + settings \<Rightarrow> ('p cache_module, exc, breaker) comp" where
  "get_breaker from_url load m =
     (case (case cm_breaker m of
              Some b \<Rightarrow> (Inr (), m)
            | None \<Rightarrow> seq (get_redis from_url load) (\<lambda>_. ret ()) m) of
        (Inl e, m') \<Rightarrow> (Inl e, m')
      | (Inr _, m') \<Rightarrow>
          (case cm_breaker m' of None \<Rightarrow> (Inl assertion_error, m') | Some b \<Rightarrow> (Inr b, m')))"

definition dispose_redis :: "exc option \<Rightarrow> exc option \<Rightarrow> ('p cache_module, exc, unit) comp" where
  "dispose_redis client_close pool_close m =
     (case (if cm_redis m \<noteq> None then client_close else None) of
        Some e \<Rightarrow> (Inl e, m)
      | None \<Rightarrow>
          (case (if cm_pool m \<noteq> None then pool_close else None) of
             Some e \<Rightarrow> (Inl e, m)
           | None \<Rightarrow> (Inr (), \<lparr>cm_pool = None, cm_redis = None, cm_breaker = None\<rparr>)))"

definition redis_health_check ::
    "(pool_config \<Rightarrow> exc + 'p) \<Rightarrow> exc + settings \<Rightarrow> exc + bool \<Rightarrow> ('p cache_module, exc, bool) comp" where
  "redis_health_check from_url load ping =
     try_except (seq (get_redis from_url load) (\<lambda>_ m. (ping, m))) (\<lambda>_. ret False)"

section \<open>PostgreSQL\<close>

datatype pool_class = NullPool | AsyncAdaptedQueuePool

record engine_config =
  ec_url :: string
  ec_poolclass :: pool_class
  ec_pool_size :: int
  ec_max_overflow :: int
  ec_pool_timeout :: rat
  ec_pool_recycle :: int
  ec_echo :: bool
  ec_application_name :: string
  ec_statement_timeout :: string
  ec_lock_timeout :: string
  ec_timeout :: rat

text \<open>\<open>int(x)\<close> of a float: towards zero.\<close>

definition py_trunc :: "rat \<Rightarrow> int" where
  "py_trunc r = (if 0 \<le> r then floor r else ceiling r)"

definition build_engine :: "settings \<Rightarrow> engine_config" where
  "build_engine s =
     \<lparr>ec_url = database_url s,
      ec_poolclass = (if is_test s then NullPool else AsyncAdaptedQueuePool),
      ec_pool_size = (if \<not> is_test s then database_pool_size s else 0),
      ec_max_overflow = (if \<not> is_test s then database_max_overflow s else 0),
      ec_pool_timeout = database_pool_timeout_seconds s,
      ec_pool_recycle = database_health_check_interval_seconds s * 6,
      ec_echo = database_echo s,
      ec_application_name = app_name s @ ''/'' @ environment_value (environment s),
      ec_statement_timeout = py_str_int (py_trunc (database_command_timeout_seconds s * 1000)),
      ec_lock_timeout = py_str_int (py_trunc (database_pool_timeout_seconds s * 1000)),
      ec_timeout = database_pool_timeout_seconds s\<rparr>"

text \<open>The breaker is that of the library \<open>pybreaker\<close>: what it is built with.\<close>

record pg_breaker =
  pb_fail_max :: int
  pb_reset_timeout :: rat
  pb_name :: string

definition create_breaker :: "settings \<Rightarrow> pg_breaker" where
  "create_breaker s =
     \<lparr>pb_fail_max = redis_circuit_breaker_fail_max s,
      pb_reset_timeout = redis_circuit_breaker_reset_timeout_seconds s,
      pb_name = ''nimbus.postgres''\<rparr>"

text \<open>A session factory is identified by the engine it is bound to.\<close>

record 'e db_module =
  dm_engine :: "'e option"
  dm_session_factory :: "'e option"
  dm_breaker :: "pg_breaker option"

definition fresh_db :: "'e db_module" where
  "fresh_db = \<lparr>dm_engine = None, dm_session_factory = None, dm_breaker = None\<rparr>"

definition get_engine ::
    "(engine_config \<Rightarrow> exc + 'e) \<Rightarrow> exc + settings \<Rightarrow> ('e db_module, exc, 'e) comp" where
  "get_engine create load m =
     (case dm_engine m of
        Some engine \<Rightarrow> (Inr engine, m)
      | None \<Rightarrow>
          (case load of
             Inl e \<Rightarrow> (Inl e, m)
           | Inr s \<Rightarrow>
               let m1 = m\<lparr>dm_breaker := Some (create_breaker s)\<rparr> in
               (case create (build_engine s) of
                  Inl e \<Rightarrow> (Inl e, m1)
                | Inr engine \<Rightarrow> (Inr engine, m1\<lparr>dm_engine := Some engine, dm_session_factory := Some engine\<rparr>))))"

definition get_session_factory ::
    "(engine_config \<Rightarrow> exc + 'e) \<Rightarrow> exc + settings \<Rightarrow> ('e db_module, exc, 'e) comp" where
  "get_session_factory create load m =
     (case (case dm_session_factory m of
              Some f \<Rightarrow> (Inr (), m)
            | None \<Rightarrow> seq (get_engine create load) (\<lambda>_. ret ()) m) of
        (Inl e, m') \<Rightarrow> (Inl e, m')
      | (Inr _, m') \<Rightarrow>
          (case dm_session_factory m' of None \<Rightarrow> (Inl assertion_error, m') | Some f \<Rightarrow> (Inr f, m')))"

definition get_db_breaker ::
    "(engine_config \<Rightarrow> exc + 'e) \<Rightarrow> exc + settings \<Rightarrow> ('e db_module, exc, pg_breaker) comp" where
  "get_db_breaker create load m =
     (case (case dm_breaker m of
              Some b \<Rightarrow> (Inr (), m)
            | None \<Rightarrow> seq (get_engine create load) (\<lambda>_. ret ()) m) of
        (Inl e, m') \<Rightarrow> (Inl e, m')
      | (Inr _, m') \<Rightarrow>
          (case dm_breaker m' of None \<Rightarrow> (Inl assertion_error, m') | Some b \<Rightarrow> (Inr b, m')))"

definition dispose_engine :: "exc option \<Rightarrow> ('e db_module, exc, unit) comp" where
  "dispose_engine dispose m =
     (case (if dm_engine m \<noteq> None then dispose else None) of
        Some e \<Rightarrow> (Inl e, m)
      | None \<Rightarrow> (Inr (), \<lparr>dm_engine = None, dm_session_factory = None, dm_breaker = None\<rparr>))"

definition db_health_check ::
    "(engine_config \<Rightarrow> exc + 'e) \<Rightarrow> exc + settings \<Rightarrow> exc option \<Rightarrow> ('e db_module, exc, bool) comp" where
  "db_health_check create load connect =
     try_except (seq (get_engine create load) (\<lambda>_ m. (case connect of None \<Rightarrow> Inr True | Some e \<Rightarrow> Inl e, m)))
       (\<lambda>_. ret False)"

section \<open>The producer\<close>

definition get_producer :: "exc + settings \<Rightarrow> (producer option, exc, producer) comp" where
  "get_producer load m =
     (case m of
        Some p \<Rightarrow> (Inr p, m)
      | None \<Rightarrow>
          (case load of
             Inl e \<Rightarrow> (Inl e, m)
           | Inr s \<Rightarrow> (let p = new_producer (kafka_bootstrap_servers s) in (Inr p, Some p))))"

definition dispose_producer :: "exc option \<Rightarrow> exc option \<Rightarrow> (producer option, exc, unit) comp" where
  "dispose_producer flush_outcome stop_outcome m =
     (case m of
        None \<Rightarrow> (Inr (), None)
      | Some p \<Rightarrow>
          (case producer_stop flush_outcome stop_outcome p of
             (Inl e, p') \<Rightarrow> (Inl e, Some p')
           | (Inr _, p') \<Rightarrow> (Inr (), None)))"

section \<open>Facts\<close>

text \<open>The calls a process makes on the modules, and the state they leave.\<close>

datatype 'p cache_call =
    Get_Redis "exc + settings"
  | Get_Breaker "exc + settings"
  | Redis_Health "exc + settings" "exc + bool"
  | Dispose_Redis "exc option" "exc option"

fun cache_call_step :: "(pool_config \<Rightarrow> exc + 'p) \<Rightarrow> 'p cache_call \<Rightarrow> 'p cache_module \<Rightarrow> 'p cache_module" where
  "cache_call_step from_url (Get_Redis load) m = snd (get_redis from_url load m)"
| "cache_call_step from_url (Get_Breaker load) m = snd (get_breaker from_url load m)"
| "cache_call_step from_url (Redis_Health load ping) m = snd (redis_health_check from_url load ping m)"
| "cache_call_step from_url (Dispose_Redis c p) m = snd (dispose_redis c p m)"

definition cache_calls :: "(pool_config \<Rightarrow> exc + 'p) \<Rightarrow> 'p cache_call list \<Rightarrow> 'p cache_module" where
  "cache_calls from_url calls = fold (cache_call_step from_url) calls fresh_cache"

text \<open>Settings the breaker can be built from.\<close>

definition breaker_settings_ok :: "exc + settings \<Rightarrow> bool" where
  "breaker_settings_ok load = (case load of Inl _ \<Rightarrow> True
     | Inr s \<Rightarrow> 0 < redis_circuit_breaker_fail_max s \<and> 0 < redis_circuit_breaker_reset_timeout_seconds s)"

fun call_ok :: "'p cache_call \<Rightarrow> bool" where
  "call_ok (Get_Redis load) = breaker_settings_ok load"
| "call_ok (Get_Breaker load) = breaker_settings_ok load"
| "call_ok (Redis_Health load ping) = breaker_settings_ok load"
| "call_ok (Dispose_Redis c p) = True"

definition cache_consistent :: "'p cache_module \<Rightarrow> bool" where
  "cache_consistent m \<longleftrightarrow> cm_pool m = cm_redis m \<and> (cm_redis m = None \<longleftrightarrow> cm_breaker m = None)"

lemma redis_breaker_ok:
  assumes "breaker_settings_ok (Inr s)"
  obtains b where "redis_breaker s = Inr b"
proof -
  have "0 < micros (redis_circuit_breaker_reset_timeout_seconds s)"
    using assms by (simp add: micros_def breaker_settings_ok_def)
  with assms that show thesis by (simp add: redis_breaker_def new_breaker_def breaker_settings_ok_def)
qed

lemma get_redis_consistent:
  assumes "cache_consistent m" and "breaker_settings_ok load" and "get_redis from_url load m = (r, m')"
  shows "cache_consistent m'" and "(\<exists>e. r = Inl e) \<or> cm_redis m' \<noteq> None"
proof -
  have b: "redis_breaker s \<noteq> Inl e" if "load = Inr s" for s e
    using assms(2) that redis_breaker_ok by (metis sum.distinct(1))
  show "cache_consistent m'" and "(\<exists>e. r = Inl e) \<or> cm_redis m' \<noteq> None"
    by (use assms b in \<open>cases r; auto simp: get_redis_def cache_consistent_def Let_def split: option.splits sum.splits\<close>)+
qed

lemma get_breaker_consistent:
  assumes "cache_consistent m" and "breaker_settings_ok load" and "get_breaker from_url load m = (r, m')"
  shows "cache_consistent m'" and "r \<noteq> Inl assertion_error \<or> (\<exists>e. fst (get_redis from_url load m) = Inl e)"
proof -
  obtain q m1 where g: "get_redis from_url load m = (q, m1)" by fastforce
  note c = get_redis_consistent [OF assms(1,2) g]
  show "cache_consistent m'" and "r \<noteq> Inl assertion_error \<or> (\<exists>e. fst (get_redis from_url load m) = Inl e)"
    using assms(1,3) c g
    by (auto simp: get_breaker_def seq_def cache_consistent_def split: option.splits sum.splits)
qed

lemma cache_call_consistent:
  assumes "cache_consistent m" and "call_ok c"
  shows "cache_consistent (cache_call_step from_url c m)"
proof (cases c)
  case (Get_Redis load)
  with assms get_redis_consistent(1) [of m load from_url] show ?thesis
    by (cases "get_redis from_url load m") auto
next
  case (Get_Breaker load)
  with assms get_breaker_consistent(1) [of m load from_url] show ?thesis
    by (cases "get_breaker from_url load m") auto
next
  case (Redis_Health load ping)
  with assms get_redis_consistent(1) [of m load from_url] show ?thesis
    by (cases "get_redis from_url load m")
      (auto simp: redis_health_check_def try_except_def seq_def split: sum.splits)
next
  case (Dispose_Redis c p)
  with assms(1) show ?thesis
    by (auto simp: dispose_redis_def cache_consistent_def split: option.splits)
qed

lemma cache_calls_consistent: "list_all call_ok calls \<Longrightarrow> cache_consistent (cache_calls from_url calls)"
proof -
  have "cache_consistent (fold (cache_call_step from_url) calls m)"
    if "list_all call_ok calls" "cache_consistent m" for m
    using that by (induction calls arbitrary: m) (auto simp: cache_call_consistent)
  moreover have "cache_consistent fresh_cache" by (simp add: fresh_cache_def cache_consistent_def)
  ultimately show "list_all call_ok calls \<Longrightarrow> ?thesis" unfolding cache_calls_def by blast
qed

text \<open>
  The Redis singletons stay usable. Whatever a process has called on the module before, with settings
  a breaker can be built from: once \<open>get_redis\<close> has returned a client, it returns the same one until
  the module is disposed of, and \<open>get_breaker\<close> finds the breaker that was built with it; its assertion
  fails in no case.
\<close>

theorem redis_singletons_usable:
  assumes "list_all call_ok calls" and "breaker_settings_ok load"
    and "get_redis from_url load (cache_calls from_url calls) = (Inr client, m)"
  shows "get_redis from_url load' m = (Inr client, m)
    \<and> (\<exists>b. get_breaker from_url load' m = (Inr b, m)
         \<and> (cm_redis (cache_calls from_url calls) = None \<longrightarrow> br_state b = Closed \<and> br_failure_count b = 0))
    \<and> fst (get_breaker from_url load (cache_calls from_url calls)) \<noteq> Inl assertion_error"
proof -
  let ?m0 = "cache_calls from_url calls"
  have c0: "cache_consistent ?m0" using assms(1) by (rule cache_calls_consistent)
  note c = get_redis_consistent [OF c0 assms(2,3)]
  have same: "cm_redis m = Some client"
    using assms(3) by (auto simp: get_redis_def Let_def split: option.splits sum.splits)
  obtain b where b: "cm_breaker m = Some b" using c(1) same by (auto simp: cache_consistent_def)
  have new: "br_state b = Closed \<and> br_failure_count b = 0" if "cm_redis ?m0 = None"
    using assms(3) b that
    by (auto simp: get_redis_def redis_breaker_def new_breaker_def Let_def split: option.splits sum.splits if_splits)
  have "fst (get_breaker from_url load ?m0) \<noteq> Inl assertion_error"
    using get_breaker_consistent(2) [OF c0 assms(2)] assms(3) by (metis fst_conv prod.collapse sum.distinct(1))
  with same b new show ?thesis by (simp add: get_redis_def get_breaker_def)
qed

definition open_pool :: "pool_config \<Rightarrow> exc + string" where
  "open_pool c = Inr (pc_url c)"

theorem redis_singletons_usable_witness:
  "fst (get_redis open_pool (Inl (ValueError []))
     (snd (get_redis open_pool (Inr (default_settings ''p'' ''r'')) (cache_calls open_pool [Dispose_Redis None None]))))
   = Inr ''r''"
proof -
  let ?load = "Inr (default_settings ''p'' ''r'')"
  have ok: "breaker_settings_ok ?load" by (simp add: breaker_settings_ok_def default_settings_def)
  have "get_redis open_pool ?load (cache_calls open_pool [Dispose_Redis None None])
      = (Inr ''r'', snd (get_redis open_pool ?load (cache_calls open_pool [Dispose_Redis None None])))"
    by code_simp
  from redis_singletons_usable [OF _ ok this] show ?thesis by simp
qed

text \<open>
  A misconfigured breaker. The settings put no bound on the number of failures; with zero or less the
  first \<open>get_redis\<close> raises, but the client it had already stored stays: the next call returns it as if
  nothing had happened, and every \<open>get_breaker\<close> ends in its assertion until the module is disposed of.
\<close>

theorem misconfigured_breaker_leaves_client:
  assumes "redis_circuit_breaker_fail_max s \<le> 0" and "from_url (build_pool s) = Inr client"
    and "get_redis from_url (Inr s) fresh_cache = (r, m)"
  shows "r = Inl (ValueError ''fail_max must be > 0'')
    \<and> get_redis from_url load m = (Inr client, m)
    \<and> get_breaker from_url load m = (Inl assertion_error, m)"
  using assms by (auto simp: get_redis_def get_breaker_def fresh_cache_def redis_breaker_def new_breaker_def Let_def)

theorem misconfigured_breaker_leaves_client_witness:
  "fst (get_breaker open_pool (Inl (ValueError []))
     (snd (get_redis open_pool (Inr ((default_settings ''p'' ''r'')\<lparr>redis_circuit_breaker_fail_max := 0\<rparr>)) fresh_cache)))
   = Inl assertion_error"
  using misconfigured_breaker_leaves_client
    [of "(default_settings ''p'' ''r'')\<lparr>redis_circuit_breaker_fail_max := 0\<rparr>" open_pool "''r''"]
  by (simp add: open_pool_def build_pool_def default_settings_def prod_eq_iff)

end
