(* ===== verification/App.thy ===== *)
theory App
  imports Singletons Abuse Outbox_Relay Order_Consumer
begin

text \<open>
  The assembled application, \<open>src/main.py\<close>, with the request-context middleware of
  \<open>src/core/telemetry.py\<close>: what one request passes through, and the lifespan that builds the
  singletons and starts and stops the background workers. Of Starlette the model has the header
  mappings and the order in which the middleware runs: the catch-all handler outermost, then the
  middleware in the reverse order of \<open>add_middleware\<close>, then the handlers of the other classes.
\<close>

section \<open>Requests\<close>

text \<open>The context variables bound for the log lines of one request.\<close>

record request_context =
  rc_request_id :: string
  rc_method :: string
  rc_path :: string
  rc_client :: "string option"

definition same_header :: "string \<Rightarrow> string \<times> string \<Rightarrow> bool" where
  "same_header name h \<longleftrightarrow> py_lower (fst h) = py_lower name"

definition response_header :: "string \<Rightarrow> response \<Rightarrow> string option" where
  "response_header name resp = map_option snd (find (same_header name) (resp_headers resp))"

text \<open>\<open>response.headers[name] = value\<close>: the first header of the name is replaced, others removed.\<close>

definition set_header :: "string \<Rightarrow> string \<Rightarrow> response \<Rightarrow> response" where
  "set_header name value resp =
     (let hs = resp_headers resp; other = (\<lambda>h. \<not> same_header name h) in
      resp\<lparr>resp_headers := takeWhile other hs @ (py_lower name, value) # filter other (tl (dropWhile other hs))\<rparr>)"

definition request_id_of :: "uuid \<Rightarrow> http_request \<Rightarrow> string" where
  "request_id_of fresh req =
     (case header_get ''X-Request-ID'' req of None \<Rightarrow> str_uuid fresh | Some v \<Rightarrow> if v = [] then str_uuid fresh else v)"

text \<open>\<open>RequestContextMiddleware.dispatch\<close>: \<open>fresh\<close> is the UUID it would draw.\<close>

definition request_dispatch ::
    "uuid \<Rightarrow> string \<Rightarrow> (http_request \<Rightarrow> ('w, exc, response) comp) \<Rightarrow> http_request
     \<Rightarrow> ('w \<times> request_context option, exc, response) comp" where
  "request_dispatch fresh method call_next req w =
     (let request_id = request_id_of fresh req;
          ctx = Some \<lparr>rc_request_id = request_id, rc_method = method, rc_path = hr_path req, rc_client = hr_client req\<rparr> in
      case call_next req (fst w) of
        (Inl e, v) \<Rightarrow> (Inl e, (v, ctx))
      | (Inr resp, v) \<Rightarrow> (Inr (set_header ''X-Request-ID'' request_id resp), (v, ctx)))"

text \<open>The handlers that run inside the middleware: all but the one for \<open>Exception\<close>.\<close>

definition has_inner_handler :: "exc \<Rightarrow> bool" where
  "has_inner_handler e = (case e of Nimbus _ _ _ \<Rightarrow> True | RequestValidationError _ \<Rightarrow> True
     | HTTPException _ _ \<Rightarrow> True | _ \<Rightarrow> False)"

definition exception_middleware ::
    "(http_request \<Rightarrow> ('w, exc, response) comp) \<Rightarrow> http_request \<Rightarrow> ('w, exc, response) comp" where
  "exception_middleware app req =
     try_except (app req) (\<lambda>e. if has_inner_handler e then ret (handle_exception e) else raise_exc e)"

text \<open>
  The outermost layer: for an exception that gets here it sends the response of the catch-all handler and
  raises the exception again, to the server or to the test client. The result is the response that is
  sent and what is raised afterwards.
\<close>

definition server_error_middleware ::
    "(http_request \<Rightarrow> ('w, exc, response) comp) \<Rightarrow> http_request \<Rightarrow> 'w \<Rightarrow> (response \<times> exc option) \<times> 'w" where
  "server_error_middleware app req w =
     (case app req w of
        (Inl e, w') \<Rightarrow> ((unhandled_exception_handler, Some e), w')
      | (Inr resp, w') \<Rightarrow> ((resp, None), w'))"

definition create_app ::
    "'r redis_ops \<Rightarrow> (string \<Rightarrow> string) \<Rightarrow> (int \<Rightarrow> string) \<Rightarrow> abuse_settings \<Rightarrow> bool \<Rightarrow> abuse_io \<Rightarrow> uuid \<Rightarrow> string
     \<Rightarrow> (http_request \<Rightarrow> ((breaker \<times> 'r) \<times> 's, exc, response) comp) \<Rightarrow> http_request
     \<Rightarrow> ((breaker \<times> 'r) \<times> 's) \<times> request_context option
     \<Rightarrow> (response \<times> exc option) \<times> (((breaker \<times> 'r) \<times> 's) \<times> request_context option)" where
  "create_app R sha256 tostring s layer io fresh method router =
     server_error_middleware
       (request_dispatch fresh method
         (abuse_dispatch R sha256 tostring s layer io (exception_middleware router)))"

text \<open>The three documentation URLs, which production does not have, and the two probes.\<close>

definition docs_urls :: "settings \<Rightarrow> string option \<times> string option \<times> string option" where
  "docs_urls s = (if \<not> is_production s then (Some ''/docs'', Some ''/redoc'', Some ''/openapi.json'') else (None, None, None))"

definition health :: "settings \<Rightarrow> json" where
  "health s = JDict [(''status'', JStr ''ok''), (''app'', JStr (app_name s)), (''version'', JStr (app_version s)),
     (''environment'', JStr (environment_value (environment s)))]"

definition ready ::
    "(engine_config \<Rightarrow> exc + 'e) \<Rightarrow> (pool_config \<Rightarrow> exc + 'p) \<Rightarrow> exc + settings \<Rightarrow> exc option \<Rightarrow> exc + bool
     \<Rightarrow> ('e db_module \<times> 'p cache_module, exc, json) comp" where
  "ready create from_url load connect ping =
     seq (on_fst (db_health_check create load connect)) (\<lambda>db_ok.
     seq (on_snd (redis_health_check from_url load ping)) (\<lambda>redis_ok.
     ret (JDict [(''status'', JStr (if db_ok \<and> redis_ok then ''ok'' else ''degraded'')),
                 (''database'', JStr (if db_ok then ''ok'' else ''down'')),
                 (''redis'', JStr (if redis_ok then ''ok'' else ''down''))])))"

section \<open>The lifespan\<close>

text \<open>
  How a task ends when it is awaited at a stop: in time, after the timeout and its cancellation, or
  with an exception of its own (a \<open>TimeoutError\<close> of the task is taken for the timeout). \<open>CancelledError\<close> is not an \<open>Exception\<close>, so neither
  \<open>_Suppress(Exception)\<close> nor \<open>except Exception\<close> catches it.
\<close>

datatype task_end = Ended | Timed_Out | Failed exc

fun suppressed :: "raised \<Rightarrow> bool" where
  "suppressed (Raised e) = True"
| "suppressed CancelledError = False"

definition await_stopped :: "task_end \<Rightarrow> raised option" where
  "await_stopped how =
     (case how of
        Ended \<Rightarrow> None
      | Timed_Out \<Rightarrow> if suppressed CancelledError then None else Some CancelledError
      | Failed e \<Rightarrow> if e = BuiltinTimeoutError \<and> suppressed (Raised e) then None else Some (Raised e))"

definition stop_relay :: "task_end \<Rightarrow> relay_task \<Rightarrow> raised option \<times> relay_task" where
  "stop_relay how t = (if rt_task t = NoTask then None else await_stopped how, relay_stop t)"

definition stop_consumer :: "task_end \<Rightarrow> consumer \<Rightarrow> raised option \<times> consumer" where
  "stop_consumer how c = (if co_task c = NoTask then None else await_stopped how, consumer_stop c)"

record ('e, 'p) app_state =
  as_abuse :: bool
  as_cache :: "'p cache_module"
  as_db :: "'e db_module"
  as_producer :: "producer option"
  as_relay :: "relay_task option"
  as_consumer :: "consumer option"

definition process_start :: "('e, 'p) app_state" where
  "process_start = \<lparr>as_abuse = False, as_cache = fresh_cache, as_db = fresh_db, as_producer = None,
     as_relay = None, as_consumer = None\<rparr>"

record stop_io =
  si_relay :: task_end
  si_flush :: "exc option"
  si_driver_stop :: "exc option"
  si_consumer :: task_end

text \<open>
  The relay part of the startup: what fails after the producer was started leaves it started. The
  last part of the result is \<open>relay\<close>.
\<close>

definition start_relay ::
    "(engine_config \<Rightarrow> exc + 'e) \<Rightarrow> exc + settings \<Rightarrow> settings \<Rightarrow> exc option \<Rightarrow> ('e, 'p) app_state \<Rightarrow> ('e, 'p) app_state" where
  "start_relay create load s kafka w =
     (if \<not> outbox_relay_enabled s then w\<lparr>as_relay := None\<rparr>
      else case get_producer load (as_producer w) of
        (Inl e, m) \<Rightarrow> w\<lparr>as_producer := m, as_relay := None\<rparr>
      | (Inr p, m) \<Rightarrow>
          (case producer_start kafka p of
             (Inl e, p') \<Rightarrow> w\<lparr>as_producer := Some p', as_relay := None\<rparr>
           | (Inr _, p') \<Rightarrow>
               (case get_engine create load (as_db w) of
                  (Inl e, d) \<Rightarrow> w\<lparr>as_producer := Some p', as_db := d, as_relay := None\<rparr>
                | (Inr _, d) \<Rightarrow> w\<lparr>as_producer := Some p', as_db := d,
                    as_relay := Some (relay_start (outbox_relay_enabled s) \<lparr>rt_task = NoTask, rt_stop_event = False\<rparr>)\<rparr>)))"

definition new_order_consumer :: consumer where
  "new_order_consumer = \<lparr>co_task = NoTask, co_stop_event = False, co_dedupe = False, co_consumer = False,
     co_session_factory = True\<rparr>"

definition start_consumer ::
    "(pool_config \<Rightarrow> exc + 'p) \<Rightarrow> exc + settings \<Rightarrow> settings \<Rightarrow> ('e, 'p) app_state \<Rightarrow> ('e, 'p) app_state" where
  "start_consumer from_url load s w =
     (if \<not> kafka_consumer_enabled s then w\<lparr>as_consumer := None\<rparr>
      else case seq (get_redis from_url load) (\<lambda>_. get_breaker from_url load) (as_cache w) of
        (Inl e, c) \<Rightarrow> w\<lparr>as_cache := c, as_consumer := None\<rparr>
      | (Inr _, c) \<Rightarrow> w\<lparr>as_cache := c, as_consumer := Some (consumer_start (kafka_consumer_enabled s) new_order_consumer)\<rparr>)"

definition lifespan_startup ::
    "(engine_config \<Rightarrow> exc + 'e) \<Rightarrow> (pool_config \<Rightarrow> exc + 'p) \<Rightarrow> exc + settings \<Rightarrow> exc option
     \<Rightarrow> (('e, 'p) app_state, exc, unit) comp" where
  "lifespan_startup create from_url load kafka w =
     (case load of
        Inl e \<Rightarrow> (Inl e, w)
      | Inr s \<Rightarrow>
          (case seq (get_redis from_url load) (\<lambda>_. get_breaker from_url load) (as_cache w) of
             (Inl e, c) \<Rightarrow> (Inl e, w\<lparr>as_cache := c\<rparr>)
           | (Inr _, c) \<Rightarrow>
               (Inr (), start_consumer from_url load s (start_relay create load s kafka (w\<lparr>as_cache := c, as_abuse := True\<rparr>)))))"

text \<open>The \<open>try\<close> block of the shutdown; \<open>except Exception: pass\<close> around it.\<close>

definition stop_workers :: "exc + settings \<Rightarrow> stop_io \<Rightarrow> (('e, 'p) app_state, raised, unit) comp" where
  "stop_workers load io w =
     (case get_producer load (as_producer w) of
        (Inl e, m) \<Rightarrow> (Inl (Raised e), w\<lparr>as_producer := m\<rparr>)
      | (Inr p, m) \<Rightarrow>
          (case (if pr_started p then producer_stop (si_flush io) (si_driver_stop io) p else (Inr (), p)) of
             (Inl e, p') \<Rightarrow> (Inl (Raised e), w\<lparr>as_producer := Some p'\<rparr>)
           | (Inr _, p') \<Rightarrow>
               let w1 = w\<lparr>as_producer := Some p'\<rparr> in
               (case as_consumer w of
                  None \<Rightarrow> (Inr (), w1)
                | Some c \<Rightarrow>
                    (case stop_consumer (si_consumer io) c of
                       (None, c') \<Rightarrow> (Inr (), w1\<lparr>as_consumer := Some c'\<rparr>)
                     | (Some e, c') \<Rightarrow> (Inl e, w1\<lparr>as_consumer := Some c'\<rparr>)))))"

definition lifespan_shutdown :: "exc + settings \<Rightarrow> stop_io \<Rightarrow> (('e, 'p) app_state, raised, unit) comp" where
  "lifespan_shutdown load io w =
     (case (case as_relay w of
              None \<Rightarrow> (None, w)
            | Some t \<Rightarrow> (case stop_relay (si_relay io) t of (r, t') \<Rightarrow> (r, w\<lparr>as_relay := Some t'\<rparr>))) of
        (Some e, w1) \<Rightarrow> (Inl e, w1)
      | (None, w1) \<Rightarrow>
          (case stop_workers load io w1 of
             (Inr _, w2) \<Rightarrow> (Inr (), w2)
           | (Inl (Raised e), w2) \<Rightarrow> (Inr (), w2)
           | (Inl CancelledError, w2) \<Rightarrow> (Inl CancelledError, w2)))"

section \<open>What a request gets\<close>

lemma set_header_once:
  "response_header name (set_header name v resp) = Some v
   \<and> length (filter (same_header name) (resp_headers (set_header name v resp))) = 1"
proof -
  let ?other = "\<lambda>h. \<not> same_header name h"
  have same: "same_header name (py_lower name, v)" by (simp add: same_header_def)
  have none: "filter (same_header name) (takeWhile ?other hs) = []" for hs
    by (auto simp: filter_empty_conv dest: set_takeWhileD)
  have skip: "find (same_header name) (xs @ ys) = find (same_header name) ys"
    if "filter (same_header name) xs = []" for xs ys
    using that by (induction xs) (auto split: if_splits)
  show ?thesis
    unfolding response_header_def set_header_def Let_def
    by (simp add: none skip same comp_def)
qed

lemma set_header_content [simp]:
  "resp_status (set_header n v r) = resp_status r" "resp_content (set_header n v r) = resp_content r"
  by (simp_all add: set_header_def Let_def)

lemma set_header_others:
  "filter (\<lambda>h. \<not> same_header n h) (resp_headers (set_header n v r)) = filter (\<lambda>h. \<not> same_header n h) (resp_headers r)"
proof -
  let ?other = "\<lambda>h. \<not> same_header n h"
  have "filter ?other (takeWhile ?other hs) @ filter ?other (tl (dropWhile ?other hs)) = filter ?other hs" for hs
    by (induction hs) auto
  moreover have "\<not> ?other (py_lower n, v)" by (simp add: same_header_def)
  ultimately show ?thesis by (simp add: set_header_def Let_def)
qed

text \<open>A response with the status, the body and the other headers of another one, and with the id once.\<close>

definition carries_id :: "string \<Rightarrow> response \<Rightarrow> response \<Rightarrow> bool" where
  "carries_id request_id r resp \<longleftrightarrow> resp_status resp = resp_status r \<and> resp_content resp = resp_content r
     \<and> filter (\<lambda>h. \<not> same_header ''X-Request-ID'' h) (resp_headers resp)
       = filter (\<lambda>h. \<not> same_header ''X-Request-ID'' h) (resp_headers r)
     \<and> response_header ''X-Request-ID'' resp = Some request_id
     \<and> length (filter (same_header ''X-Request-ID'') (resp_headers resp)) = 1"

lemma set_header_carries: "carries_id request_id r (set_header ''X-Request-ID'' request_id r)"
  using set_header_once [of "''X-Request-ID''" request_id r] by (simp add: carries_id_def set_header_others)

text \<open>What the client gets for an outcome of the router, and what is raised to the server.\<close>

definition answered :: "string \<Rightarrow> exc + response \<Rightarrow> response \<Rightarrow> exc option \<Rightarrow> bool" where
  "answered request_id x resp raised \<longleftrightarrow>
     (case x of
        Inr r \<Rightarrow> carries_id request_id r resp \<and> raised = None
      | Inl e \<Rightarrow> if has_inner_handler e then carries_id request_id (handle_exception e) resp \<and> raised = None
                 else resp = unhandled_exception_handler \<and> raised = Some e)"

lemma routed_answer:
  "answered request_id (fst (router req v))
     (case fst (exception_middleware router req v) of Inl e \<Rightarrow> unhandled_exception_handler
        | Inr r \<Rightarrow> set_header ''X-Request-ID'' request_id r)
     (case fst (exception_middleware router req v) of Inl e \<Rightarrow> Some e | Inr r \<Rightarrow> None)"
  "snd (exception_middleware router req v) = snd (router req v)"
proof -
  obtain x v' where r: "router req v = (x, v')" by (meson surj_pair)
  show "answered request_id (fst (router req v))
     (case fst (exception_middleware router req v) of Inl e \<Rightarrow> unhandled_exception_handler
        | Inr r \<Rightarrow> set_header ''X-Request-ID'' request_id r)
     (case fst (exception_middleware router req v) of Inl e \<Rightarrow> Some e | Inr r \<Rightarrow> None)"
    and "snd (exception_middleware router req v) = snd (router req v)"
    using r by (cases x; simp add: exception_middleware_def try_except_def answered_def set_header_carries)+
qed

lemma create_app_parts:
  assumes "abuse_dispatch R sha256 tostring s layer io (exception_middleware router) req (fst w) = (x, v)"
  shows "create_app R sha256 tostring s layer io fresh method router req w =
    ((case x of Inl e \<Rightarrow> (unhandled_exception_handler, Some e)
        | Inr r \<Rightarrow> (set_header ''X-Request-ID'' (request_id_of fresh req) r, None)),
     (v, Some \<lparr>rc_request_id = request_id_of fresh req, rc_method = method, rc_path = hr_path req, rc_client = hr_client req\<rparr>))"
  using assms by (cases x) (simp_all add: create_app_def server_error_middleware_def request_dispatch_def Let_def)

text \<open>
  C29: Every request is answered, and exactly so. The context of the log lines has the request id: the
  client's \<open>X-Request-ID\<close> or a fresh UUID. A request to a probe, or without an abuse layer, goes to the
  router; otherwise the check decides: if Redis fails, the plain 500 is sent, the error is raised to the
  server and the router does not run; if the request is refused, its 429 or 403 is sent with the id and
  the router does not run; else the router runs. What the router answers is sent with the same status,
  body and other headers and with the id in exactly one header, even if the router had set another; an
  exception with a handler is answered as that handler says, with the id; any other is answered with the
  plain 500, which has no id, and is raised again to the server.
\<close>

theorem request_answered:
  assumes "create_app R sha256 tostring s layer io fresh method router req w = ((resp, raised), w')"
    and "direct \<longleftrightarrow> hr_path req \<in> {''/health'', ''/ready'', ''/metrics''} \<or> \<not> layer"
    and "check R sha256 tostring s io (extract_client_ip req (abuse_trust_forwarded_for s))
        (header_or_empty ''User-Agent'' req) (header_or_empty ''Accept-Language'' req) [] (fst (fst w)) = (verdict, br)"
  shows "map_option rc_request_id (snd w') = Some (request_id_of fresh req)
    \<and> (direct \<longrightarrow> answered (request_id_of fresh req) (fst (router req (fst w))) resp raised
        \<and> fst w' = snd (router req (fst w)))
    \<and> (\<not> direct \<longrightarrow> (case verdict of
        Inl e \<Rightarrow> resp = unhandled_exception_handler \<and> raised = Some e \<and> fst w' = (br, snd (fst w))
      | Inr result \<Rightarrow>
          if rl_status result \<in> {RL_OK, BYPASSED}
          then answered (request_id_of fresh req) (fst (router req (br, snd (fst w)))) resp raised
            \<and> fst w' = snd (router req (br, snd (fst w)))
          else carries_id (request_id_of fresh req)
              (if rl_status result = RATE_LIMITED then rate_limited_response s else blacklisted_response s) resp
            \<and> raised = None \<and> fst w' = (br, snd (fst w))))
    \<and> response_header ''X-Request-ID'' unhandled_exception_handler = None"
proof -
  let ?id = "request_id_of fresh req" and ?app = "exception_middleware router"
  obtain x v where inner: "abuse_dispatch R sha256 tostring s layer io ?app req (fst w) = (x, v)" by (meson surj_pair)
  have parts: "resp = (case x of Inl e \<Rightarrow> unhandled_exception_handler | Inr r \<Rightarrow> set_header ''X-Request-ID'' ?id r)"
    "raised = (case x of Inl e \<Rightarrow> Some e | Inr r \<Rightarrow> None)" "fst w' = v"
    "map_option rc_request_id (snd w') = Some ?id"
    using assms(1) unfolding create_app_parts [OF inner] by (auto split: sum.splits)
  have app: "answered ?id (fst (router req u)) resp raised \<and> fst w' = snd (router req u)"
    if "abuse_dispatch R sha256 tostring s layer io ?app req (fst w) = ?app req u" for u
    using that inner parts(1-3) routed_answer(1) [of ?id router req u] routed_answer(2) [of router req u] by (metis fst_conv snd_conv)
  have "direct \<longrightarrow> answered ?id (fst (router req (fst w))) resp raised \<and> fst w' = snd (router req (fst w))"
    using app [of "fst w"] assms(2) by (auto simp: abuse_dispatch_def)
  moreover have "case verdict of
        Inl e \<Rightarrow> resp = unhandled_exception_handler \<and> raised = Some e \<and> fst w' = (br, snd (fst w))
      | Inr result \<Rightarrow>
          if rl_status result \<in> {RL_OK, BYPASSED}
          then answered ?id (fst (router req (br, snd (fst w)))) resp raised \<and> fst w' = snd (router req (br, snd (fst w)))
          else carries_id ?id (if rl_status result = RATE_LIMITED then rate_limited_response s else blacklisted_response s) resp
            \<and> raised = None \<and> fst w' = (br, snd (fst w))" if "\<not> direct"
  proof (cases verdict)
    case (Inl e)
    then have "x = Inl e" "v = (br, snd (fst w))"
      using inner that assms(2,3) by (auto simp: abuse_dispatch_def seq_def on_fst_def)
    with Inl parts show ?thesis by simp
  next
    case (Inr result)
    have run: "abuse_dispatch R sha256 tostring s layer io ?app req (fst w) =
        (if rl_status result \<in> {RL_OK, BYPASSED} then ?app req (br, snd (fst w))
         else (Inr (if rl_status result = RATE_LIMITED then rate_limited_response s else blacklisted_response s),
               (br, snd (fst w))))"
      using Inr that assms(2,3) by (auto simp: abuse_dispatch_def seq_def on_fst_def)
    show ?thesis
    proof (cases "rl_status result \<in> {RL_OK, BYPASSED}")
      case True
      then show ?thesis using app [of "(br, snd (fst w))"] run Inr by simp
    next
      case False
      then show ?thesis using run inner parts Inr by (auto simp: set_header_carries)
    qed
  qed
  moreover have "response_header ''X-Request-ID'' unhandled_exception_handler = None"
    by (simp add: response_header_def unhandled_exception_handler_def)
  ultimately show ?thesis using parts(4) by blast
qed

definition missing_order :: "http_request \<Rightarrow> ((breaker \<times> fake_redis) \<times> unit, exc, response) comp" where
  "missing_order req = raise_exc (nimbus_error ResourceNotFoundError None None)"

definition demo_world :: "((breaker \<times> fake_redis) \<times> unit) \<times> request_context option" where
  "demo_world = (((demo_breaker, fake_empty), ()), None)"

theorem request_answered_witness:
  "resp_status (fst (fst (create_app fake_redis_ops (\<lambda>s. s) py_str_int strict_settings False demo_io 7 ''GET'' missing_order
        \<lparr>hr_path = ''/o'', hr_headers = [(''x-request-id'', ''r1'')], hr_client = None\<rparr> demo_world))) = 404
   \<and> response_header ''X-Request-ID'' (fst (fst (create_app fake_redis_ops (\<lambda>s. s) py_str_int strict_settings False
        demo_io 7 ''GET'' missing_order
        \<lparr>hr_path = ''/o'', hr_headers = [(''x-request-id'', ''r1'')], hr_client = None\<rparr> demo_world))) = Some ''r1''"
proof -
  let ?req = "\<lparr>hr_path = ''/o'', hr_headers = [(''x-request-id'', ''r1'')], hr_client = None\<rparr>"
  let ?run = "create_app fake_redis_ops (\<lambda>s. s) py_str_int strict_settings False demo_io 7 ''GET'' missing_order ?req demo_world"
  have id: "request_id_of 7 ?req = ''r1''" by code_simp
  have status: "resp_status (handle_exception (nimbus_error ResourceNotFoundError None None)) = 404"
    by code_simp
  have handler: "has_inner_handler (nimbus_error ResourceNotFoundError None None)"
    by (simp add: has_inner_handler_def nimbus_error_def)
  have router: "fst (missing_order ?req (fst demo_world)) = Inl (nimbus_error ResourceNotFoundError None None)"
    by (simp add: missing_order_def)
  have run: "?run = ((fst (fst ?run), snd (fst ?run)), snd ?run)" by simp
  from request_answered [OF run HOL.refl prod.collapse [symmetric]]
  have "answered ''r1'' (fst (missing_order ?req (fst demo_world))) (fst (fst ?run)) (snd (fst ?run))"
    unfolding id by simp
  then show ?thesis by (simp add: router answered_def handler carries_id_def status)
qed

section \<open>What the lifespan leaves\<close>

lemma ready_never_raises: "\<exists>j w'. ready create from_url load connect ping w = (Inr j, w')"
proof -
  obtain d c where w: "w = (d, c)" by (cases w)
  obtain b1 d' where "db_health_check create load connect d = (Inr b1, d')"
    by (cases "db_health_check create load connect d")
      (auto simp: db_health_check_def try_except_def split: sum.splits prod.splits)
  moreover obtain b2 c' where "redis_health_check from_url load ping c = (Inr b2, c')"
    by (cases "redis_health_check from_url load ping c")
      (auto simp: redis_health_check_def try_except_def split: sum.splits prod.splits)
  ultimately show ?thesis by (simp add: ready_def w seq_def)
qed

text \<open>A startup whose settings allow a breaker and whose Redis pool can be built.\<close>

lemma startup_succeeds:
  assumes "breaker_settings_ok (Inr s)" and "from_url (build_pool s) = Inr pool"
  obtains c where "lifespan_startup create from_url (Inr s) kafka process_start =
      (Inr (), start_consumer from_url (Inr s) s (start_relay create (Inr s) s kafka (process_start\<lparr>as_cache := c, as_abuse := True\<rparr>)))"
    and "cm_redis c = Some pool" and "cm_breaker c \<noteq> None"
proof -
  obtain b where "redis_breaker s = Inr b" using assms(1) by (rule redis_breaker_ok)
  with assms(2) show thesis
    by (intro that [of "\<lparr>cm_pool = Some pool, cm_redis = Some pool, cm_breaker = Some b\<rparr>"])
      (simp_all add: lifespan_startup_def process_start_def fresh_cache_def get_redis_def get_breaker_def seq_def)
qed

lemma start_consumer_running:
  assumes "cm_redis (as_cache w) = Some pool" and "cm_breaker (as_cache w) \<noteq> None"
  shows "start_consumer from_url load s w =
    w\<lparr>as_consumer := (if kafka_consumer_enabled s
       then Some (new_order_consumer\<lparr>co_dedupe := True, co_task := Running\<rparr>) else None)\<rparr>"
  using assms
  by (auto simp: start_consumer_def get_redis_def get_breaker_def seq_def consumer_start_def new_order_consumer_def)

definition running_relay :: relay_task where
  "running_relay = \<lparr>rt_task = Running, rt_stop_event = False\<rparr>"

lemma start_relay_effect:
  assumes "as_producer w = None" and "as_db w = fresh_db"
  shows "as_relay (start_relay create (Inr s) s kafka w) =
      (if outbox_relay_enabled s \<and> kafka = None \<and> \<not> isl (create (build_engine s)) then Some running_relay else None)"
    and "map_option pr_started (as_producer (start_relay create (Inr s) s kafka w)) =
      (if outbox_relay_enabled s then Some (kafka = None) else None)"
    and "as_cache (start_relay create (Inr s) s kafka w) = as_cache w"
    and "as_abuse (start_relay create (Inr s) s kafka w) = as_abuse w"
  using assms
  by (auto simp: start_relay_def get_producer_def producer_start_def new_producer_def get_engine_def fresh_db_def
      relay_start_def running_relay_def Let_def split: option.splits sum.splits)

definition running_consumer :: consumer where
  "running_consumer = new_order_consumer\<lparr>co_dedupe := True, co_task := Running\<rparr>"

lemma startup_effect:
  assumes "breaker_settings_ok (Inr s)" and "from_url (build_pool s) = Inr pool"
  obtains w where "lifespan_startup create from_url (Inr s) kafka process_start = (Inr (), w)" and "as_abuse w"
    and "as_relay w = (if outbox_relay_enabled s \<and> kafka = None \<and> \<not> isl (create (build_engine s)) then Some running_relay else None)"
    and "map_option pr_started (as_producer w) = (if outbox_relay_enabled s then Some (kafka = None) else None)"
    and "as_consumer w = (if kafka_consumer_enabled s then Some running_consumer else None)"
proof -
  obtain c where start: "lifespan_startup create from_url (Inr s) kafka process_start =
      (Inr (), start_consumer from_url (Inr s) s (start_relay create (Inr s) s kafka (process_start\<lparr>as_cache := c, as_abuse := True\<rparr>)))"
    and c: "cm_redis c = Some pool" "cm_breaker c \<noteq> None"
    by (rule startup_succeeds [of s from_url, OF assms(1,2)])
  define w0 where "w0 = start_relay create (Inr s) s kafka (process_start\<lparr>as_cache := c, as_abuse := True\<rparr>)"
  have eff: "as_relay w0 = (if outbox_relay_enabled s \<and> kafka = None \<and> \<not> isl (create (build_engine s)) then Some running_relay else None)"
    "map_option pr_started (as_producer w0) = (if outbox_relay_enabled s then Some (kafka = None) else None)"
    "as_cache w0 = c" "as_abuse w0"
    unfolding w0_def by (subst start_relay_effect; simp add: process_start_def)+
  have "start_consumer from_url (Inr s) s w0 = w0\<lparr>as_consumer := (if kafka_consumer_enabled s then Some running_consumer else None)\<rparr>"
    unfolding running_consumer_def by (rule start_consumer_running) (use c eff(3) in simp_all)
  with start [folded w0_def] eff show thesis
    by (intro that [of "w0\<lparr>as_consumer := (if kafka_consumer_enabled s then Some running_consumer else None)\<rparr>"]) simp_all
qed

text \<open>
  C28: The startup survives Kafka and the database. With settings a breaker can be built from and a Redis
  URL the pool accepts, the startup of a fresh process succeeds whatever Kafka and the engine do; the
  relay runs exactly if it is enabled, Kafka answered and the engine was built, and the consumer
  exactly if it is enabled. A shutdown in which nothing is late and nothing raises then leaves no
  worker running and no producer started.
\<close>

theorem lifespan_starts_and_stops:
  assumes "breaker_settings_ok (Inr s)" and "from_url (build_pool s) = Inr pool"
    and "si_relay io = Ended" and "si_flush io = None" and "si_driver_stop io = None" and "si_consumer io = Ended"
  shows "\<exists>w w'. lifespan_startup create from_url (Inr s) kafka process_start = (Inr (), w)
    \<and> as_abuse w
    \<and> map_option rt_task (as_relay w) =
        (if outbox_relay_enabled s \<and> kafka = None \<and> \<not> isl (create (build_engine s)) then Some Running else None)
    \<and> map_option co_task (as_consumer w) = (if kafka_consumer_enabled s then Some Running else None)
    \<and> lifespan_shutdown (Inr s) io w = (Inr (), w')
    \<and> map_option rt_task (as_relay w') \<in> {None, Some NoTask}
    \<and> map_option co_task (as_consumer w') \<in> {None, Some NoTask}
    \<and> map_option pr_started (as_producer w') = Some False"
proof -
  obtain w where start: "lifespan_startup create from_url (Inr s) kafka process_start = (Inr (), w)" "as_abuse w"
    and w: "as_relay w = (if outbox_relay_enabled s \<and> kafka = None \<and> \<not> isl (create (build_engine s)) then Some running_relay else None)"
      "as_consumer w = (if kafka_consumer_enabled s then Some running_consumer else None)"
    by (rule startup_effect [of s from_url, OF assms(1,2)])
  obtain r w' where stop: "lifespan_shutdown (Inr s) io w = (r, w')" by (cases "lifespan_shutdown (Inr s) io w")
  have "r = Inr () \<and> map_option rt_task (as_relay w') \<in> {None, Some NoTask}
      \<and> map_option co_task (as_consumer w') \<in> {None, Some NoTask} \<and> map_option pr_started (as_producer w') = Some False"
    using stop assms(3-6)
    by (auto simp: lifespan_shutdown_def stop_workers_def stop_relay_def stop_consumer_def relay_stop_def consumer_stop_def
        close_consumer_def await_stopped_def producer_stop_def get_producer_def new_producer_def running_relay_def w
        Let_def split: option.splits if_splits)
  moreover have "map_option co_task (as_consumer w) = (if kafka_consumer_enabled s then Some Running else None)"
    "map_option rt_task (as_relay w) =
        (if outbox_relay_enabled s \<and> kafka = None \<and> \<not> isl (create (build_engine s)) then Some Running else None)"
    by (simp_all add: w running_relay_def running_consumer_def)
  ultimately show ?thesis using start stop by blast
qed

definition demo_settings_app :: settings where
  "demo_settings_app = default_settings ''p'' ''r''"

definition engine_of :: "engine_config \<Rightarrow> exc + string" where
  "engine_of c = Inr (ec_url c)"

lemma demo_settings_app_facts:
  "breaker_settings_ok (Inr demo_settings_app)" "open_pool (build_pool demo_settings_app) = Inr ''r''"
  "outbox_relay_enabled demo_settings_app" "kafka_consumer_enabled demo_settings_app"
  by (simp_all add: demo_settings_app_def default_settings_def breaker_settings_ok_def open_pool_def build_pool_def)

theorem lifespan_starts_and_stops_witness:
  "\<exists>w. lifespan_startup engine_of open_pool (Inr demo_settings_app) None process_start = (Inr (), w)
     \<and> map_option rt_task (as_relay w) = Some Running \<and> map_option co_task (as_consumer w) = Some Running"
  using lifespan_starts_and_stops
    [of demo_settings_app open_pool "''r''"
       "\<lparr>si_relay = Ended, si_flush = None, si_driver_stop = None, si_consumer = Ended\<rparr>" engine_of None]
  by (auto simp: demo_settings_app_facts engine_of_def)

text \<open>
  C30: A shutdown can leave workers running. When the relay does not stop within its timeout, the
  \<open>CancelledError\<close> of its task leaves \<open>stop\<close>, because \<open>_Suppress(Exception)\<close> does not catch it, and the
  rest of the shutdown is skipped: the producer stays started and the consumer runs on. When the flush
  of the producer raises, the consumer runs on as well, and the error is dropped.
\<close>

theorem shutdown_skips_workers:
  assumes "map_option rt_task (as_relay w) = Some Running" and "as_producer w = Some p" and "pr_started p"
    and "as_consumer w = Some c" and "co_task c = Running"
  shows "(si_relay io = Timed_Out \<longrightarrow>
      (\<exists>w'. lifespan_shutdown load io w = (Inl CancelledError, w')
        \<and> map_option rt_task (as_relay w') = Some NoTask \<and> as_producer w' = Some p \<and> as_consumer w' = Some c))
    \<and> (si_relay io = Ended \<and> si_flush io = Some e \<and> si_driver_stop io = None \<longrightarrow>
      (\<exists>w'. lifespan_shutdown load io w = (Inr (), w')
        \<and> map_option pr_started (as_producer w') = Some False \<and> as_consumer w' = Some c))"
proof -
  obtain t where t: "as_relay w = Some t" "rt_task t = Running" using assms(1) by auto
  have "\<exists>w'. lifespan_shutdown load io w = (Inl CancelledError, w')
      \<and> map_option rt_task (as_relay w') = Some NoTask \<and> as_producer w' = Some p \<and> as_consumer w' = Some c"
    if "si_relay io = Timed_Out"
    using assms(2,4) t that
    by (simp add: lifespan_shutdown_def stop_relay_def await_stopped_def relay_stop_def)
  moreover have "\<exists>w'. lifespan_shutdown load io w = (Inr (), w')
      \<and> map_option pr_started (as_producer w') = Some False \<and> as_consumer w' = Some c"
    if "si_relay io = Ended \<and> si_flush io = Some e \<and> si_driver_stop io = None"
    using assms(2-5) t that
    by (simp add: lifespan_shutdown_def stop_relay_def await_stopped_def relay_stop_def stop_workers_def
        get_producer_def producer_stop_def)
  ultimately show ?thesis by blast
qed

theorem shutdown_skips_workers_witness:
  "\<exists>w'. lifespan_shutdown (Inr demo_settings_app)
      \<lparr>si_relay = Timed_Out, si_flush = None, si_driver_stop = None, si_consumer = Ended\<rparr>
      (snd (lifespan_startup engine_of open_pool (Inr demo_settings_app) None process_start)) = (Inl CancelledError, w')
    \<and> map_option co_task (as_consumer w') = Some Running"
proof -
  let ?w = "snd (lifespan_startup engine_of open_pool (Inr demo_settings_app) None process_start)"
  have "map_option rt_task (as_relay ?w) = Some Running \<and> map_option pr_started (as_producer ?w) = Some True
      \<and> map_option co_task (as_consumer ?w) = Some Running"
    by (rule startup_effect [of demo_settings_app open_pool, OF demo_settings_app_facts(1,2), of engine_of None])
      (simp add: demo_settings_app_facts engine_of_def running_relay_def running_consumer_def)
  then obtain p c where facts: "map_option rt_task (as_relay ?w) = Some Running" "as_producer ?w = Some p" "pr_started p"
    "as_consumer ?w = Some c" "co_task c = Running" by auto
  define io where "io = \<lparr>si_relay = Timed_Out, si_flush = None, si_driver_stop = None, si_consumer = Ended\<rparr>"
  have "si_relay io = Timed_Out" by (simp add: io_def)
  with shutdown_skips_workers [OF facts, of io "Inr demo_settings_app" "ValueError []"]
  obtain w' where "lifespan_shutdown (Inr demo_settings_app) io ?w = (Inl CancelledError, w')" "as_consumer w' = Some c"
    by blast
  with facts(5) show ?thesis unfolding io_def by auto
qed

end
