(* ===== verification/Check_Env.thy ===== *)
theory Check_Env
  imports Config
begin

text \<open>
  The environment check, \<open>scripts/check_env.py\<close>. The file system is a map from paths to contents
  (of readable UTF-8 files), \<open>repo_root\<close> the path of the repository, the process environment a map
  from names to values. What is printed is left out, except for the errors the guards collect and the scrubbed URLs.
\<close>

section \<open>Parsing .env files\<close>

type_synonym env_vars = "string \<Rightarrow> string option"

text \<open>The regular expression \<open>^\s*(?:#.*)?$\<close> on a line.\<close>

definition comment_or_blank :: "string \<Rightarrow> bool" where
  "comment_or_blank line = (case dropWhile py_isspace line of [] \<Rightarrow> True | c # _ \<Rightarrow> c = CHR ''#'')"

definition before_eq :: "string \<Rightarrow> string" where
  "before_eq line = takeWhile (\<lambda>c. c \<noteq> CHR ''='') line"

definition after_eq :: "string \<Rightarrow> string" where
  "after_eq line = tl (dropWhile (\<lambda>c. c \<noteq> CHR ''='') line)"

definition parse_env_line :: "string \<Rightarrow> env_vars \<Rightarrow> env_vars" where
  "parse_env_line line parsed =
     (if comment_or_blank line then parsed
      else if CHR ''='' \<notin> set line then parsed
      else let key = py_strip (before_eq line) in
        if key = [] then parsed else parsed(key \<mapsto> py_strip (after_eq line)))"

definition parse_env_file :: "string option \<Rightarrow> env_vars" where
  "parse_env_file content =
     (case content of None \<Rightarrow> Map.empty | Some text \<Rightarrow> fold parse_env_line (py_splitlines text) Map.empty)"

section \<open>Required keys\<close>

definition REQUIRED_KEYS :: "(string \<times> string list) list" where
  "REQUIRED_KEYS =
     [(''.env'', [''ENVIRONMENT'', ''APP_NAME'', ''APP_VERSION'', ''DATABASE_URL'', ''REDIS_URL'',
                 ''KAFKA_BOOTSTRAP_SERVERS'', ''SECRET_KEY'']),
      (''.env.test'', [''ENVIRONMENT'', ''APP_NAME'', ''APP_VERSION'', ''TEST_DATABASE_URL'', ''TEST_REDIS_URL'',
                 ''TEST_KAFKA_BOOTSTRAP_SERVERS'', ''SECRET_KEY'']),
      (''.env.example'', [''ENVIRONMENT'', ''APP_NAME'', ''APP_VERSION'', ''DATABASE_URL'', ''REDIS_URL'',
                 ''KAFKA_BOOTSTRAP_SERVERS'', ''SECRET_KEY'']),
      (''.env.test.example'', [''ENVIRONMENT'', ''APP_NAME'', ''APP_VERSION'', ''TEST_DATABASE_URL'', ''TEST_REDIS_URL'',
                 ''TEST_KAFKA_BOOTSTRAP_SERVERS'', ''SECRET_KEY'']),
      (''.env.docker'', [''ENVIRONMENT'', ''APP_NAME'', ''APP_VERSION'', ''DATABASE_URL'', ''REDIS_URL'',
                 ''KAFKA_BOOTSTRAP_SERVERS''])]"

definition required_for :: "string \<Rightarrow> string list" where
  "required_for name = (case map_of REQUIRED_KEYS name of None \<Rightarrow> [] | Some ks \<Rightarrow> ks)"

definition missing_keys :: "string \<Rightarrow> env_vars \<Rightarrow> string list" where
  "missing_keys name vars = sort (filter (\<lambda>k. vars k = None) (required_for name))"

definition flatten_required :: "string list" where
  "flatten_required = remdups (concat (map snd REQUIRED_KEYS))"

section \<open>Guards\<close>

text \<open>How the script stops: \<open>sys.exit\<close> with a code, or an exception nobody catches.\<close>

datatype stop = Exit int | Uncaught exc

definition env_get :: "env_vars \<Rightarrow> string \<Rightarrow> string \<Rightarrow> string" where
  "env_get vars k dflt = (case vars k of None \<Rightarrow> dflt | Some v \<Rightarrow> v)"

definition PROD_HOST_FORBIDDEN_SUBSTRINGS :: "string list" where
  "PROD_HOST_FORBIDDEN_SUBSTRINGS = [''rds.amazonaws.com'', ''amazonaws.com'', ''azure.com'', ''windows.net'',
     ''confluent.cloud'', ''memorystore.googleapis.com'', ''prod-'', ''-prod.'', ''.prod.'']"

definition prod_var_errors :: "env_vars \<Rightarrow> string list" where
  "prod_var_errors vars =
     map (\<lambda>k. ''Production env var '' @ k @ ''='' @ py_repr_str (env_get vars k []) @ '' is set in test context. Unset it and rely on TEST_'' @ k @ ''.'')
       (filter (\<lambda>k. env_get vars k [] \<noteq> []) [''DATABASE_URL'', ''REDIS_URL'', ''KAFKA_BOOTSTRAP_SERVERS''])"

definition unset_errors :: "env_vars \<Rightarrow> string list" where
  "unset_errors vars =
     map (\<lambda>k. k @ '' is not set.'') (filter (\<lambda>k. env_get vars k [] = []) [''TEST_DATABASE_URL'', ''TEST_REDIS_URL''])"

definition host_errors :: "string \<Rightarrow> string \<Rightarrow> url \<Rightarrow> string list" where
  "host_errors name raw u =
     map (\<lambda>f. name @ ''='' @ py_repr_str raw @ '' contains forbidden production host substring '' @ py_repr_str f @ ''.'')
       (filter (\<lambda>f. contains f (py_lower (hostname u))) PROD_HOST_FORBIDDEN_SUBSTRINGS)"

definition database_errors :: "string \<Rightarrow> url \<Rightarrow> string list" where
  "database_errors raw u =
     (if contains ''test'' (py_lower (database_name u)) then []
      else [''TEST_DATABASE_URL='' @ py_repr_str raw @ '' database name '' @ py_repr_str (database_name u)
              @ '' does not contain '' @ py_repr_str ''test'' @ ''.''])
     @ (if py_lower (url_scheme u) \<in> set [''postgresql'', ''postgresql+asyncpg'', ''postgres''] then []
        else [''TEST_DATABASE_URL='' @ py_repr_str raw @ '' has scheme '' @ py_repr_str (py_lower (url_scheme u))
              @ ''; expected '' @ py_repr_str ''postgresql+asyncpg'' @ '' or '' @ py_repr_str ''postgresql'' @ ''.''])"

definition redis_errors :: "string \<Rightarrow> url \<Rightarrow> string list" where
  "redis_errors raw u =
     (if database_name u = [] \<or> database_name u = ''0''
      then [''TEST_REDIS_URL='' @ py_repr_str raw @ '' uses Redis db 0. Use a dedicated test database (1-15).''] else [])
     @ (if py_lower (url_scheme u) \<in> set [''redis'', ''rediss''] then []
        else [''TEST_REDIS_URL='' @ py_repr_str raw @ '' has scheme '' @ py_repr_str (py_lower (url_scheme u))
              @ ''; expected '' @ py_repr_str ''redis'' @ '' or '' @ py_repr_str ''rediss'' @ ''.''])"

definition url_errors :: "(string \<Rightarrow> url \<Rightarrow> string list) \<Rightarrow> string \<Rightarrow> env_vars \<Rightarrow> string list" where
  "url_errors extra name vars =
     (let raw = env_get vars name [] in
      if raw = [] then []
      else case urlparse raw of
        None \<Rightarrow> [name @ ''='' @ py_repr_str raw @ '' is not a valid URL: Invalid IPv6 URL'']
      | Some u \<Rightarrow> host_errors name raw u @ extra raw u)"

definition isolation_errors :: "env_vars \<Rightarrow> string list" where
  "isolation_errors vars =
     prod_var_errors vars @ unset_errors vars @ url_errors database_errors ''TEST_DATABASE_URL'' vars
     @ url_errors redis_errors ''TEST_REDIS_URL'' vars"

definition guard_test_isolation :: "env_vars \<Rightarrow> string \<Rightarrow> stop + unit" where
  "guard_test_isolation vars env_name =
     (if env_name \<noteq> ''test'' then Inr ()
      else if isolation_errors vars \<noteq> [] then Inl (Exit 2) else Inr ())"

definition placeholder :: "string \<Rightarrow> bool" where
  "placeholder v \<longleftrightarrow> contains ''CHANGE_ME'' v \<or> contains ''change-me'' (py_lower v)"

definition guard_production_safety :: "env_vars \<Rightarrow> string \<Rightarrow> stop + unit" where
  "guard_production_safety vars env_name =
     (if env_name \<noteq> ''production'' \<and> env_name \<noteq> ''staging'' then Inr ()
      else if py_lower (env_get vars ''DEBUG'' ''false'') \<in> set [''1'', ''true'', ''yes'', ''on''] then Inl (Exit 1)
      else if py_upper (env_get vars ''LOG_LEVEL'' ''INFO'') = ''DEBUG'' then Inl (Exit 1)
      else if placeholder (env_get vars ''DATABASE_URL'' []) then Inl (Exit 1)
      else if placeholder (env_get vars ''REDIS_URL'' []) then Inl (Exit 1)
      else let secret = env_get vars ''SECRET_KEY'' [] in
        if secret = [] \<or> contains ''CHANGE_ME'' secret \<or> contains ''test'' (py_lower secret)
        then Inl (Exit 1) else Inr ())"

text \<open>\<open>Path.name\<close> and, for the test of \<open>relative_to\<close>, whether a path lies under \<open>repo_root\<close>.\<close>

definition path_name :: "string \<Rightarrow> string" where
  "path_name path = rev (takeWhile (\<lambda>c. c \<noteq> CHR ''/'') (rev path))"

definition under_root :: "string \<Rightarrow> string \<Rightarrow> bool" where
  "under_root repo_root path \<longleftrightarrow> take (length repo_root + 1) path = repo_root @ ''/''"

definition guard_required_keys :: "env_vars \<Rightarrow> string option \<Rightarrow> stop + unit" where
  "guard_required_keys vars source_file =
     (case source_file of
        None \<Rightarrow> Inr ()
      | Some path \<Rightarrow> if missing_keys (path_name path) vars \<noteq> [] then Inl (Exit 1) else Inr ())"

section \<open>The script\<close>

definition load_active_env ::
    "string \<Rightarrow> (string \<Rightarrow> string option) \<Rightarrow> string \<Rightarrow> string option \<times> env_vars" where
  "load_active_env repo_root files env =
     (case find (\<lambda>path. files path \<noteq> None) (map (\<lambda>name. repo_root @ ''/'' @ name) [''.env.'' @ env, ''.env'']) of
        Some path \<Rightarrow> (Some path, parse_env_file (files path))
      | None \<Rightarrow>
          let fallback = repo_root @ ''/'' @ ''.env'' in
          if files fallback \<noteq> None then (Some fallback, parse_env_file (files fallback)) else (None, Map.empty))"

text \<open>
  Strict mode: the variables of the file are defaults for the process environment, then \<open>Settings()\<close>
  is constructed from it. \<open>import_error\<close> is the exception of the import, if it fails; \<open>make_settings\<close> is
  Pydantic.
\<close>

definition strict_environ :: "env_vars \<Rightarrow> env_vars \<Rightarrow> string \<Rightarrow> env_vars" where
  "strict_environ vars environ env_name = (vars ++ environ)(''ENVIRONMENT'' \<mapsto> env_name)"

definition run_strict_mode ::
    "exc option \<Rightarrow> (env_vars \<Rightarrow> exc + settings) \<Rightarrow> env_vars \<Rightarrow> env_vars \<Rightarrow> string \<Rightarrow> stop + unit" where
  "run_strict_mode import_error make_settings environ vars env_name =
     (case import_error of
        Some _ \<Rightarrow> Inl (Exit 1)
      | None \<Rightarrow>
          (case make_settings (strict_environ vars environ env_name) of
             Inr _ \<Rightarrow> Inr ()
           | Inl (ValueError _) \<Rightarrow> Inl (Exit 1)
           | Inl e \<Rightarrow> Inl (Uncaught e)))"

text \<open>
  \<open>_scrub(url)\<close>. A URL that cannot be parsed, or whose port is not a number, raises
  \<open>ValueError\<close>.
\<close>

definition scrub :: "string \<Rightarrow> exc + string" where
  "scrub raw =
     (if raw = [] then Inr ''<unset>''
      else case urlparse raw of
        None \<Rightarrow> Inl (ValueError ''Invalid IPv6 URL'')
      | Some u \<Rightarrow>
          if has_credentials u
          then (case port u of
                  None \<Rightarrow> Inl (ValueError ''Port could not be cast to integer value'')
                | Some p \<Rightarrow>
                    Inr (url_scheme u @ ''://***'' @ [CHR 0x40] @ hostname u
                         @ (case p of Some n \<Rightarrow> if n = 0 then [] else '':'' @ py_str_int n | None \<Rightarrow> [])
                         @ url_path u))
          else Inr raw)"

record check_args =
  ca_mode :: string
  ca_strict :: bool
  ca_file :: "string option"

definition or_else :: "string \<Rightarrow> string \<Rightarrow> string" where
  "or_else a b = (if a = [] then b else a)"

text \<open>
  \<open>main()\<close> after the arguments are parsed. A file given with \<open>--file\<close> must lie under the repository
  repo_root, as an absolute path: \<open>relative_to\<close> raises \<open>ValueError\<close> otherwise. The result is what the
  report prints of the two URLs.
\<close>

definition env_name_of :: "check_args \<Rightarrow> env_vars \<Rightarrow> string" where
  "env_name_of args environ =
     (if ca_mode args \<noteq> ''auto'' then ca_mode args else env_get environ ''ENVIRONMENT'' ''development'')"

definition check_env_source ::
    "string \<Rightarrow> (string \<Rightarrow> string option) \<Rightarrow> env_vars \<Rightarrow> check_args \<Rightarrow> stop + (string option \<times> env_vars)" where
  "check_env_source repo_root files environ args =
     (case ca_file args of
        Some path \<Rightarrow>
          if files path = None then Inl (Exit 3)
          else if \<not> under_root repo_root path
          then Inl (Uncaught (ValueError (py_repr_str path @ '' is not in the subpath of '' @ py_repr_str repo_root)))
          else Inr (Some path, parse_env_file (files path))
      | None \<Rightarrow>
          (case load_active_env repo_root files (env_name_of args environ) of
             (None, _) \<Rightarrow> Inr (None, environ |` set flatten_required)
           | (Some path, vars) \<Rightarrow> Inr (Some path, vars)))"

definition check_env_main ::
    "exc option \<Rightarrow> (env_vars \<Rightarrow> exc + settings) \<Rightarrow> string \<Rightarrow> (string \<Rightarrow> string option) \<Rightarrow> env_vars
     \<Rightarrow> check_args \<Rightarrow> stop + (string \<times> string)" where
  "check_env_main import_error make_settings repo_root files environ args =
     (let env_name = env_name_of args environ in
      bind_sum (check_env_source repo_root files environ args) (\<lambda>(source, vars).
      bind_sum (guard_required_keys vars source) (\<lambda>_.
      bind_sum (guard_test_isolation vars env_name) (\<lambda>_.
      bind_sum (guard_production_safety vars env_name) (\<lambda>_.
      bind_sum (if ca_strict args then run_strict_mode import_error make_settings environ vars env_name else Inr ()) (\<lambda>_.
      case (scrub (or_else (env_get vars ''TEST_DATABASE_URL'' []) (env_get vars ''DATABASE_URL'' [])),
            scrub (or_else (env_get vars ''TEST_REDIS_URL'' []) (env_get vars ''REDIS_URL'' []))) of
        (Inl e, _) \<Rightarrow> Inl (Uncaught e)
      | (_, Inl e) \<Rightarrow> Inl (Uncaught e)
      | (Inr d, Inr r) \<Rightarrow> Inr (d, r)))))))"

section \<open>Facts\<close>

lemma isolation_errors_Nil:
  assumes "isolation_errors vars = []"
  obtains d r where "urlparse (env_get vars ''TEST_DATABASE_URL'' []) = Some d"
    and "urlparse (env_get vars ''TEST_REDIS_URL'' []) = Some r"
    and "\<forall>f\<in>set PROD_HOST_FORBIDDEN_SUBSTRINGS. \<not> contains f (py_lower (hostname d)) \<and> \<not> contains f (py_lower (hostname r))"
    and "contains ''test'' (py_lower (database_name d))" and "database_name r \<notin> {[], ''0''}"
proof -
  have *: "unset_errors vars = []" "url_errors database_errors ''TEST_DATABASE_URL'' vars = []"
    "url_errors redis_errors ''TEST_REDIS_URL'' vars = []"
    using assms by (simp_all add: isolation_errors_def)
  then have ne: "env_get vars ''TEST_DATABASE_URL'' [] \<noteq> []" "env_get vars ''TEST_REDIS_URL'' [] \<noteq> []"
    by (auto simp: unset_errors_def split: if_splits)
  from *(2) ne(1) obtain d where d: "urlparse (env_get vars ''TEST_DATABASE_URL'' []) = Some d"
    "host_errors ''TEST_DATABASE_URL'' (env_get vars ''TEST_DATABASE_URL'' []) d = []"
    "database_errors (env_get vars ''TEST_DATABASE_URL'' []) d = []"
    by (auto simp: url_errors_def Let_def split: option.splits)
  from *(3) ne(2) obtain r where r: "urlparse (env_get vars ''TEST_REDIS_URL'' []) = Some r"
    "host_errors ''TEST_REDIS_URL'' (env_get vars ''TEST_REDIS_URL'' []) r = []"
    "redis_errors (env_get vars ''TEST_REDIS_URL'' []) r = []"
    by (auto simp: url_errors_def Let_def split: option.splits)
  show thesis
  proof (rule that [OF d(1) r(1)])
    show "\<forall>f\<in>set PROD_HOST_FORBIDDEN_SUBSTRINGS. \<not> contains f (py_lower (hostname d)) \<and> \<not> contains f (py_lower (hostname r))"
      using d(2) r(2) unfolding host_errors_def map_is_Nil_conv filter_empty_conv by blast
    show "contains ''test'' (py_lower (database_name d))"
      using d(3) by (simp add: database_errors_def split: if_splits)
    show "database_name r \<notin> {[], ''0''}"
      using r(3) by (simp add: redis_errors_def split: if_splits)
  qed
qed

lemma prod_hosts_covered: "set PROD_HOST_SUBSTRINGS \<subseteq> set PROD_HOST_FORBIDDEN_SUBSTRINGS"
  by (simp add: PROD_HOST_SUBSTRINGS_def PROD_HOST_FORBIDDEN_SUBSTRINGS_def)

lemma guard_implies_isolated:
  assumes "guard_test_isolation vars ''test'' = Inr ()"
    and "database_url s = env_get vars ''TEST_DATABASE_URL'' []"
    and "redis_url s = env_get vars ''TEST_REDIS_URL'' []"
  shows "isolated s"
proof -
  from assms(1) have "isolation_errors vars = []"
    by (simp add: guard_test_isolation_def split: if_splits)
  then show ?thesis
    by (rule isolation_errors_Nil) (use assms(2,3) prod_hosts_covered in \<open>auto simp: isolated_def\<close>)
qed

lemma check_env_main_passed:
  assumes "check_env_main import_error make_settings repo_root files environ args = Inr report"
  obtains source vars where "check_env_source repo_root files environ args = Inr (source, vars)"
    and "guard_required_keys vars source = Inr ()"
    and "guard_test_isolation vars (env_name_of args environ) = Inr ()"
    and "guard_production_safety vars (env_name_of args environ) = Inr ()"
  using assms unfolding check_env_main_def Let_def
  by (auto simp: bind_sum_Inr)

lemma guard_production_safety_passed:
  assumes "guard_production_safety vars env_name = Inr ()" and "env_name = ''production'' \<or> env_name = ''staging''"
  shows "env_get vars ''SECRET_KEY'' [] \<noteq> []" "py_lower (env_get vars ''DEBUG'' ''false'') \<noteq> ''true''"
    "\<not> placeholder (env_get vars ''DATABASE_URL'' [])"
  using assms by (auto simp: guard_production_safety_def Let_def split: if_splits)

text \<open>
  C26: What a passing check guarantees. Whatever file or process environment it read, the variables it
  settled on have every key required of that file; in a test environment the application's own
  guard accepts every settings object with these test URLs and no production variable is set; in
  production or staging the secret is set and no placeholder is left in the database URL.
\<close>

theorem check_env_sound:
  assumes "check_env_main import_error make_settings repo_root files environ args = Inr report"
  shows "\<exists>source vars. check_env_source repo_root files environ args = Inr (source, vars)
    \<and> (\<forall>path. source = Some path \<longrightarrow> set (required_for (path_name path)) \<subseteq> dom vars)
    \<and> (env_name_of args environ = ''test'' \<longrightarrow>
         (\<forall>s. database_url s = env_get vars ''TEST_DATABASE_URL'' [] \<and> redis_url s = env_get vars ''TEST_REDIS_URL'' []
              \<longrightarrow> assert_test_isolation s = Inr ())
         \<and> (\<forall>k\<in>{''DATABASE_URL'', ''REDIS_URL'', ''KAFKA_BOOTSTRAP_SERVERS''}. env_get vars k [] = []))
    \<and> (env_name_of args environ \<in> {''production'', ''staging''} \<longrightarrow>
         env_get vars ''SECRET_KEY'' [] \<noteq> [] \<and> \<not> placeholder (env_get vars ''DATABASE_URL'' []))"
  using assms
proof (rule check_env_main_passed)
  fix source vars
  let ?env = "env_name_of args environ"
  assume src: "check_env_source repo_root files environ args = Inr (source, vars)"
    and req: "guard_required_keys vars source = Inr ()"
    and iso: "guard_test_isolation vars ?env = Inr ()"
    and prod: "guard_production_safety vars ?env = Inr ()"
  have "set (required_for (path_name path)) \<subseteq> dom vars" if "source = Some path" for path
  proof -
    from req that have "missing_keys (path_name path) vars = []"
      by (simp add: guard_required_keys_def split: if_splits)
    then have "filter (\<lambda>k. vars k = None) (required_for (path_name path)) = []"
      unfolding missing_keys_def by (metis set_sort set_empty)
    then show ?thesis by (auto simp: filter_empty_conv)
  qed
  moreover have "assert_test_isolation s = Inr ()"
    if "?env = ''test''" "database_url s = env_get vars ''TEST_DATABASE_URL'' []"
      "redis_url s = env_get vars ''TEST_REDIS_URL'' []" for s
    unfolding assert_test_isolation_iff using guard_implies_isolated iso that by metis
  moreover have "env_get vars k [] = []"
    if "?env = ''test''" "k \<in> {''DATABASE_URL'', ''REDIS_URL'', ''KAFKA_BOOTSTRAP_SERVERS''}" for k
  proof -
    from iso that(1) have "prod_var_errors vars = []"
      by (simp add: guard_test_isolation_def isolation_errors_def split: if_splits)
    with that(2) show ?thesis
      by (auto simp: prod_var_errors_def split: if_splits)
  qed
  ultimately show ?thesis
    using src guard_production_safety_passed [OF prod] by blast
qed

definition sample_files :: "string \<Rightarrow> string option" where
  "sample_files path =
     (if path = ''r/x'' then Some (''TEST_DATABASE_URL=postgres://d/test'' @ [CHR 0x0A] @ ''TEST_REDIS_URL=redis://k/1'') else None)"

definition sample_args :: check_args where
  "sample_args = \<lparr>ca_mode = ''test'', ca_strict = False, ca_file = Some ''r/x''\<rparr>"

lemma sample_check:
  "check_env_main None (\<lambda>_. Inl (ValueError [])) ''r'' sample_files Map.empty sample_args
   = Inr (''postgres://d/test'', ''redis://k/1'')"
  by code_simp

lemma sample_source:
  "check_env_source ''r'' sample_files Map.empty sample_args = Inr (Some ''r/x'', parse_env_file (sample_files ''r/x''))"
  by (simp add: check_env_source_def sample_args_def sample_files_def under_root_def)

lemma sample_urls:
  "env_get (parse_env_file (sample_files ''r/x'')) ''TEST_DATABASE_URL'' [] = ''postgres://d/test''"
  "env_get (parse_env_file (sample_files ''r/x'')) ''TEST_REDIS_URL'' [] = ''redis://k/1''"
  by code_simp+

theorem check_env_sound_witness:
  "assert_test_isolation ((default_settings ''postgres://d/test'' ''redis://k/1'')\<lparr>environment := Env_test\<rparr>) = Inr ()"
proof -
  have "env_name_of sample_args Map.empty = ''test''"
    by (simp add: env_name_of_def sample_args_def)
  with check_env_sound [OF sample_check] sample_urls show ?thesis
    by (auto simp: sample_source default_settings_def)
qed

end
