(* ===== verification/Regex.thy ===== *)
theory Regex
  imports Py_Std
begin

text \<open>
  The part of the standard module \<open>re\<close> the commit hooks use: character classes, repetition of a
  class, alternatives, negative lookahead and the anchors. A position is the text before it,
  reversed, and the text after it; \<open>ends\<close> lists the positions where a match can end, in the order
  the engine tries them.
\<close>

datatype regex =
    Eps
  | Sat "char \<Rightarrow> bool"
  | Cat regex regex
  | Alt regex regex
  | At_Least nat "char \<Rightarrow> bool"
  | Not_Ahead regex
  | Line_Start
  | String_End

type_synonym position = "string \<times> string"

fun ends :: "regex \<Rightarrow> position \<Rightarrow> position list" where
  "ends Eps p = [p]"
| "ends (Sat P) (b, r) = (case r of [] \<Rightarrow> [] | c # cs \<Rightarrow> if P c then [(c # b, cs)] else [])"
| "ends (Cat x y) p = concat (map (ends y) (ends x p))"
| "ends (Alt x y) p = ends x p @ ends y p"
| "ends (At_Least n P) (b, r) =
     map (\<lambda>k. (rev (take k r) @ b, drop k r)) (rev [n..<Suc (length (takeWhile P r))])"
| "ends (Not_Ahead x) p = (if ends x p = [] then [p] else [])"
| "ends Line_Start (b, r) = (if b = [] \<or> hd b = CHR 0x0A then [(b, r)] else [])"
| "ends String_End (b, r) = (if r = [] \<or> r = [CHR 0x0A] then [(b, r)] else [])"

text \<open>\<open>pattern.search(s)\<close> finds a match somewhere.\<close>

definition re_search :: "regex \<Rightarrow> string \<Rightarrow> bool" where
  "re_search x s \<longleftrightarrow> list_ex (\<lambda>i. ends x (rev (take i s), drop i s) \<noteq> []) [0..<Suc (length s)]"

text \<open>A literal string, the same with \<open>re.IGNORECASE\<close>, and alternatives.\<close>

definition same_ci :: "char \<Rightarrow> char \<Rightarrow> bool" where
  "same_ci c d \<longleftrightarrow> lower_char c = lower_char d"

definition lit :: "string \<Rightarrow> regex" where
  "lit s = foldr (\<lambda>c. Cat (Sat ((=) c))) s Eps"

definition ilit :: "string \<Rightarrow> regex" where
  "ilit s = foldr (\<lambda>c. Cat (Sat (same_ci c))) s Eps"

definition one_of :: "string list \<Rightarrow> regex" where
  "one_of ss = foldr (\<lambda>s. Alt (lit s)) ss (Not_Ahead Eps)"

section \<open>Facts\<close>

lemma ends_lit: "ends (lit s) (b, r) = (if py_startswith r s then [(rev s @ b, drop (length s) r)] else [])"
proof (induction s arbitrary: b r)
  case (Cons c s)
  then show ?case
    by (cases r) (auto simp: lit_def py_startswith_def)
qed (simp add: lit_def py_startswith_def)

lemma ends_ilit_Nil: "ends (ilit s) (b, r) = [] \<longleftrightarrow> take (length s) (py_lower r) \<noteq> py_lower s"
proof (induction s arbitrary: b r)
  case (Cons c s)
  then show ?case
    by (cases r) (auto simp: ilit_def py_lower_def same_ci_def)
qed (simp add: ilit_def py_lower_def)

lemma ends_one_of_Nil: "ends (one_of ss) (b, r) = [] \<longleftrightarrow> (\<forall>s\<in>set ss. \<not> py_startswith r s)"
  by (induction ss) (auto simp: one_of_def ends_lit)

lemma re_search_lit: "re_search (lit s) t \<longleftrightarrow> contains s t"
  unfolding re_search_def contains_def ends_lit py_startswith_def
  by (rule arg_cong [where f = "\<lambda>f. list_ex f _"]) auto

lemma re_search_ilit: "re_search (ilit s) t \<longleftrightarrow> contains (py_lower s) (py_lower t)"
proof -
  have "length (py_lower x) = length x" "drop i (py_lower x) = py_lower (drop i x)" for i x
    by (simp_all add: py_lower_def drop_map)
  then show ?thesis
    unfolding re_search_def contains_def ends_ilit_Nil by simp
qed

lemma re_search_at: "ends x (rev a, b) \<noteq> [] \<Longrightarrow> re_search x (a @ b)"
  unfolding re_search_def list_ex_iff
  by (rule bexI [of _ "length a"]) auto

lemma re_searchE:
  assumes "re_search x s"
  obtains a b where "s = a @ b" and "ends x (rev a, b) \<noteq> []"
proof -
  from assms obtain i where "ends x (rev (take i s), drop i s) \<noteq> []"
    unfolding re_search_def list_ex_iff by blast
  with that [of "take i s" "drop i s"] show thesis by simp
qed

lemma re_search_iff: "re_search x s \<longleftrightarrow> (\<exists>a b. s = a @ b \<and> ends x (rev a, b) \<noteq> [])"
  using re_search_at re_searchE by metis

end
