(* ===== verification/Env_Hook.thy ===== *)
theory Env_Hook
  imports Check_Env Regex
begin

text \<open>
  The hook that keeps populated env files out of the repository and audits their keys,
  \<open>.pre-commit-hooks/check-nimbus-env/hooks.py\<close>. The working tree is a map from file names of the
  repository root to what reading gives: the contents, or the message of an \<open>OSError\<close>. The first
  phase reports such an error; in the second nobody catches it, and the hook stops with it.
\<close>

type_synonym work_tree = "string \<Rightarrow> (string + string) option"

definition hook_parse_line :: "string \<Rightarrow> env_vars \<Rightarrow> env_vars" where
  "hook_parse_line line parsed =
     (let stripped = py_strip line in
      if stripped = [] \<or> py_startswith stripped ''#'' then parsed
      else if CHR ''='' \<notin> set stripped then parsed
      else parsed(py_strip (before_eq stripped) \<mapsto> py_strip (after_eq stripped)))"

definition hook_parse_env_file :: "string \<Rightarrow> env_vars" where
  "hook_parse_env_file text = fold hook_parse_line (py_splitlines text) Map.empty"

definition ENV_FILES :: "string list" where
  "ENV_FILES = [''.env'', ''.env.test'', ''.env.example'', ''.env.test.example'', ''.env.docker'']"

definition HOOK_REQUIRED_KEYS :: "(string \<times> string list) list" where
  "HOOK_REQUIRED_KEYS =
     [(''.env'', [''ENVIRONMENT'', ''APP_NAME'', ''APP_VERSION'', ''DATABASE_URL'', ''REDIS_URL'',
                 ''KAFKA_BOOTSTRAP_SERVERS'', ''SECRET_KEY'']),
      (''.env.test'', [''ENVIRONMENT'', ''APP_NAME'', ''APP_VERSION'', ''TEST_DATABASE_URL'', ''TEST_REDIS_URL'',
                 ''TEST_KAFKA_BOOTSTRAP_SERVERS'', ''SECRET_KEY'']),
      (''.env.example'', [''ENVIRONMENT'', ''APP_NAME'', ''APP_VERSION'', ''DATABASE_URL'', ''REDIS_URL'',
                 ''KAFKA_BOOTSTRAP_SERVERS'', ''SECRET_KEY'']),
      (''.env.test.example'', [''ENVIRONMENT'', ''APP_NAME'', ''APP_VERSION'', ''TEST_DATABASE_URL'', ''TEST_REDIS_URL'',
                 ''TEST_KAFKA_BOOTSTRAP_SERVERS'', ''SECRET_KEY'']),
      (''.env.docker'', [''ENVIRONMENT'', ''APP_NAME'', ''APP_VERSION'', ''DATABASE_URL'', ''REDIS_URL'',
                 ''KAFKA_BOOTSTRAP_SERVERS''])]"

section \<open>Phase 1\<close>

text \<open>A line that starts with the text and does not go on with one of the placeholders.\<close>

definition assignment :: "string \<Rightarrow> string list \<Rightarrow> regex" where
  "assignment start placeholders = Cat Line_Start (Cat (lit start) (Not_Ahead (one_of placeholders)))"

definition user_char :: "char \<Rightarrow> bool" where
  "user_char c \<longleftrightarrow> py_isalnum c \<or> c \<in> set ''_-''"

definition password_char :: "char \<Rightarrow> bool" where
  "password_char c \<longleftrightarrow> py_isalnum c \<or> c \<in> set (''_!'' @ [CHR 0x40] @ ''#$%^&*()-'')"

definition url_credentials :: regex where
  "url_credentials =
     Cat (lit ''http'') (Cat (Alt (lit ''s'') Eps) (Cat (lit ''://'') (Cat (At_Least 1 user_char)
       (Cat (lit '':'') (Cat (At_Least 8 password_char) (lit [CHR 0x40]))))))"

definition access_key_char :: "char \<Rightarrow> bool" where
  "access_key_char c \<longleftrightarrow> py_isdigit c \<or> py_isupper c"

definition aws_access_key :: regex where
  "aws_access_key = Cat (lit ''AKIA'') (foldr Cat (replicate 16 (Sat access_key_char)) Eps)"

definition private_key :: regex where
  "private_key = Cat (lit ''-----BEGIN '')
     (Cat (Alt (one_of [''RSA '', ''EC '', ''DSA '', ''OPENSSH '', ''PGP '']) Eps) (lit ''PRIVATE KEY-----''))"

definition POPULATED_PATTERNS :: "regex list" where
  "POPULATED_PATTERNS =
     (let pg = ''postgresql+asyncpg://''; local_pg = ''nimbus:nimbus'' @ [CHR 0x40] @ ''127'' in
      [assignment ''SECRET_KEY='' [''CHANGE_ME'', ''dev-only-secret'', ''test-secret''],
       assignment (''DATABASE_URL='' @ pg) [''CHANGE_ME'', local_pg],
       assignment (''TEST_DATABASE_URL='' @ pg) [''CHANGE_ME'', local_pg],
       assignment ''REDIS_URL=redis://'' [''CHANGE_ME'', ''127''],
       assignment ''TEST_REDIS_URL=redis://'' [''CHANGE_ME'', ''127''],
       url_credentials, aws_access_key, private_key])"

definition populated :: "string \<Rightarrow> bool" where
  "populated content \<longleftrightarrow> list_ex (\<lambda>pattern. re_search pattern content) POPULATED_PATTERNS"

definition populated_error :: "string \<Rightarrow> string" where
  "populated_error filename = filename @ '' appears to contain real secrets or non-placeholder values. ''
     @ ''Populated .env / .env.test files must NEVER be committed. Either:'' @ [CHR 0x0A]
     @ ''    - revert to placeholder values, OR'' @ [CHR 0x0A]
     @ ''    - delete the file and use .env.example / .env.test.example as templates.''"

definition phase1_block_populated :: "work_tree \<Rightarrow> string list" where
  "phase1_block_populated files =
     concat (map (\<lambda>filename. case files filename of
         None \<Rightarrow> []
       | Some (Inl e) \<Rightarrow> [filename @ '': cannot read ('' @ e @ '')'']
       | Some (Inr content) \<Rightarrow> if populated content then [populated_error filename] else [])
       [''.env'', ''.env.test''])"

section \<open>Phase 2\<close>

definition keys_error :: "string \<Rightarrow> string list \<Rightarrow> string" where
  "keys_error filename missing = filename @ '' is missing required keys: '' @ join '', '' missing
     @ ''. See .env.example for the full list of supported variables.''"

definition audit_file :: "string \<Rightarrow> string \<Rightarrow> string list" where
  "audit_file filename content =
     (let required = (case map_of HOOK_REQUIRED_KEYS filename of None \<Rightarrow> [] | Some ks \<Rightarrow> ks);
          parsed = hook_parse_env_file content;
          missing = sort (filter (\<lambda>k. parsed k = None) required) in
      if required = [] then [] else if missing \<noteq> [] then [keys_error filename missing] else [])"

fun audit_files :: "work_tree \<Rightarrow> string list \<Rightarrow> string + string list" where
  "audit_files files [] = Inr []"
| "audit_files files (filename # names) =
     (case files filename of
        None \<Rightarrow> audit_files files names
      | Some (Inl e) \<Rightarrow> Inl e
      | Some (Inr content) \<Rightarrow>
          bind_sum (audit_files files names) (\<lambda>errors. Inr (audit_file filename content @ errors)))"

definition phase2_audit_keys :: "work_tree \<Rightarrow> string + string list" where
  "phase2_audit_keys files = audit_files files ENV_FILES"

definition env_hook_main :: "work_tree \<Rightarrow> string + int" where
  "env_hook_main files =
     bind_sum (phase2_audit_keys files)
       (\<lambda>errors. Inr (if phase1_block_populated files @ errors \<noteq> [] then 1 else 0))"

section \<open>Facts\<close>

lemma eq_not_space: "\<not> py_isspace CHR ''=''" "\<not> py_isspace CHR ''#''"
  by code_simp+

lemma comment_or_blank_strip:
  "comment_or_blank line \<longleftrightarrow> py_strip line = [] \<or> py_startswith (py_strip line) ''#''"
proof -
  obtain a b where split: "line = a @ py_strip line @ b"
    and a: "\<forall>c\<in>set a. py_isspace c" and b: "\<forall>c\<in>set b. py_isspace c"
    using py_strip_of_split [of line py_isspace] unfolding py_strip_def by metis
  from split a have drop: "dropWhile py_isspace line = dropWhile py_isspace (py_strip line @ b)"
    using dropWhile_append2 [of a py_isspace] by metis
  show ?thesis
  proof (cases "py_strip line")
    case Nil
    with b drop have "dropWhile py_isspace line = []" by simp
    with Nil show ?thesis unfolding comment_or_blank_def by (simp del: dropWhile_eq_Nil_conv)
  next
    case (Cons c cs)
    then have "\<not> py_isspace c"
      using py_strip_of_hd [of py_isspace line] by (simp add: py_strip_def)
    with Cons drop show ?thesis by (simp add: comment_or_blank_def py_startswith_def)
  qed
qed

lemma partition_strip:
  assumes "CHR ''='' \<in> set (py_strip line)"
  shows "py_strip (before_eq (py_strip line)) = py_strip (before_eq line)
    \<and> py_strip (after_eq (py_strip line)) = py_strip (after_eq line)"
proof -
  obtain a b where split: "line = a @ py_strip line @ b"
    and a: "\<forall>c\<in>set a. py_isspace c" and b: "\<forall>c\<in>set b. py_isspace c"
    using py_strip_of_split [of line py_isspace] unfolding py_strip_def by metis
  from assms obtain x y where s: "py_strip line = x @ CHR ''='' # y" and x: "CHR ''='' \<notin> set x"
    by (meson split_list_first)
  have "CHR ''='' \<notin> set a" using a eq_not_space(1) by metis
  with split s x have line: "line = (a @ x) @ CHR ''='' # (y @ b)" and ax: "CHR ''='' \<notin> set (a @ x)" by simp_all
  have part: "before_eq (u @ CHR ''='' # v) = u" "after_eq (u @ CHR ''='' # v) = v" if "CHR ''='' \<notin> set u" for u v
    using that by (induction u) (auto simp: before_eq_def after_eq_def)
  have "py_strip (a @ x) = py_strip x" "py_strip (y @ b) = py_strip y"
    using py_strip_of_pad [OF a, of "[]" x] py_strip_of_pad [OF _ b, of "[]" y] by (simp_all add: py_strip_def)
  with part [OF ax, of "y @ b"] part [OF x, of y] show ?thesis
    unfolding s line [symmetric] by simp
qed

lemma eq_in_strip: "CHR ''='' \<in> set (py_strip line) \<longleftrightarrow> CHR ''='' \<in> set line"
proof -
  obtain a b where "line = a @ py_strip line @ b"
    and "\<forall>c\<in>set a. py_isspace c" and "\<forall>c\<in>set b. py_isspace c"
    using py_strip_of_split [of line py_isspace] unfolding py_strip_def by metis
  then show ?thesis using eq_not_space(1) by (metis Un_iff set_append)
qed

lemma hook_parse_line_agrees:
  assumes "\<forall>k. k \<noteq> [] \<longrightarrow> p k = q k" and "k \<noteq> []"
  shows "hook_parse_line line p k = parse_env_line line q k"
  using assms partition_strip [of line]
  by (auto simp: hook_parse_line_def parse_env_line_def Let_def comment_or_blank_strip eq_in_strip)

lemma env_parsers_agree:
  assumes "k \<noteq> []"
  shows "hook_parse_env_file text k = parse_env_file (Some text) k"
proof -
  have "\<forall>k. k \<noteq> [] \<longrightarrow> fold hook_parse_line ls p k = fold parse_env_line ls q k"
    if "\<forall>k. k \<noteq> [] \<longrightarrow> p k = q k" for ls p q
    using that
  proof (induction ls arbitrary: p q)
    case (Cons l ls)
    then have "\<forall>k. k \<noteq> [] \<longrightarrow> hook_parse_line l p k = parse_env_line l q k"
      using hook_parse_line_agrees by blast
    from Cons.IH [OF this] show ?case by simp
  qed simp
  with assms show ?thesis by (simp add: hook_parse_env_file_def parse_env_file_def)
qed

lemma required_keys_agree: "HOOK_REQUIRED_KEYS = REQUIRED_KEYS"
  by (simp add: HOOK_REQUIRED_KEYS_def REQUIRED_KEYS_def)

lemma required_key_nonempty: "k \<in> set (required_for name) \<Longrightarrow> k \<noteq> []"
  by (auto simp: required_for_def REQUIRED_KEYS_def split: option.splits if_splits)

lemma audit_file_Nil:
  "audit_file name content = [] \<longleftrightarrow> missing_keys name (parse_env_file (Some content)) = []"
proof -
  have "filter (\<lambda>k. hook_parse_env_file content k = None) (required_for name)
      = filter (\<lambda>k. parse_env_file (Some content) k = None) (required_for name)"
    by (rule filter_cong [OF HOL.refl]) (simp add: env_parsers_agree required_key_nonempty)
  then show ?thesis
    by (auto simp: audit_file_def missing_keys_def required_keys_agree required_for_def [symmetric] Let_def)
qed

text \<open>
  C31: The audit of the hook and the required-keys guard of the script decide alike, though each has its
  own parser and its own table: the hook's second phase ends without an error iff every env
  file of the working tree can be read and passes the guard, as the script parses it. The env files are
  those of \<open>ENV_FILES\<close>, which has \<open>.env.docker\<close>, although the comment above the tuple says that it is
  intentionally excluded.
\<close>

theorem env_hook_audit_agrees:
  "phase2_audit_keys files = Inr [] \<longleftrightarrow>
     list_all (\<lambda>name. case files name of
         None \<Rightarrow> True
       | Some (Inl _) \<Rightarrow> False
       | Some (Inr content) \<Rightarrow> guard_required_keys (parse_env_file (Some content)) (Some name) = Inr ()) ENV_FILES"
proof -
  have name: "list_all (\<lambda>name. path_name name = name) ENV_FILES"
    by (simp add: ENV_FILES_def path_name_def)
  have guard: "audit_file name content = [] \<longleftrightarrow> guard_required_keys (parse_env_file (Some content)) (Some name) = Inr ()"
    if "path_name name = name" for name content
    using that by (simp add: audit_file_Nil guard_required_keys_def)
  have "audit_files files names = Inr [] \<longleftrightarrow>
      list_all (\<lambda>name. case files name of None \<Rightarrow> True | Some (Inl _) \<Rightarrow> False
        | Some (Inr content) \<Rightarrow> guard_required_keys (parse_env_file (Some content)) (Some name) = Inr ()) names"
    if "list_all (\<lambda>name. path_name name = name) names" for names
    using that by (induction names) (auto simp: guard bind_sum_Inr split: option.splits sum.splits)
  with name show ?thesis by (simp add: phase2_audit_keys_def)
qed

lemma assignment_found:
  assumes "pre = [] \<or> List.last pre = CHR 0x0A" and "\<forall>s\<in>set placeholders. \<not> py_startswith rest s"
  shows "re_search (assignment start placeholders) (pre @ start @ rest)"
  by (rule re_search_at)
    (use assms in \<open>auto simp: assignment_def ends_lit ends_one_of_Nil py_startswith_def hd_rev\<close>)

text \<open>
  A secret is not committed: when \<open>.env\<close> or \<open>.env.test\<close> of the working tree has a line that assigns
  to \<open>SECRET_KEY\<close> a value that does not start with one of the placeholders, or an AWS access key
  anywhere, the hook does not succeed.
\<close>

theorem secret_blocks_commit:
  assumes "name \<in> {''.env'', ''.env.test''}" and "files name = Some (Inr content)"
    and "(\<exists>pre rest. content = pre @ ''SECRET_KEY='' @ rest \<and> (pre = [] \<or> List.last pre = CHR 0x0A)
            \<and> (\<forall>s\<in>{''CHANGE_ME'', ''dev-only-secret'', ''test-secret''}. \<not> py_startswith rest s))
       \<or> (\<exists>pre key rest. content = pre @ ''AKIA'' @ key @ rest \<and> length key = 16 \<and> list_all access_key_char key)"
  shows "env_hook_main files \<noteq> Inr 0"
proof -
  have "populated content"
    using assms(3)
  proof
    assume "\<exists>pre rest. content = pre @ ''SECRET_KEY='' @ rest \<and> (pre = [] \<or> List.last pre = CHR 0x0A)
      \<and> (\<forall>s\<in>{''CHANGE_ME'', ''dev-only-secret'', ''test-secret''}. \<not> py_startswith rest s)"
    then have "re_search (assignment ''SECRET_KEY='' [''CHANGE_ME'', ''dev-only-secret'', ''test-secret'']) content"
      using assignment_found by (metis list.set(1) list.set(2))
    then show ?thesis by (simp add: populated_def POPULATED_PATTERNS_def Let_def)
  next
    assume "\<exists>pre key rest. content = pre @ ''AKIA'' @ key @ rest \<and> length key = 16 \<and> list_all access_key_char key"
    then obtain pre key rest where c: "content = pre @ ''AKIA'' @ key @ rest"
      and key: "length key = 16" "list_all access_key_char key" by blast
    have run: "ends (foldr Cat (replicate (length k) (Sat access_key_char)) Eps) (b, k @ r) = [(rev k @ b, r)]"
      if "list_all access_key_char k" for k b r
      using that by (induction k arbitrary: b) auto
    have "ends aws_access_key (rev pre, ''AKIA'' @ key @ rest) \<noteq> []"
      using run [OF key(2)] key(1) by (simp add: aws_access_key_def ends_lit py_startswith_def)
    then have "re_search aws_access_key content" unfolding c by (rule re_search_at)
    then show ?thesis by (simp add: populated_def POPULATED_PATTERNS_def Let_def)
  qed
  with assms(1,2) have "phase1_block_populated files \<noteq> []"
    by (auto simp: phase1_block_populated_def)
  then show ?thesis by (simp add: env_hook_main_def bind_sum_Inr)
qed

theorem secret_blocks_commit_witness:
  "env_hook_main (\<lambda>f. if f = ''.env'' then Some (Inr (''A=1'' @ [CHR 0x0A] @ ''SECRET_KEY=s3'')) else None) \<noteq> Inr 0"
proof (rule secret_blocks_commit [of "''.env''"])
  have "''A=1'' @ [CHR 0x0A] @ ''SECRET_KEY=s3'' = (''A=1'' @ [CHR 0x0A]) @ ''SECRET_KEY='' @ ''s3''" by simp
  moreover have "\<forall>s\<in>{''CHANGE_ME'', ''dev-only-secret'', ''test-secret''}. \<not> py_startswith ''s3'' s"
    by (simp add: py_startswith_def)
  moreover have "List.last (''A=1'' @ [CHR 0x0A]) = CHR 0x0A" by simp
  ultimately show "(\<exists>pre rest. ''A=1'' @ [CHR 0x0A] @ ''SECRET_KEY=s3'' = pre @ ''SECRET_KEY='' @ rest
        \<and> (pre = [] \<or> List.last pre = CHR 0x0A)
        \<and> (\<forall>s\<in>{''CHANGE_ME'', ''dev-only-secret'', ''test-secret''}. \<not> py_startswith rest s))
      \<or> (\<exists>pre key rest. ''A=1'' @ [CHR 0x0A] @ ''SECRET_KEY=s3'' = pre @ ''AKIA'' @ key @ rest
        \<and> length key = 16 \<and> list_all access_key_char key)" by blast
qed simp_all

end
