(* ===== verification/Commit_Msg.thy ===== *)
theory Commit_Msg
  imports Py_Std "HOL-Library.Char_ord" "HOL-Library.List_Lexorder"
begin

text \<open>
  The commit-message hook, \<open>.pre-commit-hooks/conventional-commits.py\<close>, after its arguments are
  parsed: the contents of the message file (\<open>None\<close> when it does not exist) and the two
  comma-separated lists. The result is the exit code.
\<close>

definition DEFAULT_TYPES :: "string list" where
  "DEFAULT_TYPES = [''feat'', ''fix'', ''perf'', ''refactor'', ''test'', ''docs'', ''build'', ''ci'',
     ''chore'', ''revert'', ''style'']"

definition DEFAULT_SCOPES :: "string list" where
  "DEFAULT_SCOPES = [''orders'', ''inventory'', ''payments'', ''notifications'', ''admin'', ''gateway'',
     ''core'', ''deps'', ''precommit'', ''docker'', ''ci'', ''api'', ''models'', ''readme'', ''env'']"

text \<open>The defaults of \<open>--types\<close> and \<open>--scopes\<close>.\<close>

definition default_types :: string where
  "default_types = join '','' (sort DEFAULT_TYPES)"

definition default_scopes :: string where
  "default_scopes = join '','' (sort DEFAULT_SCOPES)"

section \<open>The pattern\<close>






section \<open>The checks\<close>








section \<open>The messages that pass\<close>













end
