(* ===== verification/Block_Urls.thy ===== *)
theory Block_Urls
  imports Regex
begin

text \<open>
  The hook that keeps production hosts out of the sources, \<open>.pre-commit-hooks/block-prod-urls.py\<close>.
  What \<open>git ls-files\<close> prints, which paths are files and what reading them gives (\<open>None\<close> for an
  \<open>OSError\<close>) are parameters.
\<close>

definition PROD_PATTERNS :: "regex list" where
  "PROD_PATTERNS =
     [ilit ''rds.amazonaws.com'', ilit ''.amazonaws.com'', ilit ''.azure.com'', ilit ''.windows.net'',
      ilit ''confluent.cloud'', ilit ''.googleapis.com'', ilit ''prod.'', ilit ''-prod.'',
      Cat (ilit ''.prod'') String_End]"

definition ALLOWLIST :: "string list" where
  "ALLOWLIST = [''.env.example'', ''.env.test.example'', ''.env.docker'', ''tests/conftest.py'',
     ''.pre-commit-hooks/check-nimbus-env/hooks.py'', ''.pre-commit-hooks/block-prod-urls.py'', ''src/core/config.py'']"

definition list_tracked_files :: "string \<Rightarrow> string \<Rightarrow> string list" where
  "list_tracked_files repo_root stdout =
     map (\<lambda>line. repo_root @ ''/'' @ line) (filter (\<lambda>line. line \<noteq> []) (py_splitlines stdout))"

definition scan_file :: "(string \<Rightarrow> string option) \<Rightarrow> string \<Rightarrow> (nat \<times> string) list" where
  "scan_file read path =
     (case read path of
        None \<Rightarrow> []
      | Some text \<Rightarrow>
          filter (\<lambda>(line_no, line). list_ex (\<lambda>pattern. re_search pattern line) PROD_PATTERNS)
            (enumerate 1 (py_splitlines text)))"

definition file_problems :: "string \<Rightarrow> (string \<Rightarrow> string option) \<Rightarrow> string \<Rightarrow> string list" where
  "file_problems repo_root read path =
     (if list_ex (\<lambda>part. contains part path) ALLOWLIST then []
      else map (\<lambda>(line_no, line). drop (length repo_root + 1) path @ '':'' @ py_str_int (int line_no) @ '': '' @ py_strip line)
             (scan_file read path))"

definition block_urls_main ::
    "string \<Rightarrow> string \<Rightarrow> (string \<Rightarrow> bool) \<Rightarrow> (string \<Rightarrow> string option) \<Rightarrow> int" where
  "block_urls_main repo_root stdout is_file read =
     (let files = filter is_file (list_tracked_files repo_root stdout) in
      if files = [] then 0
      else if concat (map (file_problems repo_root read) files) \<noteq> [] then 1 else 0)"

section \<open>What is blocked\<close>

definition production_texts :: "string list" where
  "production_texts = [''rds.amazonaws.com'', ''.amazonaws.com'', ''.azure.com'', ''.windows.net'',
     ''confluent.cloud'', ''.googleapis.com'', ''prod.'']"

definition production_line :: "string \<Rightarrow> bool" where
  "production_line line \<longleftrightarrow> (\<exists>p\<in>set production_texts. contains p (py_lower line))
     \<or> (\<exists>a. py_lower line = a @ ''.prod'')"

lemma ends_ilit:
  "ends (ilit s) (b, r) = (if take (length s) (py_lower r) = py_lower s
     then [(rev (take (length s) r) @ b, drop (length s) r)] else [])"
proof (induction s arbitrary: b r)
  case (Cons c s)
  then show ?case by (cases r) (auto simp: ilit_def py_lower_def same_ci_def)
qed (simp add: ilit_def py_lower_def)

lemma splitlines_no_newline: "line \<in> set (py_splitlines text) \<Longrightarrow> CHR 0x0A \<notin> set line"
proof (induction "text" rule: py_splitlines.induct)
  case (1 s)
  have "line_break CHR 0x0A" by code_simp
  then have "CHR 0x0A \<notin> set (takeWhile (\<lambda>c. \<not> line_break c) s)"
    by (metis set_takeWhileD)
  with 1 show ?case by (subst (asm) (2) py_splitlines.simps) (auto split: if_splits)
qed

lemma search_suffix:
  assumes "CHR 0x0A \<notin> set line"
  shows "re_search (Cat (ilit p) String_End) line \<longleftrightarrow> (\<exists>a. py_lower line = a @ py_lower p)"
proof -
  have no: "drop n b \<noteq> [CHR 0x0A]" if "line = a @ b" for a b n
    using assms that by (metis UnCI in_set_dropD list.set_intros(1) set_append)
  have lower: "py_lower (x @ y) = py_lower x @ py_lower y" "length (py_lower x) = length x" for x y
    by (simp_all add: py_lower_def)
  have "re_search (Cat (ilit p) String_End) line \<longleftrightarrow> (\<exists>a b. line = a @ b \<and> py_lower b = py_lower p)"
    unfolding re_search_iff
  proof (intro ex_cong1 conj_cong [OF HOL.refl])
    fix a b assume ab: "line = a @ b"
    show "ends (Cat (ilit p) String_End) (rev a, b) \<noteq> [] \<longleftrightarrow> py_lower b = py_lower p"
      using no [OF ab, of "length p"] lower(2) [of b] lower(2) [of p] by (auto simp: ends_ilit)
  qed
  also have "\<dots> \<longleftrightarrow> (\<exists>a. py_lower line = a @ py_lower p)"
    unfolding py_lower_def by (metis map_append map_eq_append_conv)
  finally show ?thesis .
qed

lemma contains_longer: "contains (a @ p) s \<Longrightarrow> contains p s"
  unfolding contains_iff by (metis append.assoc)

lemma flagged_line:
  assumes "CHR 0x0A \<notin> set line"
  shows "list_ex (\<lambda>pattern. re_search pattern line) PROD_PATTERNS \<longleftrightarrow> production_line line"
proof -
  have "py_lower p = p" if "p \<in> set (''-prod.'' # ''.prod'' # production_texts)" for p
    using that by (auto simp: production_texts_def py_lower_def lower_char_def char_isupper_def py_isupper_def)
  moreover have "contains ''-prod.'' s \<Longrightarrow> contains ''prod.'' s" for s
    using contains_longer [of "''-''" "''prod.''"] by simp
  ultimately show ?thesis
    unfolding production_line_def PROD_PATTERNS_def production_texts_def
    by (auto simp: re_search_ilit search_suffix [OF assms])
qed

text \<open>
  What the hook blocks, exactly: it fails iff some tracked path that is a readable file and does not
  contain the name of an allowed file has a line with one of the production host texts, in upper or
  lower case, anywhere, or ending in \<open>.prod\<close>.
\<close>

theorem block_urls_exact:
  "block_urls_main repo_root stdout is_file read = 1 \<longleftrightarrow>
     (\<exists>path text line. path \<in> set (list_tracked_files repo_root stdout) \<and> is_file path
        \<and> list_all (\<lambda>part. contains part path = False) ALLOWLIST
        \<and> read path = Some text \<and> line \<in> set (py_splitlines text) \<and> production_line line)"
proof -
  have "file_problems repo_root read path \<noteq> [] \<longleftrightarrow>
      list_all (\<lambda>part. contains part path = False) ALLOWLIST
      \<and> (\<exists>text line. read path = Some text \<and> line \<in> set (py_splitlines text) \<and> production_line line)" for path
  proof -
    have "scan_file read path \<noteq> [] \<longleftrightarrow>
        (\<exists>text line. read path = Some text \<and> line \<in> set (py_splitlines text) \<and> production_line line)"
    proof (cases "read path")
      case (Some content)
      let ?hit = "\<lambda>line. list_ex (\<lambda>pattern. re_search pattern line) PROD_PATTERNS"
      have "scan_file read path \<noteq> [] \<longleftrightarrow> (\<exists>line \<in> snd ` set (enumerate 1 (py_splitlines content)). ?hit line)"
        using Some by (force simp: scan_file_def filter_empty_conv)
      also have "snd ` set (enumerate 1 (py_splitlines content)) = set (py_splitlines content)"
        by (metis list.set_map map_snd_enumerate)
      finally show ?thesis
        using Some flagged_line splitlines_no_newline by auto
    qed (simp add: scan_file_def)
    then show ?thesis by (auto simp: file_problems_def list_ex_iff list_all_iff)
  qed
  then show ?thesis
    by (auto simp: block_urls_main_def Let_def filter_empty_conv)
qed

end
