(* ===== verification/Session_Invariants.thy ===== *)
theory Session_Invariants
  imports Users Payments Order_Consumer
begin

text \<open>
  Invariants of a session, once for all services. A computation keeps an invariant if every run of it
  does, whether it returns or raises; what is composed of keeping computations keeps it. The locale
  \<open>session_invariant\<close> lists what an invariant has to survive of the session itself (the commits of
  others, rollback, flush, commit, the addition of a row a service builds, a statement on the stock, a
  change of the status of an order or a payment), and shows that then every service and every event
  handler keeps it. \<open>service_row\<close> says which rows the services build.
\<close>

section \<open>Computations that keep an invariant\<close>

definition keeps :: "('s \<Rightarrow> bool) \<Rightarrow> ('s, 'e, 'a) comp \<Rightarrow> bool" where
  "keeps I m \<longleftrightarrow> (\<forall>s. I s \<longrightarrow> I (snd (m s)))"

lemma keepsD: "keeps I m \<Longrightarrow> m s = (r, s') \<Longrightarrow> I s \<Longrightarrow> I s'"
  unfolding keeps_def by (metis snd_conv)

lemma keeps_ret [inv_intros]: "keeps I (ret x)" and keeps_raise [inv_intros]: "keeps I (raise_exc e)"
  by (simp_all add: keeps_def)

lemma keeps_seq [inv_intros]: "keeps I m \<Longrightarrow> (\<And>x. keeps I (f x)) \<Longrightarrow> keeps I (seq m f)"
  by (auto simp: keeps_def seq_def split: prod.splits sum.splits)

lemma keeps_try_except [inv_intros]: "keeps I m \<Longrightarrow> (\<And>e. keeps I (h e)) \<Longrightarrow> keeps I (try_except m h)"
  by (auto simp: keeps_def try_except_def split: prod.splits sum.splits)

lemma keeps_modify [inv_intros]: "(\<And>s. I s \<Longrightarrow> I (f s)) \<Longrightarrow> keeps I (modify f)"
  by (simp add: keeps_def)

lemma keeps_seq_state [inv_intros]:
  assumes "\<And>s. keeps I (m s)" and "\<And>s x. keeps I (f s x)"
  shows "keeps I (\<lambda>s. seq (m s) (f s) s)"
proof -
  have "keeps I (seq (m s) (f s))" for s by (rule keeps_seq) (rule assms)+
  then show ?thesis by (simp add: keeps_def)
qed

lemma keeps_one_or_none [inv_intros]:
  "keeps I (one_or_none rows)" "keeps I (\<lambda>s. one_or_none (g s) s)"
  by (auto simp: keeps_def one_or_none_def split: list.split)

lemma keeps_cases [inv_intros]:
  "(b \<Longrightarrow> keeps I m) \<Longrightarrow> (\<not> b \<Longrightarrow> keeps I n) \<Longrightarrow> keeps I (if b then m else n)"
  "keeps I m \<Longrightarrow> (\<And>x. keeps I (f x)) \<Longrightarrow> keeps I (case opt of None \<Rightarrow> m | Some x \<Rightarrow> f x)"
  "(\<And>e. keeps I (g e)) \<Longrightarrow> (\<And>x. keeps I (f x)) \<Longrightarrow> keeps I (case v of Inl e \<Rightarrow> g e | Inr x \<Rightarrow> f x)"
  by (auto split: option.splits sum.splits)

lemma keeps_snd: "(\<And>s. I s \<Longrightarrow> I (snd (m s))) \<Longrightarrow> keeps I m"
  by (simp add: keeps_def)

section \<open>Transactions of the program\<close>

text \<open>A transaction of the program, with what the outside decides about it.\<close>

datatype service_call =
    Reserve_Stock reserve_request
  | Release_Stock release_request
  | Read_Stock uuid
  | Place_Order place_io place_order_request
  | Update_Order uuid order_status
  | Process_Payment event_io ProcessPaymentRequest
  | Register user_io CreateUserRequest
  | Log_In AuthenticateRequest
  | Find_User user_ref
  | Payment_Captured event_envelope
  | Payment_Failed event_envelope

fun service_body :: "orm \<Rightarrow> 'w codec \<Rightarrow> argon2 \<Rightarrow> service_call \<Rightarrow> (session, exc, unit) comp" where
  "service_body M C A (Reserve_Stock req) = seq (reserve M req) (\<lambda>_. ret ())"
| "service_body M C A (Release_Stock req) = seq (release M req) (\<lambda>_. ret ())"
| "service_body M C A (Read_Stock k) = seq (get_stock M k) (\<lambda>_. ret ())"
| "service_body M C A (Place_Order io req) = seq (place_order M C io req) (\<lambda>_. ret ())"
| "service_body M C A (Update_Order oid new) = seq (update_order_status oid new) (\<lambda>_. ret ())"
| "service_body M C A (Process_Payment io req) = seq (process_payment_body C io req) (\<lambda>_. ret ())"
| "service_body M C A (Register io req) = seq (create_user A io req) (\<lambda>_. ret ())"
| "service_body M C A (Log_In req) = seq (authenticate_user A req) (\<lambda>_. ret ())"
| "service_body M C A (Find_User ref) = seq (get_user_by_id ref) (\<lambda>_. ret ())"
| "service_body M C A (Payment_Captured env) = on_payment_captured env"
| "service_body M C A (Payment_Failed env) = on_payment_failed M env"

record transaction =
  tx_call :: service_call
  tx_env :: "(db \<Rightarrow> db) list"
  tx_now :: int
  tx_commit :: "exc option"

definition serve :: "orm \<Rightarrow> 'w codec \<Rightarrow> argon2 \<Rightarrow> string \<Rightarrow> transaction \<Rightarrow> db \<Rightarrow> db" where
  "serve M C A schema tx d =
     se_db (snd (run_request schema (tx_commit tx) (service_body M C A (tx_call tx))
       (new_session d (tx_env tx) (tx_now tx))))"

section \<open>The contract\<close>

text \<open>The new rows that the services add to a session.\<close>

inductive service_row :: "'w codec \<Rightarrow> argon2 \<Rightarrow> row \<Rightarrow> bool" for C A where
  order: "service_row C A (InsertOrder (make_order now io req res x))"
| order_event: "service_row C A (InsertOutbox (order_outbox C now (order_created_envelope io ord)))"
| payment_event: "service_row C A (InsertOutbox (build_outbox_event C now
     (build_payment_event eio p (payment_event_type new) extra) ''payments.events''))"
| account: "hash_password A salt password = Inr encoded \<Longrightarrow>
     service_row C A (InsertUser (new_user uio now (normalize_email email) encoded))"

inductive_simps service_row_updates [simp]:
  "service_row C A (UpdateOrder y)" "service_row C A (UpdatePayment p)"
inductive_cases service_event: "service_row C A (InsertOutbox y)"
inductive_cases service_account: "service_row C A (InsertUser u)"

text \<open>The part of \<open>process_payment\<close> that changes the payment, and what follows it: the event.\<close>

definition change_payment :: "uuid \<Rightarrow> payment_status \<Rightarrow> (session, exc, payment) comp" where
  "change_payment pid new =
     seq (select_payment_for_update pid) (\<lambda>found.
       case found of
         None \<Rightarrow> raise_exc (payment_not_found pid)
       | Some p \<Rightarrow>
           (case validate_transition (p_status p) new of
              Inl e \<Rightarrow> raise_exc e
            | Inr _ \<Rightarrow> seq (session_add (UpdatePayment (p\<lparr>p_status := new\<rparr>))) (\<lambda>_. ret (p\<lparr>p_status := new\<rparr>))))"

lemma process_payment_body_split:
  "process_payment_body C io req =
     seq (change_payment (pp_payment_id req) (pp_new_status req)) (\<lambda>p' s.
       let env = build_payment_event io p' (payment_event_type (pp_new_status req)) (pp_extra_payload req);
           obx = build_outbox_event C (se_now s) env ''payments.events'' in
       seq (session_add (InsertOutbox obx)) (\<lambda>_.
         ret \<lparr>ppr_payment = p', ppr_outbox_event = obx, ppr_envelope = env\<rparr>) s)"
  by (rule ext) (auto simp: process_payment_body_def change_payment_def seq_def Let_def
      split: prod.splits sum.splits option.splits)

locale session_invariant =
  fixes C :: "'w codec" and A :: argon2 and I :: "session \<Rightarrow> bool"
  assumes others [intro]: "I s \<Longrightarrow> I (others_commit s)"
    and rollback [intro]: "I s \<Longrightarrow> I (session_rollback s)"
    and flush: "keeps I session_flush"
    and commit: "keeps I (session_commit outcome)"
    and add: "service_row C A r \<Longrightarrow> keeps I (session_add r)"
    and stock_objs [intro]: "I s \<Longrightarrow> I (s\<lparr>se_stock_objs := objs\<rparr>)"
    and stock: "(\<And>x. st_id (F x) = st_id x) \<Longrightarrow> keeps I (update_stock M k P F)"
    and status: "keeps I (update_order_status oid new)"
    and payment: "keeps I (change_payment pid pnew)"
begin

declare flush [inv_intros] commit [inv_intros] stock [inv_intros] status [inv_intros] payment [inv_intros]

lemma keeps_others [inv_intros]: "keeps I (modify others_commit)"
  by (intro inv_intros others)

lemma keeps_add [inv_intros]:
  "keeps I (session_add (InsertOrder (make_order now io req res x)))"
  "keeps I (session_add (InsertOutbox (order_outbox C now (order_created_envelope io ord))))"
  "keeps I (session_add (InsertOutbox (build_outbox_event C now
     (build_payment_event eio p (payment_event_type new) extra) ''payments.events'')))"
  by (rule add, rule service_row.intros)+

lemma keeps_read_stock [inv_intros]: "keeps I (read_stock M k)"
  by (rule keeps_snd) (auto simp: read_stock_def Let_def split: option.split)

lemma keeps_with_schemas [inv_intros]: "keeps I body \<Longrightarrow> keeps I (with_schemas ss body)"
  unfolding with_schemas_def by (intro inv_intros)

lemma keeps_get_stock [inv_intros]: "keeps I (get_stock M k)"
  unfolding get_stock_def by (intro inv_intros)

lemma keeps_reserve [inv_intros]: "keeps I (reserve M req)"
  unfolding reserve_def
  by (intro inv_intros) (auto simp: reserve_values_def keeps_def)

lemma keeps_release [inv_intros]: "keeps I (release M req)"
  unfolding release_def by (intro inv_intros) (simp add: release_values_def)

lemma keeps_finish_order [inv_intros]: "keeps I (finish_order C io req res x)"
  unfolding finish_order_def [abs_def] Let_def by (intro inv_intros)

lemma keeps_place_attempts [inv_intros]: "keeps I (place_attempts M C io req n last_exc)"
proof (induction n arbitrary: last_exc)
  case 0
  show ?case by (simp, intro inv_intros)
next
  case (Suc n)
  have "I (snd (place_attempts M C io req (Suc n) last_exc s))" if s: "I s" for s
  proof -
    obtain g s1 where g: "get_stock M (po_stock_id req) s = (g, s1)" by (metis surj_pair)
    have s1: "I s1" by (rule keepsD [OF keeps_get_stock g s])
    show ?thesis
    proof (cases g)
      case (Inl e)
      with g s1 show ?thesis by simp
    next
      case (Inr x)
      obtain r s2 where r: "reserve M \<lparr>rq_stock_id = po_stock_id req, rq_quantity = po_quantity req,
          rq_expected_version = st_version x\<rparr> s1 = (r, s2)" by (metis surj_pair)
      have s2: "I s2" by (rule keepsD [OF keeps_reserve r s1])
      have "I (snd (place_attempts M C io req n (Some e) s2))"
        "I (snd (finish_order C io req res y s2))" for e res y
        using Suc.IH keeps_finish_order s2 unfolding keeps_def by blast+
      with g Inr r s2 show ?thesis by (auto split: sum.split)
    qed
  qed
  then show ?case by (simp add: keeps_def)
qed

lemma keeps_place_order [inv_intros]: "keeps I (place_order M C io req)"
  unfolding place_order_def by (intro inv_intros)

lemma keeps_select [inv_intros]:
  "keeps I (select_order oid)" "keeps I (get_user_by_email email)"
proof -
  show "keeps I (select_order oid)"
    by (rule keeps_snd) (auto simp: select_order_def Let_def)
  show "keeps I (get_user_by_email email)"
    unfolding get_user_by_email_def by (intro inv_intros others)
qed

lemma keeps_process_payment_body [inv_intros]: "keeps I (process_payment_body C io req)"
  unfolding process_payment_body_split Let_def by (intro inv_intros)

lemma keeps_create_user [inv_intros]: "keeps I (create_user A io req)"
proof -
  have handler: "keeps I (case e of IntegrityError m \<Rightarrow> seq (modify session_rollback) (\<lambda>_. raise_exc (email_taken a))
      | _ \<Rightarrow> raise_exc e)" for e a
    by (cases e) (auto intro!: inv_intros rollback)
  have insert: "keeps I (\<lambda>s. insert_user (new_user io (se_now s) (normalize_email e) encoded) s)"
    if "hash_password A salt password = Inr encoded" for e encoded salt password
    unfolding insert_user_def by (intro inv_intros handler add service_row.account [OF that])
  show ?thesis
  proof (cases "hash_password A (ui_salt io) (cu_password req)")
    case (Inl e)
    then show ?thesis by (simp add: create_user_eq keeps_raise)
  next
    case (Inr encoded)
    have "keeps I (case found of Some u \<Rightarrow> raise_exc (email_taken (normalize_email (cu_email req)))
        | None \<Rightarrow> (\<lambda>s. insert_user (new_user io (se_now s) (normalize_email (cu_email req)) encoded) s))" for found
      by (cases found) (simp_all add: insert [OF Inr] keeps_raise del: view_simps)
    then show ?thesis
      unfolding create_user_eq Inr sum.case by (intro keeps_seq keeps_select)
  qed
qed

lemma keeps_look_ups [inv_intros]:
  "keeps I (authenticate_user A areq)" "keeps I (get_user_by_id ref)"
  unfolding authenticate_user_def get_user_by_id_def by (intro inv_intros others)+

lemma keeps_with_order_id:
  "(\<And>oid. keeps I (body oid)) \<Longrightarrow> keeps I (with_order_id env body)"
  unfolding with_order_id_def by (auto intro: inv_intros split: sum.split option.split json.split)

lemma keeps_handlers [inv_intros]:
  "keeps I (on_payment_captured env)" "keeps I (on_payment_failed M env)"
  unfolding on_payment_captured_def on_payment_failed_def compensate_def
  by (intro keeps_with_order_id inv_intros)+

text \<open>Under the lock on the Idempotency-Key as well: the lock does not touch the session.\<close>

lemma keeps_process_payment:
  assumes "process_payment R C lio eio req (br, s) = (r, (br', s'))" and "I s"
  shows "I s'"
proof -
  obtain a br1 where acq: "acquire_idempotency_lock R (li_acquire lio) (li_token lio) (pp_idempotency_key req) None br = (a, br1)"
    by (metis surj_pair)
  show ?thesis
  proof (cases a)
    case (Inl e)
    with acq assms show ?thesis by (simp add: process_payment_def idempotency_lock_def seq_def)
  next
    case (Inr lock)
    obtain q s1 where body: "process_payment_body C eio req s = (q, s1)" by (metis surj_pair)
    have "s' = s1"
      using acq Inr body assms(1)
      by (auto simp: process_payment_def idempotency_lock_def seq_def try_finally_def split: prod.splits sum.splits)
    with keepsD [OF keeps_process_payment_body body assms(2)] show ?thesis by simp
  qed
qed

lemma keeps_service_body [inv_intros]: "keeps I (service_body M C A call)"
  by (cases call) (simp_all, (intro inv_intros)+)

text \<open>The owners of a transaction: a request, and the session block of the consumer around a handler.\<close>

lemma keeps_request: "keeps I op \<Longrightarrow> keeps I (run_request schema oc op)"
proof -
  assume "keeps I op"
  then have body: "keeps I (seq op (\<lambda>x. seq (session_commit oc) (\<lambda>_. ret x)))" by (intro inv_intros)
  show "keeps I (run_request schema oc op)"
  proof (rule keeps_snd)
    fix s assume s: "I s"
    obtain r s' where run: "seq op (\<lambda>x. seq (session_commit oc) (\<lambda>_. ret x)) s = (r, s')" by (metis surj_pair)
    have "I (session_rollback s')" by (rule rollback [OF keepsD [OF body run s]])
    with s run show "I (snd (run_request schema oc op s))"
      by (simp add: run_request_def get_session_def split: sum.split)
  qed
qed

lemma served:
  assumes "I (new_session d (tx_env tx) (tx_now tx))"
  obtains s where "serve M C A schema tx d = se_db s" and "I s"
  using keeps_request [OF keeps_service_body, of schema "tx_commit tx" M "tx_call tx"] assms that
  by (auto simp: serve_def keeps_def)

lemma handled:
  assumes "keeps I (h env)" and "I (new_session d (mi_env io) (mi_now io))"
  obtains s where "snd (run_handler io h env d) = se_db s" and "I s"
proof -
  let ?m = "seq (h env) (\<lambda>_. session_commit (mi_commit io))"
  have body: "keeps I ?m" by (intro inv_intros assms(1))
  obtain r s where run: "?m (new_session d (mi_env io) (mi_now io)) = (r, s)" by (metis surj_pair)
  have "I s" by (rule keepsD [OF body run assms(2)])
  with run show thesis
    by (cases r) (auto simp: run_handler_def intro!: that [of s])
qed

lemma order_handler_keeps: "order_handlers M k = Some h \<Longrightarrow> keeps I (h env)"
  by (auto simp: order_handlers_def keeps_handlers split: if_splits)

end

end
