(* ===== verification/Stored_Rows.thy ===== *)
theory Stored_Rows
  imports Session_Invariants Outbox_Relay
begin

text \<open>
  What the stored rows mean, beyond what the database checks of them. A row of the outbox reads back
  as the event its columns name; the password hash of an account is that of a password with which
  the login accepts it. Neither is enforced by a column or a constraint: it is what the services build,
  and an instance of \<open>session_invariant\<close> carries it over every transaction.
\<close>

section \<open>Rows\<close>

text \<open>
  An outbox row as the relay and the consumers need it: the stored payload is read back as an event
  of one of the two aggregates, the columns repeat its identifier, type and aggregate, the dedupe id is
  the hash of its content, and the topic is the one of the aggregate.
\<close>

definition topic_of :: "string \<Rightarrow> string option" where
  "topic_of = [''Order'' \<mapsto> ''orders.events'', ''Payment'' \<mapsto> ''payments.events'']"

definition event_row_ok :: "'w codec \<Rightarrow> outbox_event \<Rightarrow> bool" where
  "event_row_ok C x \<longleftrightarrow>
     (case cd_validate C (ob_payload x) of
        Inl _ \<Rightarrow> False
      | Inr env \<Rightarrow>
          envelope_valid env \<and> event_id env = ob_id x \<and> event_type env = ob_event_type x
          \<and> aggregate_type env = ob_aggregate_type x \<and> aggregate_id env = ob_aggregate_id x
          \<and> content_hash C env = ob_dedupe_id x \<and> topic_of (aggregate_type env) = Some (ob_topic x))"

text \<open>An account: some address and password log in to it.\<close>

definition account_ok :: "argon2 \<Rightarrow> user \<Rightarrow> bool" where
  "account_ok A u \<longleftrightarrow> (\<exists>email password. normalize_email email = us_email u
     \<and> verify_password A password (us_password_hash u) = Inr True)"

definition rows_ok :: "'w codec \<Rightarrow> argon2 \<Rightarrow> db \<Rightarrow> bool" where
  "rows_ok C A d \<longleftrightarrow> (\<forall>x\<in>set (outbox_t d). event_row_ok C x) \<and> (\<forall>u\<in>set (users_t d). account_ok A u)"

definition env_rows_ok :: "'w codec \<Rightarrow> argon2 \<Rightarrow> (db \<Rightarrow> db) list \<Rightarrow> bool" where
  "env_rows_ok C A env \<longleftrightarrow> (\<forall>f\<in>set env. \<forall>d. rows_ok C A d \<longrightarrow> rows_ok C A (f d))"

text \<open>What the services build is such a row.\<close>

lemma built_events_ok:
  assumes "codec_ok C"
  shows "event_row_ok C (order_outbox C now (order_created_envelope io ord))"
    and "event_row_ok C (build_outbox_event C now
           (build_payment_event eio p (payment_event_type new) extra) ''payments.events'')"
proof -
  note readback = assms [unfolded codec_ok_def, rule_format, THEN conjunct1]
  show "event_row_ok C (order_outbox C now (order_created_envelope io ord))"
    by (simp add: event_row_ok_def order_outbox_def new_outbox_event_def readback order_created_envelope_valid)
      (simp add: order_created_envelope_def topic_of_def)
  show "event_row_ok C (build_outbox_event C now
      (build_payment_event eio p (payment_event_type new) extra) ''payments.events'')"
    by (simp add: event_row_ok_def build_outbox_event_def new_outbox_event_def readback payment_envelope_valid)
      (simp add: build_payment_event_def Let_def topic_of_def)
qed

lemma built_account_ok:
  assumes "argon2_ok A" and "hash_password A salt password = Inr encoded"
  shows "account_ok A (new_user io now (normalize_email email) encoded)"
  using verify_hash_password [OF assms] by (auto simp: account_ok_def new_user_def)

section \<open>The invariant of a session\<close>

fun row_ok :: "'w codec \<Rightarrow> argon2 \<Rightarrow> row \<Rightarrow> bool" where
  "row_ok C A (InsertOutbox x) = event_row_ok C x"
| "row_ok C A (InsertUser u) = account_ok A u"
| "row_ok C A _ = True"

definition sound :: "'w codec \<Rightarrow> argon2 \<Rightarrow> session \<Rightarrow> bool" where
  "sound C A s \<longleftrightarrow> rows_ok C A (se_db s) \<and> rows_ok C A (se_writes s) \<and> env_rows_ok C A (se_env s)
     \<and> list_all (row_ok C A) (se_pending s)"

lemma service_row_ok:
  assumes "codec_ok C" and "argon2_ok A" and "service_row C A r"
  shows "row_ok C A r"
  using assms(3) by cases (simp_all add: built_events_ok [OF assms(1)] built_account_ok [OF assms(2)])

lemma rows_ok_empty [simp]: "rows_ok C A empty_db"
  by (simp add: rows_ok_def)

lemma rows_ok_updates [simp]:
  "rows_ok C A (d\<lparr>payments_t := p\<rparr>) \<longleftrightarrow> rows_ok C A d"
  "rows_ok C A (d\<lparr>orders_t := t\<rparr>) \<longleftrightarrow> rows_ok C A d"
  "rows_ok C A (d\<lparr>stock_t := k\<rparr>) \<longleftrightarrow> rows_ok C A d"
  by (simp_all add: rows_ok_def)

lemma sound_updates [simp]:
  "sound C A (s\<lparr>se_stock_objs := objs\<rparr>) \<longleftrightarrow> sound C A s"
  "sound C A (s\<lparr>se_locked_payments := L\<rparr>) \<longleftrightarrow> sound C A s"
  "sound C A (s\<lparr>se_locked_orders := M\<rparr>) \<longleftrightarrow> sound C A s"
  by (simp_all add: sound_def)

lemma sound_new_session [simp]:
  "sound C A (new_session d env now) \<longleftrightarrow> rows_ok C A d \<and> env_rows_ok C A env"
  by (simp add: sound_def new_session_def)

lemma sound_others: "sound C A s \<Longrightarrow> sound C A (others_commit s)"
proof (cases "se_env s")
  case (Cons f fs)
  assume s: "sound C A s"
  then have "rows_ok C A (f (se_db s))" and "env_rows_ok C A fs"
    using Cons by (simp_all add: sound_def env_rows_ok_def)
  with s Cons show ?thesis by (simp add: sound_def others_commit_def Let_def rows_ok_def)
qed simp

lemma sound_rollback: "sound C A s \<Longrightarrow> sound C A (session_rollback s)"
  by (simp add: sound_def session_rollback_def)

lemma sound_add: "row_ok C A r \<Longrightarrow> keeps (sound C A) (session_add r)"
  by (rule keeps_snd) (simp add: sound_def)

lemma flush_row_sound: "flush_row r s = Inr s' \<Longrightarrow> row_ok C A r \<Longrightarrow> sound C A s \<Longrightarrow> sound C A s'"
  by (cases r) (auto simp: flush_row_def Let_def sound_def rows_ok_def simp del: view_simps split: if_splits)

lemma flush_rows_sound:
  "flush_rows rs s = Inr s' \<Longrightarrow> list_all (row_ok C A) rs \<Longrightarrow> sound C A s \<Longrightarrow> sound C A s'"
  by (induction rs arbitrary: s) (auto split: sum.splits dest: flush_row_sound)

lemma sound_flush: "keeps (sound C A) session_flush"
proof (rule keeps_snd)
  fix s assume "sound C A s"
  then have s: "sound C A (others_commit s)" by (rule sound_others)
  then have pending: "list_all (row_ok C A) (se_pending (others_commit s))" by (simp add: sound_def)
  have "sound C A s'" if "flush_rows (se_pending (others_commit s)) (others_commit s) = Inr s'" for s'
    by (rule flush_rows_sound [OF that pending s])
  then show "sound C A (snd (session_flush s))"
    using sound_rollback [OF s] by (auto simp: session_flush_def Let_def sound_def split: sum.split)
qed

lemma sound_commit: "keeps (sound C A) (session_commit outcome)"
  unfolding session_commit_def
proof (rule keeps_seq [OF sound_flush])
  fix u
  show "keeps (sound C A) (\<lambda>s. case outcome of Some e \<Rightarrow> (Inl e, session_rollback s)
      | None \<Rightarrow> (Inr (), session_rollback (s\<lparr>se_db := view s\<rparr>)))"
    by (rule keeps_snd)
      (auto simp: sound_rollback sound_def rows_ok_def session_rollback_def split: option.split)
qed

lemma sound_update_stock: "keeps (sound C A) (update_stock M k P F)"
  by (rule keeps_snd)
    (use sound_others in \<open>auto simp: update_stock_def Let_def sound_def simp del: view_simps split: option.split\<close>)

lemma sound_statuses: "keeps (sound C A) (update_order_status oid new)" "keeps (sound C A) (change_payment pid pnew)"
proof -
  have "keeps (sound C A) (select_order_for_update oid)" "keeps (sound C A) (select_payment_for_update pid)" for pid
    by (rule keeps_snd, simp add: select_order_for_update_def select_payment_for_update_def Let_def sound_others
        split: option.split)+
  then show "keeps (sound C A) (update_order_status oid new)" "keeps (sound C A) (change_payment pid pnew)"
    unfolding update_order_status_def change_payment_def Let_def
    by (intro inv_intros sound_add; simp)+
qed

section \<open>Every transaction keeps it\<close>

text \<open>The contract holds for every codec and hasher with their round trips.\<close>

lemma sound_invariant:
  assumes "codec_ok C" and "argon2_ok A"
  shows "session_invariant C A (sound C A)"
  by unfold_locales
    (erule sound_others sound_rollback | rule sound_flush sound_commit sound_update_stock sound_statuses
      | erule sound_add [OF service_row_ok [OF assms]] | simp)+

interpretation stored: session_invariant C A "\<lambda>s. codec_ok C \<and> argon2_ok A \<longrightarrow> sound C A s" for C A
proof (cases "codec_ok C \<and> argon2_ok A")
  case True
  then show "session_invariant C A (\<lambda>s. codec_ok C \<and> argon2_ok A \<longrightarrow> sound C A s)"
    using sound_invariant [of C A] by simp
next
  case False
  then have "(\<lambda>s. codec_ok C \<and> argon2_ok A \<longrightarrow> sound C A s) = (\<lambda>_. True)" by blast
  then show "session_invariant C A (\<lambda>s. codec_ok C \<and> argon2_ok A \<longrightarrow> sound C A s)"
    by (simp only:, unfold_locales) (simp_all add: keeps_def)
qed

lemma serve_rows_ok:
  assumes "codec_ok C" and "argon2_ok A" and "rows_ok C A d" and "env_rows_ok C A (tx_env tx)"
  shows "rows_ok C A (serve M C A schema tx d)"
proof -
  have "codec_ok C \<and> argon2_ok A \<longrightarrow> sound C A (new_session d (tx_env tx) (tx_now tx))"
    using assms(3,4) by simp
  then obtain s where "serve M C A schema tx d = se_db s" and "codec_ok C \<and> argon2_ok A \<longrightarrow> sound C A s"
    by (rule stored.served)
  then show ?thesis using assms(1,2) by (simp add: sound_def)
qed

text \<open>What the relay does with such a row, and what a consumer reads of the message.\<close>

definition delivers :: "'w codec \<Rightarrow> outbox_event \<Rightarrow> bool" where
  "delivers C x \<longleftrightarrow>
     (case publish_one C (Ack 0 0) x (\<lparr>pr_started = True, pr_producer = True, pr_bootstrap_servers = []\<rparr>, []) of
        (Inr _, _, [m]) \<Rightarrow>
          (case cd_from_bytes C (wm_value m) of
             Inl _ \<Rightarrow> False
           | Inr env \<Rightarrow>
               topic_of (aggregate_type env) = Some (wm_topic m) \<and> event_id env = ob_id x
               \<and> event_type env = ob_event_type x \<and> aggregate_id env = ob_aggregate_id x
               \<and> wm_key m = aggregate_id env \<and> content_hash C env = ob_dedupe_id x)
      | _ \<Rightarrow> False)"

lemma event_row_delivers:
  assumes "codec_ok C" and "event_row_ok C x"
  shows "delivers C x"
proof -
  obtain env where env: "cd_validate C (ob_payload x) = Inr env" and valid: "envelope_valid env"
    using assms(2) by (auto simp: event_row_ok_def split: sum.splits)
  have read: "cd_from_bytes C (cd_to_bytes C env) = Inr env"
    using assms(1) valid by (simp add: codec_ok_def)
  have "aggregate_id env \<noteq> []" using valid by (auto simp: envelope_valid_def)
  with assms(2) env show ?thesis
    by (clarsimp simp: delivers_def event_row_ok_def publish_one_def publish_def seq_def read effective_key_def)
qed

section \<open>Property\<close>

text \<open>
  C11: Stored events and accounts are genuine. Take a codec and a hasher with their documented round
  trips, and start from tables in which every outbox row reads back as the event its columns name, with
  the hash of its content as dedupe id and the topic of its aggregate, and every account accepts some
  address and password. Run any sequence of transactions of the program, each with any commits of others
  between its statements that respect this, any identifiers and clock, and a commit that succeeds or
  fails. It is still so of every row, and the relay never refuses one as undeserializable: published by
  a started producer and acknowledged, a row becomes one message on the topic of its aggregate, under
  the key of its aggregate, which a consumer reads back as the event of the row.
\<close>

theorem stored_rows_are_genuine:
  assumes "codec_ok C" and "argon2_ok A" and "rows_ok C A d"
    and "list_all (\<lambda>tx. env_rows_ok C A (tx_env tx)) txs"
    and "d' = fold (serve M C A schema) txs d"
  shows "rows_ok C A d' \<and> list_all (delivers C) (outbox_t d')"
proof -
  have "rows_ok C A (fold (serve M C A schema) txs d)"
    using assms(3,4) by (induction txs arbitrary: d) (simp_all add: serve_rows_ok assms(1,2))
  then show ?thesis by (simp add: rows_ok_def list_all_iff event_row_delivers [OF assms(1)] assms(5))
qed

definition pay_and_register :: "transaction list" where
  "pay_and_register =
     [\<lparr>tx_call = Process_Payment demo_event_io capture_request, tx_env = [], tx_now = 5, tx_commit = None\<rparr>,
      \<lparr>tx_call = Register \<lparr>ui_user_id = 1, ui_salt = []\<rparr> alice, tx_env = [], tx_now = 5, tx_commit = None\<rparr>]"

definition after_both :: db where
  "after_both = fold (serve orm_default json_codec clear_argon2 ''public'') pay_and_register
     (se_db (one_payment P_AUTHORIZED))"

definition captured_row :: outbox_event where
  "captured_row = build_outbox_event json_codec 5
     (build_payment_event demo_event_io (the (payments_t (se_db (one_payment P_CAPTURED)) 7))
        (payment_event_type P_CAPTURED) None) ''payments.events''"

lemma captured_row_fits: "outbox_columns_ok captured_row"
  using length_event_type [of P_CAPTURED]
  by (simp add: captured_row_def outbox_columns_ok_def build_outbox_event_def new_outbox_event_def
      build_payment_event_def Let_def content_hash_def json_codec_def int32_ok_def)

lemma public_schema: "validate_schema_name ''public'' = Inr ''public''"
  by code_simp

lemmas served_simps = serve_def pay_and_register_def run_request_def get_session_def public_schema
  session_commit_def session_flush_def flush_row_def new_session_def Let_def seq_def

lemma capture_served:
  assumes "d = serve orm_default json_codec clear_argon2 ''public'' (hd pay_and_register) (se_db (one_payment P_AUTHORIZED))"
  shows "outbox_t d = [captured_row] \<and> users_t d = []"
  using captured_row_fits unfolding assms
  by (simp add: served_simps process_payment_body_def select_payment_for_update_def one_payment_def
      capture_request_def validate_transition_def payment_columns_ok_def payment_checks_def int64_ok_def
      captured_row_def)

lemma alice_served:
  assumes "users_t d = []"
  shows "outbox_t (serve orm_default json_codec clear_argon2 ''public'' (pay_and_register ! 1) d) = outbox_t d
    \<and> users_t (serve orm_default json_codec clear_argon2 ''public'' (pay_and_register ! 1) d) = [alice_row]"
proof -
  have "user_columns_ok alice_row \<and> user_checks alice_row" by code_simp
  with assms show ?thesis
    by (simp add: served_simps create_user_eq insert_user_def alice_def alice_email hash_password_def
        clear_argon2_def get_hasher_def get_user_by_email_def one_or_none_def new_user_def try_except_def alice_row_def)
qed

lemma after_both_rows: "outbox_t after_both = [captured_row] \<and> users_t after_both = [alice_row]"
  using capture_served [OF HOL.refl] alice_served
  by (simp add: after_both_def pay_and_register_def)

theorem stored_rows_are_genuine_witness:
  "outbox_t after_both = [captured_row] \<and> users_t after_both = [alice_row]
   \<and> delivers json_codec captured_row \<and> account_ok clear_argon2 alice_row"
proof -
  have "rows_ok json_codec clear_argon2 (se_db (one_payment P_AUTHORIZED))"
    by (simp add: one_payment_def new_session_def rows_ok_def)
  moreover have "list_all (\<lambda>tx. env_rows_ok json_codec clear_argon2 (tx_env tx)) pay_and_register"
    by (simp add: pay_and_register_def env_rows_ok_def)
  ultimately have "rows_ok json_codec clear_argon2 after_both \<and> list_all (delivers json_codec) (outbox_t after_both)"
    by (rule stored_rows_are_genuine [OF json_codec_ok clear_argon2_ok _ _ after_both_def])
  with after_both_rows show ?thesis by (simp add: rows_ok_def)
qed

end
