(* ===== verification/Order_Lifecycle.thy ===== *)
theory Order_Lifecycle
  imports Session_Invariants
begin

text \<open>
  The life of an order across the whole program. Whatever transactions run and however they fail, a
  committed order stays in its table, keeps its key, owner, stock, quantity, version, total, currency
  and date, and changes its status only along the lifecycle. The invariant of a session, relative to
  the tables it started from, is an instance of \<open>session_invariant\<close>.
\<close>

section \<open>How an order may change\<close>

definition order_evolves :: "order \<Rightarrow> order \<Rightarrow> bool" where
  "order_evolves x y \<longleftrightarrow> order_transition\<^sup>*\<^sup>* (or_status x) (or_status y)
     \<and> y\<lparr>or_status := or_status x, or_updated_at := or_updated_at x\<rparr> = x"

definition orders_evolve :: "(uuid \<Rightarrow> order option) \<Rightarrow> (uuid \<Rightarrow> order option) \<Rightarrow> bool" where
  "orders_evolve t t' \<longleftrightarrow> (\<forall>k x. t k = Some x \<longrightarrow> (\<exists>y. t' k = Some y \<and> order_evolves x y))"

definition keyed :: "(uuid \<Rightarrow> order option) \<Rightarrow> bool" where
  "keyed t \<longleftrightarrow> (\<forall>k x. t k = Some x \<longrightarrow> or_id x = k)"

definition env_evolves :: "(db \<Rightarrow> db) list \<Rightarrow> bool" where
  "env_evolves env \<longleftrightarrow> (\<forall>f\<in>set env. \<forall>d. keyed (orders_t d) \<longrightarrow>
     keyed (orders_t (f d)) \<and> orders_evolve (orders_t d) (orders_t (f d)))"

lemma order_evolves_refl [simp]: "order_evolves x x"
  by (simp add: order_evolves_def)

lemma order_evolves_trans: "order_evolves x y \<Longrightarrow> order_evolves y z \<Longrightarrow> order_evolves x z"
  by (cases x; cases y; cases z) (auto simp: order_evolves_def)

lemma order_evolves_id: "order_evolves x y \<Longrightarrow> or_id y = or_id x"
  by (cases x; cases y) (auto simp: order_evolves_def)

lemma order_evolves_updated: "order_evolves x y \<Longrightarrow> order_evolves x (y\<lparr>or_updated_at := t\<rparr>)"
  by (cases x; cases y) (auto simp: order_evolves_def)

lemma order_evolves_step: "order_transition (or_status x) new \<Longrightarrow> order_evolves x (x\<lparr>or_status := new\<rparr>)"
  by (cases x) (auto simp: order_evolves_def)

lemma orders_evolve_refl [simp]: "orders_evolve t t"
  by (simp add: orders_evolve_def)

lemma orders_evolve_trans: "orders_evolve t u \<Longrightarrow> orders_evolve u v \<Longrightarrow> orders_evolve t v"
  unfolding orders_evolve_def by (meson order_evolves_trans)

section \<open>The invariant of a session\<close>

text \<open>The objects of orders that were changed and not flushed.\<close>

fun order_updates :: "row list \<Rightarrow> order list" where
  "order_updates [] = []"
| "order_updates (UpdateOrder y # rs) = y # order_updates rs"
| "order_updates (_ # rs) = order_updates rs"

text \<open>
  Such an object belongs to a locked row it evolved from; its status is final, and no order has two.
\<close>

definition updates_ok :: "uuid set \<Rightarrow> (uuid \<Rightarrow> order option) \<Rightarrow> order list \<Rightarrow> bool" where
  "updates_ok locked t ys \<longleftrightarrow> distinct (map or_id ys)
     \<and> (\<forall>y\<in>set ys. or_id y \<in> locked \<and> or_status y \<in> {O_PAID, O_FAILED}
          \<and> (\<exists>x. t (or_id y) = Some x \<and> order_evolves x y))"

text \<open>A new order whose key is taken: the flush will refuse it, and all that is pending with it.\<close>

definition doomed :: "(uuid \<Rightarrow> order option) \<Rightarrow> row list \<Rightarrow> bool" where
  "doomed t rs \<longleftrightarrow> (\<exists>x. InsertOrder x \<in> set rs \<and> t (or_id x) \<noteq> None)"

definition evolving_rows :: "db \<Rightarrow> row list \<Rightarrow> session \<Rightarrow> bool" where
  "evolving_rows d0 rs s \<longleftrightarrow> env_evolves (se_env s)
     \<and> keyed (orders_t (se_db s)) \<and> keyed (orders_t (se_writes s))
     \<and> orders_evolve (orders_t d0) (orders_t (se_db s))
     \<and> (doomed (orders_t (view s)) rs
        \<or> orders_evolve (orders_t (se_db s)) (orders_t (view s))
          \<and> updates_ok (se_locked_orders s) (orders_t (view s)) (order_updates rs))"

definition evolving :: "db \<Rightarrow> session \<Rightarrow> bool" where
  "evolving d0 s \<longleftrightarrow> evolving_rows d0 (se_pending s) s"

lemmas evolving_defs = evolving_def evolving_rows_def

lemma evolving_start: "keyed (orders_t d) \<Longrightarrow> env_evolves env \<Longrightarrow> evolving d (new_session d env now)"
  by (simp add: evolving_defs updates_ok_def keyed_def)

lemma evolving_rollback: "evolving d0 s \<Longrightarrow> evolving d0 (session_rollback s)"
  by (auto simp: evolving_defs updates_ok_def keyed_def)

lemma evolving_others:
  assumes "evolving d0 s"
  shows "evolving d0 (others_commit s)"
proof (cases "se_env s")
  case Nil
  with assms show ?thesis by simp
next
  case (Cons f fs)
  let ?old = "orders_t (se_db s)" and ?w = "orders_t (se_writes s)"
  let ?held = "dom ?w \<union> se_locked_orders s"
  let ?new = "keep_rows ?held ?old (orders_t (f (se_db s)))"
  have s: "orders_t (se_db (others_commit s)) = ?new" "se_env (others_commit s) = fs"
    "orders_t (view (others_commit s)) = ?new ++ ?w"
    using Cons by (simp_all add: others_commit_def Let_def)
  have f: "keyed (orders_t (f (se_db s)))" "orders_evolve ?old (orders_t (f (se_db s)))" "env_evolves fs"
    using assms Cons by (auto simp: evolving_defs env_evolves_def)
  have "keyed ?new" using assms f(1) by (simp add: evolving_defs keyed_def keep_rows_def)
  moreover have step: "orders_evolve ?old ?new" using f(2) by (auto simp: orders_evolve_def keep_rows_def)
  then have "doomed (?new ++ ?w) rs" if "doomed (?old ++ ?w) rs" for rs
    using that unfolding doomed_def orders_evolve_def by (fastforce simp: map_add_def split: option.splits)
  moreover have "orders_evolve ?new (?new ++ ?w)" if "orders_evolve ?old (?old ++ ?w)"
    unfolding orders_evolve_def
  proof (intro allI impI)
    fix k x assume x: "?new k = Some x"
    show "\<exists>y. (?new ++ ?w) k = Some y \<and> order_evolves x y"
    proof (cases "?w k")
      case None
      with x show ?thesis by (simp add: map_add_def)
    next
      case (Some y)
      with x have "?old k = Some x" by (simp add: keep_rows_def domIff)
      with that Some show ?thesis by (fastforce simp: orders_evolve_def)
    qed
  qed
  moreover have "(?new ++ ?w) k = (?old ++ ?w) k" if "k \<in> se_locked_orders s" for k
    using that by (simp add: map_add_def keep_rows_def split: option.splits)
  then have "updates_ok (se_locked_orders s) (?new ++ ?w) ys" if "updates_ok (se_locked_orders s) (?old ++ ?w) ys" for ys
    using that by (auto simp: updates_ok_def)
  ultimately show ?thesis
    using assms s f(3) orders_evolve_trans [OF _ step] by (auto simp: evolving_defs)
qed

section \<open>Flush and commit\<close>

text \<open>The flush writes one order: a new row, or a row that evolved.\<close>

lemma evolving_write:
  assumes "evolving_rows d0 (r # rs) s"
    and s': "se_db s' = se_db s" "se_env s' = se_env s" "se_locked_orders s' = se_locked_orders s"
      "orders_t (se_writes s') = (orders_t (se_writes s))(or_id x \<mapsto> x)"
    and rest: "doomed (orders_t (view s)) (r # rs) \<Longrightarrow> doomed (orders_t (view s)) rs"
    and updates: "updates_ok (se_locked_orders s) (orders_t (view s)) (order_updates (r # rs)) \<Longrightarrow>
      updates_ok (se_locked_orders s) (orders_t (view s)) (order_updates rs)
      \<and> or_id x \<notin> or_id ` set (order_updates rs)
      \<and> (\<forall>y. orders_t (view s) (or_id x) = Some y \<longrightarrow> order_evolves y x)"
  shows "evolving_rows d0 rs s'"
proof -
  let ?v = "orders_t (view s)" and ?db = "orders_t (se_db s)"
  have v': "orders_t (view s') = ?v(or_id x \<mapsto> x)" using s' by simp
  have "keyed (orders_t (se_writes s'))" using assms(1) s' by (simp add: evolving_rows_def keyed_def)
  moreover have "doomed (?v(or_id x \<mapsto> x)) rs
      \<or> orders_evolve ?db (?v(or_id x \<mapsto> x)) \<and> updates_ok (se_locked_orders s) (?v(or_id x \<mapsto> x)) (order_updates rs)"
  proof (cases "doomed ?v (r # rs)")
    case True
    with rest show ?thesis by (auto simp: doomed_def simp del: view_simps)
  next
    case False
    then have old: "orders_evolve ?db ?v" "updates_ok (se_locked_orders s) ?v (order_updates (r # rs))"
      using assms(1) by (simp_all add: evolving_rows_def del: view_simps)
    note new = updates [OF old(2)]
    have "orders_evolve ?v (?v(or_id x \<mapsto> x))"
      using new by (simp add: orders_evolve_def del: view_simps)
    moreover have "or_id y \<noteq> or_id x" if "y \<in> set (order_updates rs)" for y
      using new that by (metis imageI)
    then have "updates_ok (se_locked_orders s) (?v(or_id x \<mapsto> x)) (order_updates rs)"
      using new by (simp add: updates_ok_def del: view_simps)
    ultimately show ?thesis using orders_evolve_trans [OF old(1)] by blast
  qed
  ultimately show ?thesis using assms(1) s' v' by (simp add: evolving_rows_def del: view_simps)
qed

lemma evolving_flush_row:
  assumes "evolving_rows d0 (r # rs) s" and "flush_row r s = Inr s'"
  shows "evolving_rows d0 rs s'"
proof -
  have keep: ?thesis if "\<forall>x. r \<noteq> UpdateOrder x" "\<forall>x. r \<noteq> InsertOrder x"
  proof -
    have "se_db s' = se_db s" "se_env s' = se_env s" "se_locked_orders s' = se_locked_orders s"
      "orders_t (se_writes s') = orders_t (se_writes s)"
      using assms(2) that by (auto simp: flush_row_def Let_def split: row.splits if_splits)
    moreover have "order_updates (r # rs) = order_updates rs" using that by (cases r) auto
    moreover have "doomed t (r # rs) = doomed t rs" for t using that by (auto simp: doomed_def)
    ultimately show ?thesis using assms(1) by (simp add: evolving_rows_def)
  qed
  show ?thesis
  proof (cases r)
    case (InsertOrder x)
    then have x: "orders_t (view s) (or_id x) = None"
      "s' = s\<lparr>se_writes := (se_writes s)\<lparr>orders_t := (orders_t (se_writes s))(or_id x \<mapsto> x)\<rparr>\<rparr>"
      using assms(2) by (auto simp: flush_row_def Let_def simp del: view_simps split: if_splits)
    show ?thesis
      by (rule evolving_write [OF assms(1), where x = x])
        (use x InsertOrder in \<open>auto simp: doomed_def updates_ok_def simp del: view_simps\<close>)
  next
    case (UpdateOrder y)
    then have y: "s' = s\<lparr>se_writes := (se_writes s)\<lparr>orders_t := (orders_t (se_writes s))
        (or_id y \<mapsto> y\<lparr>or_updated_at := se_now s\<rparr>)\<rparr>\<rparr>"
      using assms(2) by (auto simp: flush_row_def Let_def split: if_splits)
    show ?thesis
      by (rule evolving_write [OF assms(1), where x = "y\<lparr>or_updated_at := se_now s\<rparr>"])
        (use y UpdateOrder in \<open>auto simp: doomed_def updates_ok_def order_evolves_updated simp del: view_simps\<close>)
  qed (use keep in simp_all)
qed

lemma evolving_flush_rows:
  "evolving_rows d0 rs s \<Longrightarrow> flush_rows rs s = Inr s' \<Longrightarrow> evolving_rows d0 [] s'"
  by (induction rs arbitrary: s) (auto split: sum.splits dest: evolving_flush_row)

lemma evolving_flush:
  assumes "evolving d0 s" and "session_flush s = (r, s')"
  shows "evolving d0 s'" and "r = Inr u \<Longrightarrow> orders_evolve (orders_t (se_db s')) (orders_t (view s'))"
proof -
  have o: "evolving d0 (others_commit s)" by (rule evolving_others [OF assms(1)])
  have "evolving d0 s' \<and> (r = Inr u \<longrightarrow> orders_evolve (orders_t (se_db s')) (orders_t (view s')))"
  proof (cases "flush_rows (se_pending s) (others_commit s)")
    case (Inl e)
    with assms(2) o show ?thesis by (auto simp: session_flush_def Let_def evolving_rollback)
  next
    case (Inr s1)
    have "evolving_rows d0 [] s1"
      using evolving_flush_rows [OF _ Inr] o by (simp add: evolving_def)
    with Inr assms(2) show ?thesis
      by (auto simp: session_flush_def Let_def evolving_defs doomed_def simp del: view_simps)
  qed
  then show "evolving d0 s'" and "r = Inr u \<Longrightarrow> orders_evolve (orders_t (se_db s')) (orders_t (view s'))"
    by blast+
qed

lemma evolving_commit: "keeps (evolving d0) (session_commit outcome)"
proof (rule keeps_snd)
  fix s assume s: "evolving d0 s"
  obtain r s1 where f: "session_flush s = (r, s1)" by (meson surj_pair)
  have s1: "evolving d0 s1" by (rule evolving_flush(1) [OF s f])
  show "evolving d0 (snd (session_commit outcome s))"
  proof (cases r)
    case (Inl e)
    with f s1 show ?thesis by (simp add: session_commit_def)
  next
    case (Inr u)
    have "orders_evolve (orders_t (se_db s1)) (orders_t (view s1))" by (rule evolving_flush(2) [OF s f Inr])
    moreover have "keyed (orders_t (view s1))" using s1 by (auto simp: evolving_defs keyed_def map_add_Some_iff)
    ultimately have "evolving d0 (session_rollback (s1\<lparr>se_db := view s1\<rparr>))"
      using s1 orders_evolve_trans
      by (auto simp: evolving_defs updates_ok_def keyed_def [of Map.empty] simp del: view_simps(2)) (simp_all add: view_def)
    with f Inr evolving_rollback [OF s1] show ?thesis
      by (simp add: session_commit_def split: option.split)
  qed
qed

section \<open>The operations on orders\<close>

lemma order_updates_append [simp]: "order_updates (rs @ rs') = order_updates rs @ order_updates rs'"
  by (induction rs rule: order_updates.induct) simp_all

lemma order_updates_set: "y \<in> set (order_updates rs) \<longleftrightarrow> UpdateOrder y \<in> set rs"
  by (induction rs rule: order_updates.induct) auto

lemma pending_order_Some:
  "pending_order oid rs = Some y \<Longrightarrow> or_id y = oid \<and> (UpdateOrder y \<in> set rs \<or> InsertOrder y \<in> set rs)"
  by (induction rs) (auto split: option.splits row.splits if_splits)

lemma pending_order_None: "pending_order oid rs = None \<Longrightarrow> UpdateOrder y \<in> set rs \<Longrightarrow> or_id y \<noteq> oid"
  by (induction rs) (auto split: option.splits row.splits if_splits)

lemma evolving_add: "\<forall>x. r \<noteq> UpdateOrder x \<Longrightarrow> keeps (evolving d0) (session_add r)"
  by (cases r) (auto simp: keeps_def evolving_defs doomed_def)

lemma evolving_update_stock: "keeps (evolving d0) (update_stock M k P F)"
proof (rule keeps_snd)
  fix s assume "evolving d0 s"
  then have "evolving d0 (others_commit s)" by (rule evolving_others)
  then show "evolving d0 (snd (update_stock M k P F s))"
    by (auto simp: update_stock_def Let_def evolving_defs split: option.split)
qed

lemma evolving_status: "keeps (evolving d0) (update_order_status oid new)"
proof (rule keeps_snd)
  fix s assume "evolving d0 s"
  then have o: "evolving d0 (others_commit s)" by (rule evolving_others)
  let ?v = "orders_t (view (others_commit s))" and ?rs = "se_pending s"
  let ?L = "insert oid (se_locked_orders s)"
  have locked: "evolving d0 (order_locked oid s)"
    using o by (auto simp: order_locked_def evolving_defs updates_ok_def)
  show "evolving d0 (snd (update_order_status oid new s))"
  proof (cases "new \<in> {O_PAID, O_FAILED} \<and> ?v oid \<noteq> None")
    case False
    show ?thesis
    proof (cases "new \<in> {O_PAID, O_FAILED}")
      case True
      with False have "?v oid = None" by blast
      from update_missing [OF True this] o show ?thesis by simp
    qed (use \<open>evolving d0 s\<close> update_unsupported in simp)
  next
    case True
    then obtain row where row: "?v oid = Some row" and new: "new \<in> {O_PAID, O_FAILED}" by blast
    let ?x = "case pending_order oid ?rs of Some y \<Rightarrow> y | None \<Rightarrow> row"
    let ?x' = "?x\<lparr>or_status := new\<rparr>"
    have "evolving d0 ((order_locked oid s)\<lparr>se_pending := ?rs @ [UpdateOrder ?x']\<rparr>)"
      if t: "order_transition (or_status ?x) new"
    proof (cases "doomed ?v ?rs")
      case True
      then show ?thesis using locked by (auto simp: evolving_defs order_locked_def doomed_def)
    next
      case False
      have ok: "updates_ok (se_locked_orders s) ?v (order_updates ?rs)"
        using o False by (simp add: evolving_defs del: view_simps)
      have "pending_order oid ?rs = None"
      proof (rule ccontr)
        assume "pending_order oid ?rs \<noteq> None"
        then obtain y where y: "pending_order oid ?rs = Some y" by auto
        with pending_order_Some [OF y] False row have "y \<in> set (order_updates ?rs)"
          by (auto simp: doomed_def order_updates_set simp del: view_simps)
        with ok have "or_status y \<in> {O_PAID, O_FAILED}" by (auto simp: updates_ok_def simp del: view_simps)
        with t y show False by (auto elim: order_transition.cases)
      qed
      then have x: "?x = row" and fresh: "oid \<notin> or_id ` set (order_updates ?rs)"
        by (auto simp: order_updates_set dest: pending_order_None)
      have "or_id row = oid" using o row by (auto simp: evolving_defs keyed_def map_add_Some_iff)
      then have "updates_ok ?L ?v (order_updates (?rs @ [UpdateOrder (row\<lparr>or_status := new\<rparr>)]))"
        using ok row new fresh order_evolves_step [OF t [unfolded x]]
        by (auto simp: updates_ok_def simp del: view_simps)
      then show ?thesis
        using locked False x unfolding x
        by (auto simp: evolving_defs order_locked_def)
    qed
    with locked show ?thesis by (simp add: update_found [OF new row HOL.refl])
  qed
qed

lemma evolving_payment: "keeps (evolving d0) (change_payment pid new)"
proof -
  have locks: "evolving d0 (s\<lparr>se_locked_payments := L\<rparr>) \<longleftrightarrow> evolving d0 s" for s L
    by (simp add: evolving_defs)
  then have "keeps (evolving d0) (select_payment_for_update pid)" for pid
    by (intro keeps_snd) (simp add: select_payment_for_update_def Let_def evolving_others split: option.split)
  then show ?thesis
    unfolding change_payment_def by (intro inv_intros evolving_add) simp_all
qed

lemma service_row_order: "service_row C A r \<Longrightarrow> \<forall>x. r \<noteq> UpdateOrder x"
  by auto

interpretation life: session_invariant C A "evolving d0" for C A d0
  by unfold_locales
    (erule evolving_others evolving_rollback | rule evolving_commit evolving_update_stock evolving_status evolving_payment
      | erule evolving_add [OF service_row_order] | simp add: keeps_def evolving_flush(1) [OF _ prod.collapse [symmetric]] | simp add: evolving_defs)+

section \<open>Property\<close>

text \<open>
  C12: Orders only follow their lifecycle. Run any sequence of transactions of the program, each with any
  commits of others between its statements that respect the lifecycle themselves, any identifiers and
  clock, and a commit that succeeds or fails: every order committed at the start is still there under
  its key, with its owner, stock, quantity, version, total, currency and date of creation, and its
  status is reached from the old one by steps of the lifecycle. So no paid order ever becomes failed,
  no failed one paid, and none returns to reserved, in whatever order payment events arrive.
\<close>

theorem orders_follow_lifecycle:
  assumes "keyed (orders_t d)" and "list_all (\<lambda>tx. env_evolves (tx_env tx)) txs"
  shows "orders_evolve (orders_t d) (orders_t (fold (serve M C A schema) txs d))"
  using assms
proof (induction txs arbitrary: d)
  case (Cons tx txs)
  have "evolving d (new_session d (tx_env tx) (tx_now tx))"
    using Cons.prems by (simp add: evolving_start)
  then obtain s where s: "serve M C A schema tx d = se_db s" and "evolving d s" by (rule life.served)
  then have "keyed (orders_t (se_db s))" and step: "orders_evolve (orders_t d) (orders_t (se_db s))"
    by (simp_all add: evolving_defs)
  then have "orders_evolve (orders_t (se_db s)) (orders_t (fold (serve M C A schema) txs (se_db s)))"
    using Cons by simp
  with orders_evolve_trans [OF step] show ?case by (simp add: s)
qed simp

definition late_failure :: "transaction list" where
  "late_failure =
     [\<lparr>tx_call = Payment_Captured (payment_event captured_type), tx_env = [], tx_now = 5, tx_commit = None\<rparr>,
      \<lparr>tx_call = Payment_Failed (payment_event captured_type), tx_env = [], tx_now = 6, tx_commit = None\<rparr>]"

theorem orders_follow_lifecycle_witness:
  "orders_evolve (orders_t (order_book O_RESERVED))
     (orders_t (fold (serve orm_default json_codec clear_argon2 ''public'') late_failure (order_book O_RESERVED)))"
proof (rule orders_follow_lifecycle)
  show "keyed (orders_t (order_book O_RESERVED))" by (simp add: order_book_def keyed_def)
  show "list_all (\<lambda>tx. env_evolves (tx_env tx)) late_failure" by (simp add: late_failure_def env_evolves_def)
qed

end
