(* ===== verification/Payment_Lifecycle.thy ===== *)
theory Payment_Lifecycle
  imports Session_Invariants
begin

text \<open>
  The life of a payment across the whole program. Whatever transactions run and however they fail, a
  committed payment keeps its key, amount, currency and date and moves only along the table of allowed
  transitions. Several changes of one payment may be pending in one session, so the invariant follows
  the chain of its pending objects; it is an instance of \<open>session_invariant\<close>.
\<close>

section \<open>How a payment may change\<close>

definition payment_step :: "payment_status \<Rightarrow> payment_status \<Rightarrow> bool" where
  "payment_step a b \<longleftrightarrow> b \<in> set (allowed_transitions a)"

definition payment_evolves :: "payment \<Rightarrow> payment \<Rightarrow> bool" where
  "payment_evolves p q \<longleftrightarrow> payment_step\<^sup>*\<^sup>* (p_status p) (p_status q)
     \<and> q\<lparr>p_status := p_status p, p_updated_at := p_updated_at p\<rparr> = p"

definition payments_evolve :: "(uuid \<Rightarrow> payment option) \<Rightarrow> (uuid \<Rightarrow> payment option) \<Rightarrow> bool" where
  "payments_evolve t t' \<longleftrightarrow> (\<forall>k p. t k = Some p \<longrightarrow> (\<exists>q. t' k = Some q \<and> payment_evolves p q))"

definition keyed_payments :: "(uuid \<Rightarrow> payment option) \<Rightarrow> bool" where
  "keyed_payments t \<longleftrightarrow> (\<forall>k p. t k = Some p \<longrightarrow> p_id p = k)"

definition env_payments :: "(db \<Rightarrow> db) list \<Rightarrow> bool" where
  "env_payments env \<longleftrightarrow> (\<forall>f\<in>set env. \<forall>d. keyed_payments (payments_t d) \<longrightarrow>
     keyed_payments (payments_t (f d)) \<and> payments_evolve (payments_t d) (payments_t (f d)))"

lemma payment_evolves_refl [simp]: "payment_evolves p p"
  by (simp add: payment_evolves_def)

lemma payment_evolves_trans: "payment_evolves p q \<Longrightarrow> payment_evolves q r \<Longrightarrow> payment_evolves p r"
  by (cases p; cases q; cases r) (auto simp: payment_evolves_def)

lemma payment_evolves_updated [simp]:
  "payment_evolves p (q\<lparr>p_updated_at := t\<rparr>) \<longleftrightarrow> payment_evolves p q"
  "payment_evolves (p\<lparr>p_updated_at := t\<rparr>) q \<longleftrightarrow> payment_evolves p q"
  by (cases p; cases q; auto simp: payment_evolves_def)+

lemma payment_evolves_step: "payment_step (p_status p) new \<Longrightarrow> payment_evolves p (p\<lparr>p_status := new\<rparr>)"
  by (cases p) (auto simp: payment_evolves_def)

lemma payments_evolve_refl [simp]: "payments_evolve t t"
  by (simp add: payments_evolve_def)

lemma payments_evolve_trans: "payments_evolve t u \<Longrightarrow> payments_evolve u v \<Longrightarrow> payments_evolve t v"
  unfolding payments_evolve_def by (meson payment_evolves_trans)

section \<open>The pending changes\<close>

text \<open>The pending objects, in the order of the flush: each is locked and evolves from what it replaces.\<close>

fun chain :: "uuid set \<Rightarrow> (uuid \<Rightarrow> payment option) \<Rightarrow> row list \<Rightarrow> bool" where
  "chain locked t [] = True"
| "chain locked t (UpdatePayment p # rs) =
     (p_id p \<in> locked \<and> (\<exists>x. t (p_id p) = Some x \<and> payment_evolves x p) \<and> chain locked (t(p_id p \<mapsto> p)) rs)"
| "chain locked t (_ # rs) = chain locked t rs"

text \<open>Two tables that agree on the locked rows up to the time of the update.\<close>

definition same_locked :: "uuid set \<Rightarrow> (uuid \<Rightarrow> payment option) \<Rightarrow> (uuid \<Rightarrow> payment option) \<Rightarrow> bool" where
  "same_locked locked t t' \<longleftrightarrow> (\<forall>k\<in>locked. \<forall>p. t k = Some p \<longrightarrow> (\<exists>n. t' k = Some (p\<lparr>p_updated_at := n\<rparr>)))"

lemma same_locked_update:
  "same_locked locked t t' \<Longrightarrow> p = q\<lparr>p_updated_at := n\<rparr> \<Longrightarrow> same_locked locked (t(k \<mapsto> q)) (t'(k \<mapsto> p))"
  by (auto simp: same_locked_def)

lemma chain_cong: "chain locked t rs \<Longrightarrow> same_locked locked t t' \<Longrightarrow> locked \<subseteq> locked' \<Longrightarrow> chain locked' t' rs"
proof (induction locked t rs arbitrary: t' rule: chain.induct)
  case (2 locked t p rs)
  have "same_locked locked (t(p_id p \<mapsto> p)) (t'(p_id p \<mapsto> p))"
    by (rule same_locked_update [OF "2.prems"(2), where n = "p_updated_at p"]) simp
  with "2.IH" "2.prems" show ?case by (fastforce simp: same_locked_def)
qed simp_all

lemma chain_tail: "chain locked t (r # rs) \<Longrightarrow> \<forall>p. r \<noteq> UpdatePayment p \<Longrightarrow> chain locked t rs"
  by (cases r) simp_all

lemma chain_append_other: "chain locked t rs \<Longrightarrow> \<forall>p. r \<noteq> UpdatePayment p \<Longrightarrow> chain locked t (rs @ [r])"
  by (induction locked t rs rule: chain.induct; cases r) simp_all

text \<open>The object a SELECT returns is the last link of the chain.\<close>

lemma chain_append:
  assumes "chain locked t rs" and "k \<in> locked" and "t k = Some x0"
    and "x = (case pending_payment k rs of Some p \<Rightarrow> p | None \<Rightarrow> x0)"
    and "payment_evolves x q" and "p_id q = k"
  shows "chain locked t (rs @ [UpdatePayment q])"
  using assms(1-4)
proof (induction locked t rs arbitrary: x0 rule: chain.induct)
  case (1 locked t)
  then show ?case using assms(5,6) by simp
next
  case (2 locked t p rs)
  show ?case
  proof (cases "p_id p = k")
    case True
    with "2.prems" have "x = (case pending_payment k rs of Some p \<Rightarrow> p | None \<Rightarrow> p)"
      by (simp split: option.splits)
    moreover have "(t(p_id p \<mapsto> p)) k = Some p" using True by simp
    ultimately have "chain locked (t(p_id p \<mapsto> p)) (rs @ [UpdatePayment q])"
      using "2.IH" [of p] "2.prems"(1,2) by (simp add: fun_upd_def)
    then show ?thesis using "2.prems"(1) by simp
  next
    case False
    with "2.prems" have "x = (case pending_payment k rs of Some p \<Rightarrow> p | None \<Rightarrow> x0)"
      by (simp split: option.splits)
    with "2.IH" [of x0] "2.prems" False show ?thesis by (simp add: fun_upd_def)
  qed
qed (simp_all split: option.splits)

section \<open>The invariant of a session\<close>

definition paying_rows :: "db \<Rightarrow> row list \<Rightarrow> session \<Rightarrow> bool" where
  "paying_rows d0 rs s \<longleftrightarrow> env_payments (se_env s)
     \<and> keyed_payments (payments_t (se_db s)) \<and> keyed_payments (payments_t (se_writes s))
     \<and> payments_evolve (payments_t d0) (payments_t (se_db s))
     \<and> payments_evolve (payments_t (se_db s)) (payments_t (view s))
     \<and> chain (se_locked_payments s) (payments_t (view s)) rs"

definition paying :: "db \<Rightarrow> session \<Rightarrow> bool" where
  "paying d0 s \<longleftrightarrow> paying_rows d0 (se_pending s) s"

lemmas paying_defs = paying_def paying_rows_def

lemma same_locked_refl [simp]: "same_locked locked t t"
proof -
  have "p = p\<lparr>p_updated_at := p_updated_at p\<rparr>" for p :: payment by simp
  then show ?thesis unfolding same_locked_def by metis
qed

lemma same_locked_eq: "(\<And>k. k \<in> locked \<Longrightarrow> t' k = t k) \<Longrightarrow> same_locked locked t t'"
  using same_locked_refl [of locked t] unfolding same_locked_def by metis

lemma paying_start: "keyed_payments (payments_t d) \<Longrightarrow> env_payments env \<Longrightarrow> paying d (new_session d env now)"
  by (simp add: paying_defs keyed_payments_def)

lemma paying_rollback: "paying d0 s \<Longrightarrow> paying d0 (session_rollback s)"
  by (simp add: paying_defs keyed_payments_def)

lemma paying_others:
  assumes "paying d0 s"
  shows "paying d0 (others_commit s)"
proof (cases "se_env s")
  case Nil
  with assms show ?thesis by simp
next
  case (Cons f fs)
  let ?old = "payments_t (se_db s)" and ?w = "payments_t (se_writes s)"
  let ?held = "dom ?w \<union> se_locked_payments s"
  let ?new = "keep_rows ?held ?old (payments_t (f (se_db s)))"
  have s: "payments_t (se_db (others_commit s)) = ?new" "se_env (others_commit s) = fs"
    "payments_t (view (others_commit s)) = ?new ++ ?w"
    using Cons by (simp_all add: others_commit_def Let_def)
  have f: "keyed_payments (payments_t (f (se_db s)))" "payments_evolve ?old (payments_t (f (se_db s)))" "env_payments fs"
    and old: "payments_evolve ?old (?old ++ ?w)"
    using assms Cons by (auto simp: paying_defs env_payments_def)
  have "keyed_payments ?new" using assms f(1) by (simp add: paying_defs keyed_payments_def keep_rows_def)
  moreover have step: "payments_evolve ?old ?new" using f(2) by (auto simp: payments_evolve_def keep_rows_def)
  moreover have "payments_evolve ?new (?new ++ ?w)"
    unfolding payments_evolve_def
  proof (intro allI impI)
    fix k x assume x: "?new k = Some x"
    show "\<exists>y. (?new ++ ?w) k = Some y \<and> payment_evolves x y"
    proof (cases "?w k")
      case None
      with x show ?thesis by (simp add: map_add_def)
    next
      case (Some y)
      with x have "?old k = Some x" by (simp add: keep_rows_def domIff)
      with old Some show ?thesis by (fastforce simp: payments_evolve_def)
    qed
  qed
  moreover have "(?new ++ ?w) k = (?old ++ ?w) k" if "k \<in> se_locked_payments s" for k
    using that by (simp add: map_add_def keep_rows_def split: option.splits)
  then have "chain (se_locked_payments s) (?new ++ ?w) (se_pending s)"
    using assms chain_cong [OF _ same_locked_eq order_refl] by (fastforce simp: paying_defs)
  ultimately show ?thesis
    using assms s f(3) payments_evolve_trans [OF _ step] by (simp add: paying_defs)
qed

lemma paying_flush_row:
  assumes "paying_rows d0 (r # rs) s" and "flush_row r s = Inr s'"
  shows "paying_rows d0 rs s'"
proof (cases "\<exists>p. r = UpdatePayment p")
  case False
  then have "se_db s' = se_db s" "se_env s' = se_env s" "se_locked_payments s' = se_locked_payments s"
    "payments_t (se_writes s') = payments_t (se_writes s)"
    using assms(2) by (auto simp: flush_row_def Let_def split: row.splits if_splits)
  moreover have "chain (se_locked_payments s) (payments_t (view s)) rs"
    by (rule chain_tail) (use assms(1) False in \<open>simp_all add: paying_rows_def\<close>)
  ultimately show ?thesis using assms(1) by (simp add: paying_rows_def)
next
  case True
  then obtain p where p: "r = UpdatePayment p" by blast
  let ?q = "p\<lparr>p_updated_at := se_now s\<rparr>" and ?v = "payments_t (view s)" and ?db = "payments_t (se_db s)"
  have s': "s' = s\<lparr>se_writes := (se_writes s)\<lparr>payments_t := (payments_t (se_writes s))(p_id p \<mapsto> ?q)\<rparr>\<rparr>"
    using assms(2) p by (auto simp: flush_row_def Let_def split: if_splits)
  have c: "\<exists>x. ?v (p_id p) = Some x \<and> payment_evolves x p" "chain (se_locked_payments s) (?v(p_id p \<mapsto> p)) rs"
    using assms(1) p by (simp_all add: paying_rows_def del: view_simps)
  have "payments_evolve ?v (?v(p_id p \<mapsto> ?q))"
    using c(1) by (auto simp: payments_evolve_def simp del: view_simps)
  moreover have "payments_evolve ?db ?v" using assms(1) by (simp add: paying_rows_def)
  ultimately have "payments_evolve ?db (?v(p_id p \<mapsto> ?q))" by (rule payments_evolve_trans [rotated])
  moreover have "chain (se_locked_payments s) (?v(p_id p \<mapsto> ?q)) rs"
    by (rule chain_cong [OF c(2) same_locked_update [OF same_locked_refl HOL.refl]]) simp
  ultimately show ?thesis using assms(1) s' by (simp add: paying_rows_def keyed_payments_def)
qed

lemma paying_flush_rows: "paying_rows d0 rs s \<Longrightarrow> flush_rows rs s = Inr s' \<Longrightarrow> paying_rows d0 [] s'"
  by (induction rs arbitrary: s) (auto split: sum.splits dest: paying_flush_row)

lemma paying_flush: "keeps (paying d0) session_flush"
proof (rule keeps_snd)
  fix s assume "paying d0 s"
  then have o: "paying d0 (others_commit s)" by (rule paying_others)
  show "paying d0 (snd (session_flush s))"
  proof (cases "flush_rows (se_pending s) (others_commit s)")
    case (Inl e)
    with o show ?thesis by (simp add: session_flush_def Let_def paying_rollback)
  next
    case (Inr s1)
    then have "paying_rows d0 [] s1" using paying_flush_rows [OF _ Inr] o by (simp add: paying_def)
    with Inr show ?thesis by (simp add: session_flush_def Let_def paying_defs)
  qed
qed

lemma paying_commit: "keeps (paying d0) (session_commit outcome)"
  unfolding session_commit_def
proof (rule keeps_seq [OF paying_flush])
  fix u
  show "keeps (paying d0) (\<lambda>s. case outcome of Some e \<Rightarrow> (Inl e, session_rollback s)
      | None \<Rightarrow> (Inr (), session_rollback (s\<lparr>se_db := view s\<rparr>)))"
  proof (rule keeps_snd)
    fix s assume s: "paying d0 s"
    then have "payments_evolve (payments_t d0) (payments_t (view s))"
      using payments_evolve_trans unfolding paying_defs by blast
    with s have "paying d0 (session_rollback (s\<lparr>se_db := view s\<rparr>))"
      by (auto simp: paying_defs keyed_payments_def map_add_Some_iff)
    with s show "paying d0 (snd (case outcome of Some e \<Rightarrow> (Inl e, session_rollback s)
        | None \<Rightarrow> (Inr (), session_rollback (s\<lparr>se_db := view s\<rparr>))))"
      by (simp add: paying_rollback split: option.split)
  qed
qed

section \<open>The operations\<close>

lemma paying_add: "\<forall>p. r \<noteq> UpdatePayment p \<Longrightarrow> keeps (paying d0) (session_add r)"
  by (rule keeps_snd) (auto simp: paying_defs intro: chain_append_other)

lemma paying_update_stock: "keeps (paying d0) (update_stock M k P F)"
proof (rule keeps_snd)
  fix s assume "paying d0 s"
  then have "paying d0 (others_commit s)" by (rule paying_others)
  then show "paying d0 (snd (update_stock M k P F s))"
    by (auto simp: update_stock_def Let_def paying_defs split: option.split)
qed

lemma paying_update_order: "keeps (paying d0) (session_add (UpdateOrder x))"
  by (rule keeps_snd) (auto simp: paying_defs intro: chain_append_other)

lemma paying_status: "keeps (paying d0) (update_order_status oid new)"
proof -
  have "keeps (paying d0) (select_order_for_update oid)"
  proof (rule keeps_snd)
    fix s assume "paying d0 s"
    then have "paying d0 (others_commit s)" by (rule paying_others)
    then show "paying d0 (snd (select_order_for_update oid s))"
      by (auto simp: select_order_for_update_def Let_def paying_defs split: option.split)
  qed
  then show ?thesis
    unfolding update_order_status_def Let_def by (intro inv_intros paying_update_order)
qed

lemma paying_change_payment: "keeps (paying d0) (change_payment pid new)"
proof (rule keeps_snd)
  fix s assume "paying d0 s"
  then have o: "paying d0 (others_commit s)" by (rule paying_others)
  let ?s = "others_commit s"
  let ?v = "payments_t (view ?s)" and ?L = "insert pid (se_locked_payments ?s)"
  show "paying d0 (snd (change_payment pid new s))"
  proof (cases "?v pid")
    case None
    with o show ?thesis
      by (simp add: change_payment_def select_payment_for_update_def seq_def Let_def del: view_simps)
  next
    case (Some row)
    let ?p = "case pending_payment pid (se_pending ?s) of Some p \<Rightarrow> p | None \<Rightarrow> row"
    have id: "p_id ?p = pid"
      using o Some pending_payment_p_id by (auto simp: paying_defs keyed_payments_def map_add_Some_iff split: option.splits)
    have c: "chain ?L ?v (se_pending ?s)"
      using o chain_cong [OF _ same_locked_refl subset_insertI] by (simp add: paying_defs del: view_simps)
    then have locked: "paying d0 (?s\<lparr>se_locked_payments := ?L\<rparr>)"
      using o by (simp add: paying_defs)
    have "chain ?L ?v (se_pending ?s @ [UpdatePayment (?p\<lparr>p_status := new\<rparr>)])"
      if "validate_transition (p_status ?p) new = Inr u" for u
    proof (rule chain_append [OF c _ Some HOL.refl])
      show "payment_evolves ?p (?p\<lparr>p_status := new\<rparr>)"
        by (rule payment_evolves_step) (use that in \<open>auto simp: validate_transition_def payment_step_def split: if_splits\<close>)
    qed (use id in simp_all)
    moreover have "view (?s\<lparr>se_locked_payments := ?L\<rparr>) = view ?s" by simp
    ultimately show ?thesis using locked Some
      by (auto simp: change_payment_def select_payment_for_update_def seq_def Let_def paying_defs
          simp del: view_simps split: sum.split)
  qed
qed

lemma service_row_payment: "service_row C A r \<Longrightarrow> \<forall>p. r \<noteq> UpdatePayment p"
  by auto

interpretation pay: session_invariant C A "paying d0" for C A d0
  by unfold_locales
    (erule paying_others paying_rollback paying_add [OF service_row_payment] | rule paying_flush paying_commit paying_update_stock paying_status
      paying_change_payment | simp add: paying_defs)+

section \<open>Property\<close>

text \<open>
  C13: Payments only follow their table of transitions. Run any sequence of transactions of the program,
  each with any commits of others between its statements that respect the table themselves, any
  identifiers and clock, and a commit that succeeds or fails: every payment committed at the start is
  still there under its key, with its amount, currency and date of creation, and its status
  is reached from the old one by allowed transitions. So no settled, refunded, failed or declined payment
  ever changes its status again, and no requests together settle a payment that was not captured.
\<close>

theorem payments_follow_lifecycle:
  assumes "keyed_payments (payments_t d)" and "list_all (\<lambda>tx. env_payments (tx_env tx)) txs"
  shows "payments_evolve (payments_t d) (payments_t (fold (serve M C A schema) txs d))"
  using assms
proof (induction txs arbitrary: d)
  case (Cons tx txs)
  have "paying d (new_session d (tx_env tx) (tx_now tx))"
    using Cons.prems by (simp add: paying_start)
  then obtain s where s: "serve M C A schema tx d = se_db s" and "paying d s" by (rule pay.served)
  then have "keyed_payments (payments_t (se_db s))" and step: "payments_evolve (payments_t d) (payments_t (se_db s))"
    by (simp_all add: paying_defs)
  then have "payments_evolve (payments_t (se_db s)) (payments_t (fold (serve M C A schema) txs (se_db s)))"
    using Cons by simp
  with payments_evolve_trans [OF step] show ?case by (simp add: s)
qed simp

definition capture_then_settle :: "transaction list" where
  "capture_then_settle =
     [\<lparr>tx_call = Process_Payment demo_event_io capture_request, tx_env = [], tx_now = 5, tx_commit = None\<rparr>,
      \<lparr>tx_call = Process_Payment demo_event_io (capture_request\<lparr>pp_new_status := P_SETTLED\<rparr>),
         tx_env = [], tx_now = 6, tx_commit = None\<rparr>]"

theorem payments_follow_lifecycle_witness:
  "payments_evolve (payments_t (se_db (one_payment P_AUTHORIZED)))
     (payments_t (fold (serve orm_default json_codec clear_argon2 ''public'') capture_then_settle
        (se_db (one_payment P_AUTHORIZED))))"
proof (rule payments_follow_lifecycle)
  show "keyed_payments (payments_t (se_db (one_payment P_AUTHORIZED)))"
    by (simp add: one_payment_def new_session_def keyed_payments_def)
  show "list_all (\<lambda>tx. env_payments (tx_env tx)) capture_then_settle"
    by (simp add: capture_then_settle_def env_payments_def)
qed

end
