(* ===== verification/Stale_Objects.thy ===== *)
theory Stale_Objects
  imports Orders
begin

text \<open>
  What the object layer does to an order. The session keeps one \<open>Stock\<close> object per row: a second
  SELECT does not refresh it, and an UPDATE is evaluated on it in memory, also when the database
  finds no row to update. \<open>place_order\<close> and \<open>reserve\<close> read that object where they mean the row.
\<close>

text \<open>
  C37: The order records a version the stock row does not have. \<open>reserve\<close> adds one to the version of the
  object it read before the UPDATE, but the UPDATE has already been evaluated on that object: with the
  default settings of the object layer, an undisturbed order stores the version of the row plus two,
  while the row it took its units from moves on by one.
\<close>

theorem order_version_runs_ahead:
  assumes "place_order orm_default C io req s = (Inr out, s')"
    and "se_env s = []" and "se_pending s = []" and "se_stock_objs s = Map.empty"
    and "stock_t (view s) (po_stock_id req) = Some row" and "stock_checks row" and "stock_columns_ok row"
    and "0 < po_quantity req" and "po_quantity req \<le> st_available row" and "int32_ok (st_version row + 1)"
  shows "or_expected_version (pr_order out) = st_version row + 2
    \<and> map_option st_version (stock_t (view s') (po_stock_id req)) = Some (st_version row + 1)"
proof -
  obtain y s2 where p: "place_order orm_default C io req s = finish_order C io req
      \<lparr>new_version = st_version y + 1, new_available = st_available y - po_quantity req\<rparr> y s2"
    and y: "y = orm_sync orm_default (reserve_where (reserve_request_of req row))
      (reserve_values (reserve_request_of req row)) row"
    and pend: "se_pending s2 = []"
    using undisturbed_attempt [OF orm_ok_instances(1) assms(2-10)] by metis
  have "reserve_where (reserve_request_of req row) row"
    using assms(9) by (simp add: reserve_where_def reserve_request_of_def)
  then have "st_version y = st_version row + 1"
    by (simp add: y orm_default_def reserve_values_def)
  moreover have "or_expected_version (pr_order out) = st_version y + 1"
    by (rule finish_order_InrE [OF assms(1) [unfolded p] pend]) (simp add: make_order_def)
  ultimately have "or_expected_version (pr_order out) = st_version row + 2" by simp
  moreover have "map_option st_version (stock_t (view s') (po_stock_id req)) = Some (st_version row + 1)"
  proof -
    from place_order_success [OF assms(1,3)] obtain k row' where
      row': "stock_t (view ((others_commit ^^ k) s)) (po_stock_id req) = Some row'"
      and w: "order_written C io req s row' out s'" by metis
    have "(others_commit ^^ k) s = s"
      using assms(2) by (induction k) (simp_all add: others_commit_def)
    with row' assms(5) have "row' = row" by simp
    with w show ?thesis by (simp add: order_written_def)
  qed
  ultimately show ?thesis by simp
qed

theorem order_version_runs_ahead_witness:
  "or_expected_version (pr_order (projr (fst (demo_order 2)))) = 3
    \<and> map_option st_version (stock_t (view (snd (demo_order 2))) 4) = Some 2"
  using order_version_runs_ahead [OF demo_order_ok [unfolded demo_order_def], of "the (stock_t (shelf 5 1) 4)"]
  by (simp add: demo_order_def shelf_def buy_def stock_checks_def stock_columns_ok_def int32_ok_def)

text \<open>The statements of one attempt that loses the race, on the default settings.\<close>

lemma lost_race_object:
  assumes "stock_t (view s) k = Some row" and "se_stock_objs s k = None"
    and "se_env s = [\<lambda>d. d, \<lambda>d. d, g]" and "se_writes s = empty_db"
    and "req = \<lparr>rq_stock_id = k, rq_quantity = q, rq_expected_version = st_version row\<rparr>"
    and "0 < q" and "q \<le> st_available row"
    and "stock_t (g (se_db s)) k = Some row'" and "st_version row' \<noteq> st_version row"
  obtains s1 s2 where "get_stock orm_default k s = (Inr row, s1)"
    and "reserve orm_default req s1 = (Inl (race_error req), s2)"
    and "se_stock_objs s2 k = Some (reserve_values req row)"
    and "se_env s2 = []" and "stock_t (view s2) k = Some row'" and "se_writes s2 = empty_db"
proof -
  let ?s1 = "s\<lparr>se_env := [\<lambda>d. d, g], se_stock_objs := (se_stock_objs s)(k \<mapsto> row)\<rparr>"
  let ?s2 = "?s1\<lparr>se_env := [g]\<rparr>"
  have same: "others_commit t = t\<lparr>se_env := fs\<rparr>" if "se_env t = (\<lambda>d. d) # fs" for t fs
    using that by (simp add: others_commit_def keep_rows_def Let_def)
  have row: "stock_t (se_db s) k = Some row" using assms(1,4) by simp
  have g: "get_stock orm_default k s = (Inr row, ?s1)"
    using assms(2-4) row by (simp add: get_stock_def read_stock_def seq_def same Let_def)
  have r: "read_stock orm_default k ?s1 = (Inr (Some row), ?s2)"
    using assms(4) row by (simp add: read_stock_def same Let_def orm_default_def)
  let ?s3 = "others_commit ?s2"
  have db3: "stock_t (se_db ?s3) k = Some row'" and s3: "se_writes ?s3 = empty_db" "se_env ?s3 = []"
      "se_stock_objs ?s3 = se_stock_objs ?s2"
    using assms(4,8) by (simp_all add: others_commit_def keep_rows_def Let_def)
  let ?s4 = "?s3\<lparr>se_stock_objs := (se_stock_objs ?s3)(k := Some (reserve_values req row))\<rparr>"
  have "reserve_where req row" "\<not> reserve_where req row'"
    using assms(5,7,9) by (simp_all add: reserve_where_def)
  then have u: "update_stock orm_default k (reserve_where req) (reserve_values req) ?s2 = (Inr 0, ?s4)"
    using db3 s3 by (simp add: update_stock_def Let_def orm_default_def)
  have "reserve orm_default req ?s1 = (Inl (race_error req), ?s4)"
    using r u assms(5-7) by (simp add: reserve_def seq_def)
  then show thesis using g db3 s3 by (intro that [of ?s1 ?s4]) simp_all
qed

text \<open>
  C38: A lost race can end in a false out-of-stock. When another transaction changes the version of the row
  between the check and the UPDATE, the UPDATE hits no row, but it has been evaluated on the session's
  object, which now lacks the ordered quantity. The retry reads that object again: if the row had less
  than twice the quantity, the order is refused as out of stock, whatever the row has by then.
\<close>

theorem lost_race_reported_out_of_stock:
  assumes "se_env s = [\<lambda>d. d, \<lambda>d. d, \<lambda>d. d, g]" and "se_pending s = []" and "se_stock_objs s = Map.empty"
    and "se_writes s = empty_db"
    and "stock_t (se_db s) (po_stock_id req) = Some row"
    and "0 < po_quantity req" and "po_quantity req \<le> st_available row"
    and "st_available row < 2 * po_quantity req"
    and "stock_t (g (se_db s)) (po_stock_id req) = Some row'" and "st_version row' \<noteq> st_version row"
  shows "\<exists>s' e. place_order orm_default C io req s = (Inl e, s') \<and> exc_isinstance e OutOfStockError
    \<and> stock_t (view s') (po_stock_id req) = Some row'"
proof -
  let ?k = "po_stock_id req" and ?q = "po_quantity req"
  let ?r = "\<lparr>rq_stock_id = ?k, rq_quantity = ?q, rq_expected_version = st_version row\<rparr>"
  let ?s0 = "others_commit s"
  have s0: "se_env ?s0 = [\<lambda>d. d, \<lambda>d. d, g]" "se_writes ?s0 = empty_db" "se_stock_objs ?s0 = Map.empty"
    "se_db ?s0 = se_db s"
    using assms(1,3,4) by (simp_all add: others_commit_def keep_rows_def Let_def)
  obtain s1 s2 where g: "get_stock orm_default ?k ?s0 = (Inr row, s1)"
    and r: "reserve orm_default ?r s1 = (Inl (race_error ?r), s2)"
    and obj: "se_stock_objs s2 ?k = Some (reserve_values ?r row)" and s2: "se_env s2 = []"
      "stock_t (view s2) ?k = Some row'" "se_writes s2 = empty_db"
    by (rule lost_race_object [of ?s0 ?k row g ?r ?q row']) (use assms s0 in simp_all)
  let ?y = "reserve_values ?r row"
  let ?r2 = "\<lparr>rq_stock_id = ?k, rq_quantity = ?q, rq_expected_version = st_version ?y\<rparr>"
  have quiet: "others_commit t = t" if "se_env t = []" for t using that by (simp add: others_commit_def)
  have rd: "read_stock orm_default ?k s2 = (Inr (Some ?y), s2)"
    using s2 obj by (simp add: read_stock_def quiet Let_def orm_default_def fun_upd_idem del: view_simps)
  have g2: "get_stock orm_default ?k s2 = (Inr ?y, s2)" using rd by (simp add: get_stock_def seq_def)
  have "st_available ?y < ?q" using assms(8) by (simp add: reserve_values_def)
  then have r2: "reserve orm_default ?r2 s2 = (Inl (out_of_stock_error ?r2 ?y), s2)"
    using rd assms(6) by (simp add: reserve_def seq_def)
  have "exc_isinstance (race_error ?r) ConcurrentUpdateError"
    "\<not> exc_isinstance (out_of_stock_error ?r2 ?y) ConcurrentUpdateError"
    "exc_isinstance (out_of_stock_error ?r2 ?y) OutOfStockError"
    by (simp_all add: race_error_def out_of_stock_error_def nimbus_error_def is_subclass.simps)
  with place_order_unfold [OF assms(6), of orm_default C io s] g r g2 r2 s2(2) show ?thesis
    by (simp add: MAX_RESERVE_RETRIES_def numeral_3_eq_3 seq_def)
qed

definition price_change :: "db \<Rightarrow> db" where
  "price_change d = d\<lparr>stock_t := (stock_t d)(4 \<mapsto> (the (stock_t (shelf 5 2) 4))\<lparr>st_price_minor_units := 300\<rparr>)\<rparr>"

theorem lost_race_reported_out_of_stock_witness:
  "\<exists>s' e. place_order orm_default json_codec demo_place_io (buy 3)
      (new_session (shelf 5 1) [\<lambda>d. d, \<lambda>d. d, \<lambda>d. d, price_change] 9) = (Inl e, s')
    \<and> exc_isinstance e OutOfStockError \<and> map_option st_available (stock_t (view s') 4) = Some 5"
proof -
  have "\<exists>s' e. place_order orm_default json_codec demo_place_io (buy 3)
      (new_session (shelf 5 1) [\<lambda>d. d, \<lambda>d. d, \<lambda>d. d, price_change] 9) = (Inl e, s')
    \<and> exc_isinstance e OutOfStockError
    \<and> stock_t (view s') (po_stock_id (buy 3)) = Some (the (stock_t (price_change (shelf 5 1)) 4))"
    by (rule lost_race_reported_out_of_stock [where row = "the (stock_t (shelf 5 1) 4)" and g = price_change])
      (simp_all add: shelf_def buy_def price_change_def)
  then show ?thesis by (auto simp: buy_def price_change_def shelf_def simp del: view_simps)
qed

end
