(* ===== verification/Consumer_Run.thy ===== *)
theory Consumer_Run
  imports Order_Consumer
begin

text \<open>
  A whole run of the consumer task: \<open>KafkaConsumer._run_forever\<close> of \<open>src/core/consumer.py\<close>. The
  task connects once, then polls until the stop event is set; an error of a poll is logged and the
  loop goes on, an error of the connection ends the task, and so does a cancellation, wherever it
  strikes. What a run does to the tables is the fold
  of the handlers over the messages the dedupe check admits, and while the dedupe keys live no
  content hash is admitted twice.
\<close>

section \<open>The task\<close>

text \<open>
  Where a cancellation can strike a turn: while it waits for \<open>getmany\<close> (or sleeps after an error, which
  leaves the same state), while it handles the record with the given index, or while it commits the
  offsets, which the broker may or may not have stored. Within a message there are three places: the
  dedupe request, which Redis may or may not have executed; the handler or the commit before it reaches
  the database, when the session closes without a commit; and the wait for the reply to the commit.
  What other transactions commit during a handler that is cut off belongs to the time after the run.
\<close>

datatype message_cut = Cut_Check bool | Cut_Handler | Cut_Reply

datatype poll_cut = Cut_Poll | Cut_Message nat message_cut | Cut_Offsets bool

text \<open>
  One turn of the loop, as the outside decides it: whether the stop event is set when the condition
  is tested, what \<open>getmany\<close> raises or returns, what the offset commit raises, and whether the task is
  cancelled.
\<close>

record 'w poll_io =
  pl_stop :: bool
  pl_polled :: "exc + (topic_partition \<times> msg_io \<times> 'w consumer_record) list"
  pl_commit_error :: "exc option"
  pl_cut :: "poll_cut option"

type_synonym 'r world = "(topic_partition \<Rightarrow> int option) \<times> ((breaker \<times> 'r) \<times> db)"

text \<open>
  The state a cancelled message leaves. \<open>AsyncCircuitBreaker.call\<close> counts neither a success nor a
  failure for a cancelled request.
\<close>

definition cut_message ::
    "'r redis_ops \<Rightarrow> 'w codec \<Rightarrow> string \<Rightarrow> handlers \<Rightarrow> consumer \<Rightarrow> message_cut \<Rightarrow> msg_io \<Rightarrow> 'w consumer_record
     \<Rightarrow> (breaker \<times> 'r) \<times> db \<Rightarrow> (breaker \<times> 'r) \<times> db" where
  "cut_message R C prefix hs c place io msg w =
     (case place of
        Cut_Check executed \<Rightarrow>
          (case (if co_dedupe c then rec_value msg else None) of
             None \<Rightarrow> w
           | Some value \<Rightarrow>
               (case cd_from_bytes C value of
                  Inl e \<Rightarrow> w
                | Inr env \<Rightarrow>
                    let b = maybe_transition_to_half_open (io_mono (mi_redis io)) (fst (fst w)); r = snd (fst w) in
                    ((b, if executed \<and> br_state b \<noteq> Open
                         then snd (rd_set R (io_now (mi_redis io)) (dedupe_key prefix (content_hash C env)) ''1''
                                (Some dedupe_default_ttl) True r)
                         else r), snd w)))
      | Cut_Handler \<Rightarrow> (fst (snd (handle_message R C prefix hs c io msg w)), snd w)
      | Cut_Reply \<Rightarrow> snd (handle_message R C prefix hs c io msg w))"

definition cut_poll ::
    "'r redis_ops \<Rightarrow> 'w codec \<Rightarrow> string \<Rightarrow> handlers \<Rightarrow> consumer \<Rightarrow> poll_cut
     \<Rightarrow> exc + (topic_partition \<times> msg_io \<times> 'w consumer_record) list \<Rightarrow> 'r world \<Rightarrow> 'r world" where
  "cut_poll R C prefix hs c place polled st =
     (case (if co_consumer c then polled else Inr []) of
        Inl e \<Rightarrow> st
      | Inr records \<Rightarrow>
          (case place of
             Cut_Poll \<Rightarrow> st
           | Cut_Message n how \<Rightarrow>
               let w = snd (dispatch R C prefix hs c (take n records) Map.empty (snd st)) in
               (fst st, case drop n records of [] \<Rightarrow> w | (tp, io, msg) # rest \<Rightarrow> cut_message R C prefix hs c how io msg w)
           | Cut_Offsets stored \<Rightarrow>
               (case dispatch R C prefix hs c records Map.empty (snd st) of (committed, w) \<Rightarrow>
                  (if stored then fst st ++ committed else fst st, w))))"

text \<open>
  The turns observed so far; a run that is neither stopped nor cancelled ends with the list. An
  \<open>Exception\<close> of a poll is logged; \<open>CancelledError\<close> is raised again, by the loop and by the task.
\<close>

fun poll_loop ::
    "'r redis_ops \<Rightarrow> 'w codec \<Rightarrow> string \<Rightarrow> handlers \<Rightarrow> consumer \<Rightarrow> 'w poll_io list \<Rightarrow> ('r world, raised, unit) comp" where
  "poll_loop R C prefix hs c [] st = (Inr (), st)"
| "poll_loop R C prefix hs c (p # ps) st =
     (if pl_stop p then (Inr (), st)
      else case pl_cut p of
        Some place \<Rightarrow> (Inl CancelledError, cut_poll R C prefix hs c place (pl_polled p) st)
      | None \<Rightarrow>
          (case poll_and_dispatch R C prefix hs c (pl_polled p) (pl_commit_error p) st of
             (Inl e, st') \<Rightarrow> poll_loop R C prefix hs c ps st'
           | (Inr _, st') \<Rightarrow> poll_loop R C prefix hs c ps st'))"

text \<open>\<open>_run_forever\<close>, given how \<open>AIOKafkaConsumer.start()\<close> ends; it can be cancelled too.\<close>

definition consumer_run_forever ::
    "'r redis_ops \<Rightarrow> 'w codec \<Rightarrow> string \<Rightarrow> handlers \<Rightarrow> string list \<Rightarrow> raised option \<Rightarrow> 'w poll_io list
     \<Rightarrow> (consumer \<times> 'r world, raised, unit) comp" where
  "consumer_run_forever R C prefix hs servers outcome polls cst =
     (case outcome of
        Some CancelledError \<Rightarrow> (Inl CancelledError, (fst cst)\<lparr>co_consumer := True\<rparr>, snd cst)
      | Some (Raised e) \<Rightarrow>
          (case consumer_connect servers (Some e) (fst cst) of
             (Inl err, c) \<Rightarrow> (Inl (Raised err), c, snd cst)
           | (Inr _, c) \<Rightarrow> on_snd (poll_loop R C prefix hs c polls) (c, snd cst))
      | None \<Rightarrow>
          (case consumer_connect servers None (fst cst) of
             (Inl err, c) \<Rightarrow> (Inl (Raised err), c, snd cst)
           | (Inr _, c) \<Rightarrow> on_snd (poll_loop R C prefix hs c polls) (c, snd cst)))"

section \<open>What a run handles\<close>

text \<open>
  The messages a run handles to their end, up to the turn that finds the stop event set or is cancelled; a
  message whose commit has reached the database counts.
\<close>

fun cut_records :: "poll_cut option \<Rightarrow> 'a list \<Rightarrow> 'a list" where
  "cut_records None records = records"
| "cut_records (Some Cut_Poll) records = []"
| "cut_records (Some (Cut_Message n how)) records = take (if how = Cut_Reply then Suc n else n) records"
| "cut_records (Some (Cut_Offsets stored)) records = records"

fun polled_messages :: "'w poll_io list \<Rightarrow> (msg_io \<times> 'w consumer_record) list" where
  "polled_messages [] = []"
| "polled_messages (p # ps) =
     (if pl_stop p then []
      else (case pl_polled p of Inl e \<Rightarrow> [] | Inr records \<Rightarrow> map snd (cut_records (pl_cut p) records))
        @ (if pl_cut p = None then polled_messages ps else []))"

text \<open>Whether the run is cancelled.\<close>

fun run_cancelled :: "'w poll_io list \<Rightarrow> bool" where
  "run_cancelled [] = False"
| "run_cancelled (p # ps) \<longleftrightarrow> \<not> pl_stop p \<and> (pl_cut p \<noteq> None \<or> run_cancelled ps)"

text \<open>The event and the handler one message leads to, if any; only Redis and the breaker decide.\<close>

definition admit ::
    "'r redis_ops \<Rightarrow> 'w codec \<Rightarrow> string \<Rightarrow> handlers \<Rightarrow> consumer \<Rightarrow> msg_io \<Rightarrow> 'w consumer_record
     \<Rightarrow> breaker \<times> 'r \<Rightarrow> (event_envelope \<times> handler) option \<times> (breaker \<times> 'r)" where
  "admit R C prefix hs c io msg br =
     (case (if co_dedupe c then rec_value msg else None) of
        None \<Rightarrow> (None, br)
      | Some value \<Rightarrow>
          (case cd_from_bytes C value of
             Inl e \<Rightarrow> (None, br)
           | Inr env \<Rightarrow>
               (case check_and_record R (mi_redis io) prefix (content_hash C env) None br of (x, br') \<Rightarrow>
                  (if x = Inr True \<and> co_session_factory c
                   then map_option (Pair env) (hs (rec_topic msg, event_type env)) else None, br'))))"

fun admit_all ::
    "'r redis_ops \<Rightarrow> 'w codec \<Rightarrow> string \<Rightarrow> handlers \<Rightarrow> consumer \<Rightarrow> (msg_io \<times> 'w consumer_record) list
     \<Rightarrow> breaker \<times> 'r \<Rightarrow> (msg_io \<times> event_envelope \<times> handler) list \<times> (breaker \<times> 'r)" where
  "admit_all R C prefix hs c [] br = ([], br)"
| "admit_all R C prefix hs c ((io, msg) # ms) br =
     (case admit R C prefix hs c io msg br of (a, br') \<Rightarrow>
        (case admit_all R C prefix hs c ms br' of (xs, br'') \<Rightarrow>
           ((case a of None \<Rightarrow> xs | Some x \<Rightarrow> (io, x) # xs), br'')))"

definition apply_handler :: "msg_io \<times> event_envelope \<times> handler \<Rightarrow> db \<Rightarrow> db" where
  "apply_handler x d = (case x of (io, env, h) \<Rightarrow> snd (run_handler io h env d))"

lemma handle_message_admit:
  assumes "admit R C prefix hs c io msg br = (a, br')"
  shows "snd (handle_message R C prefix hs c io msg (br, d))
    = (br', case a of None \<Rightarrow> d | Some x \<Rightarrow> apply_handler (io, x) d)"
  using assms
  by (auto simp: handle_message_def admit_def apply_handler_def seq_def
      split: if_splits option.splits sum.splits prod.splits)

text \<open>Each admitted event is one of the messages, decoded, with the handler registered for it.\<close>

lemma admit_all_from:
  assumes "admit_all R C prefix hs c ms br = (xs, br')"
  shows "\<forall>(io, env, h)\<in>set xs. \<exists>msg v. (io, msg) \<in> set ms \<and> rec_value msg = Some v
    \<and> cd_from_bytes C v = Inr env \<and> hs (rec_topic msg, event_type env) = Some h"
  using assms
proof (induction ms arbitrary: br xs)
  case Nil
  then show ?case by simp
next
  case (Cons m ms)
  obtain io msg where m: "m = (io, msg)" by (cases m)
  obtain a br1 where a: "admit R C prefix hs c io msg br = (a, br1)" by (meson surj_pair)
  obtain ys where ys: "admit_all R C prefix hs c ms br1 = (ys, br')"
    and xs: "xs = (case a of None \<Rightarrow> ys | Some x \<Rightarrow> (io, x) # ys)"
    using Cons.prems a by (auto simp: m split: prod.splits)
  have "\<exists>v. rec_value msg = Some v \<and> cd_from_bytes C v = Inr env \<and> hs (rec_topic msg, event_type env) = Some h"
    if "a = Some (env, h)" for env h
    using a that by (auto simp: admit_def split: if_splits option.splits sum.splits prod.splits)
  then show ?case using Cons.IH [OF ys] by (fastforce simp: xs m split: option.splits)
qed

lemma admit_all_append:
  "admit_all R C prefix hs c (xs @ ys) br =
    (case admit_all R C prefix hs c xs br of (us, br') \<Rightarrow>
      (case admit_all R C prefix hs c ys br' of (vs, br'') \<Rightarrow> (us @ vs, br'')))"
  by (induction xs arbitrary: br) (auto split: prod.splits option.splits)

lemma dispatch_admits:
  assumes "admit_all R C prefix hs c (map snd records) br = (xs, br')"
  shows "snd (dispatch R C prefix hs c records m (br, d)) = (br', fold apply_handler xs d)"
  using assms
proof (induction records arbitrary: m br d xs)
  case Nil
  then show ?case by simp
next
  case (Cons x rest)
  obtain tp io msg where x: "x = (tp, io, msg)" by (cases x)
  obtain a br1 where a: "admit R C prefix hs c io msg br = (a, br1)" by (meson surj_pair)
  obtain ys where ys: "admit_all R C prefix hs c (map snd rest) br1 = (ys, br')"
    and xs: "xs = (case a of None \<Rightarrow> ys | Some x \<Rightarrow> (io, x) # ys)"
    using Cons.prems a by (auto simp: x split: prod.splits)
  let ?d = "case a of None \<Rightarrow> d | Some x \<Rightarrow> apply_handler (io, x) d"
  obtain r where "handle_message R C prefix hs c io msg (br, d) = (r, (br1, ?d))"
    using handle_message_admit [OF a] by (metis prod.collapse)
  then have "snd (dispatch R C prefix hs c (x # rest) m (br, d)) = (br', fold apply_handler ys ?d)"
    using Cons.IH [OF ys] by (cases r) (simp_all add: x)
  then show ?case by (simp add: xs split: option.splits)
qed

lemma cut_message_db:
  "how \<noteq> Cut_Reply \<Longrightarrow> snd (cut_message R C prefix hs c how io msg w) = snd w"
  by (cases how) (auto simp: cut_message_def Let_def split: option.splits sum.splits)

lemma cut_poll_admits:
  assumes "co_consumer c" and "admit_all R C prefix hs c (map snd (cut_records (Some place) records)) br = (xs, br')"
  shows "snd (snd (cut_poll R C prefix hs c place (Inr records) (offsets, (br, d)))) = fold apply_handler xs d"
proof (cases place)
  case Cut_Poll
  then show ?thesis using assms by (simp add: cut_poll_def)
next
  case (Cut_Offsets stored)
  then show ?thesis using assms dispatch_admits [of R C prefix hs c records br xs br' Map.empty d]
    by (auto simp: cut_poll_def split: prod.split)
next
  case (Cut_Message n how)
  show ?thesis
  proof (cases "how = Cut_Reply \<and> n < length records")
    case False
    have "cut_records (Some place) records = take n records" using False Cut_Message by auto
    then have "snd (dispatch R C prefix hs c (take n records) Map.empty (br, d)) = (br', fold apply_handler xs d)"
      using assms(2) by (intro dispatch_admits) simp
    then show ?thesis using False assms(1) Cut_Message
      by (auto simp: cut_poll_def Let_def cut_message_db split: list.split)
  next
    case True
    then obtain tp io msg rest where rest: "drop n records = (tp, io, msg) # rest"
      by (metis Cons_nth_drop_Suc prod_cases3)
    have handled: "cut_records (Some place) records = take n records @ [(tp, io, msg)]"
      using True Cut_Message rest by (simp add: take_Suc_conv_app_nth nth_via_drop)
    obtain us br1 where us: "admit_all R C prefix hs c (map snd (take n records)) br = (us, br1)"
      by (meson surj_pair)
    obtain a br2 where a: "admit R C prefix hs c io msg br1 = (a, br2)" by (meson surj_pair)
    have "snd (dispatch R C prefix hs c (take n records) Map.empty (br, d)) = (br1, fold apply_handler us d)"
      by (rule dispatch_admits [OF us])
    moreover have "xs = us @ (case a of None \<Rightarrow> [] | Some x \<Rightarrow> [(io, x)])"
      using assms(2) us a unfolding handled by (auto simp: admit_all_append split: option.splits)
    ultimately show ?thesis
      using assms(1) Cut_Message True rest handle_message_admit [OF a, of "fold apply_handler us d"]
      by (auto simp: cut_poll_def cut_message_def Let_def split: option.splits)
  qed
qed

lemma poll_loop_admits:
  assumes "co_consumer c" and "admit_all R C prefix hs c (polled_messages ps) br = (xs, br')"
  shows "fst (poll_loop R C prefix hs c ps (offsets, (br, d))) = (if run_cancelled ps then Inl CancelledError else Inr ())"
    and "snd (snd (snd (poll_loop R C prefix hs c ps (offsets, (br, d))))) = fold apply_handler xs d"
    and "\<not> run_cancelled ps \<Longrightarrow> fst (snd (snd (poll_loop R C prefix hs c ps (offsets, (br, d))))) = br'"
proof -
  have "fst (poll_loop R C prefix hs c ps (offsets, (br, d))) = (if run_cancelled ps then Inl CancelledError else Inr ())
    \<and> snd (snd (snd (poll_loop R C prefix hs c ps (offsets, (br, d))))) = fold apply_handler xs d
    \<and> (\<not> run_cancelled ps \<longrightarrow> fst (snd (snd (poll_loop R C prefix hs c ps (offsets, (br, d))))) = br')"
    using assms(2)
  proof (induction ps arbitrary: offsets br d xs)
    case Nil
    then show ?case by simp
  next
    case (Cons p ps)
    consider (stop) "pl_stop p" | (cancelled) place where "\<not> pl_stop p" "pl_cut p = Some place"
      | (broken) e where "\<not> pl_stop p" "pl_cut p = None" "pl_polled p = Inl e"
      | (turn) records where "\<not> pl_stop p" "pl_cut p = None" "pl_polled p = Inr records"
      by (metis not_None_eq old.sum.exhaust)
    then show ?case
    proof cases
      case stop
      then show ?thesis using Cons.prems by simp
    next
      case cancelled
      then show ?thesis using Cons.prems assms(1) cut_poll_admits [OF assms(1), of R C prefix hs place _ br xs br' offsets d]
        by (cases "pl_polled p") (simp_all add: cut_poll_def)
    next
      case broken
      then show ?thesis using Cons assms(1) by (simp add: poll_and_dispatch_def)
    next
      case turn
      obtain us br1 vs where us: "admit_all R C prefix hs c (map snd records) br = (us, br1)"
        and vs: "admit_all R C prefix hs c (polled_messages ps) br1 = (vs, br')" and "xs = us @ vs"
        using Cons.prems turn by (auto simp: admit_all_append split: prod.splits)
      obtain m where "dispatch R C prefix hs c records Map.empty (br, d) = (m, (br1, fold apply_handler us d))"
        using dispatch_admits [OF us] by (metis prod.collapse)
      then show ?thesis using Cons.IH [OF vs] turn assms(1) \<open>xs = us @ vs\<close>
        by (simp add: poll_and_dispatch_def split: option.splits)
    qed
  qed
  then show "fst (poll_loop R C prefix hs c ps (offsets, (br, d))) = (if run_cancelled ps then Inl CancelledError else Inr ())"
    and "snd (snd (snd (poll_loop R C prefix hs c ps (offsets, (br, d))))) = fold apply_handler xs d"
    and "\<not> run_cancelled ps \<Longrightarrow> fst (snd (snd (poll_loop R C prefix hs c ps (offsets, (br, d))))) = br'" by simp_all
qed

lemma connected_run:
  "consumer_run_forever R C prefix hs servers None ps (c, st)
    = (case poll_loop R C prefix hs (c\<lparr>co_consumer := True\<rparr>) ps st of (r, st') \<Rightarrow> (r, c\<lparr>co_consumer := True\<rparr>, st'))"
  by (simp add: consumer_run_forever_def consumer_connect_def on_snd_def Let_def)

section \<open>At most once\<close>

definition msg_time :: "msg_io \<times> 'w consumer_record \<Rightarrow> int" where
  "msg_time m = io_now (mi_redis (fst m))"

text \<open>A Redis request of the run that is not answered, and what the driver raises then.\<close>

definition unanswered :: "msg_io \<times> 'w consumer_record \<Rightarrow> bool" where
  "unanswered m \<longleftrightarrow> io_delivery (mi_redis (fst m)) \<noteq> Delivered"

definition driver_error :: "delivery \<Rightarrow> bool" where
  "driver_error d \<longleftrightarrow> (case d of Delivered \<Rightarrow> True
     | NotDelivered e \<Rightarrow> \<not> exc_isinstance e CacheUnavailableError
     | ReplyLost e \<Rightarrow> \<not> exc_isinstance e CacheUnavailableError)"

text \<open>The breaker stays closed while fewer than \<open>br_fail_max\<close> requests in a row can fail.\<close>

definition tolerates :: "breaker \<Rightarrow> nat \<Rightarrow> bool" where
  "tolerates b n \<longleftrightarrow> br_state b = Closed \<and> 0 \<le> br_failure_count b
     \<and> br_failure_count b + int n < br_fail_max b"

lemma tolerates_success: "tolerates b n \<Longrightarrow> tolerates (record_success b) n"
  by (simp add: tolerates_def record_success_def)

lemma tolerates_failure: "tolerates b (Suc n) \<Longrightarrow> tolerates (record_failure t b) n"
  by (simp add: tolerates_def record_failure_def Let_def)

text \<open>
  One check while the breaker is closed: Redis is left as it was or has executed the SET, and True is
  the answer of an executed SET that found the key absent.
\<close>

lemma check_and_record_closed:
  assumes "check_and_record R io prefix i None (b, r) = (x, (b', r'))"
    and "tolerates b (if io_delivery io \<noteq> Delivered then Suc n else n)" and "driver_error (io_delivery io)"
    and "done = snd (rd_set R (io_now io) (dedupe_key prefix i) ''1'' (Some dedupe_default_ttl) True r)"
  shows "tolerates b' n" and "r' = r \<or> r' = done"
    and "x = Inr True \<Longrightarrow> r' = done
      \<and> fst (rd_set R (io_now io) (dedupe_key prefix i) ''1'' (Some dedupe_default_ttl) True r)"
proof -
  have n: "tolerates b n" using assms(2) by (simp add: tolerates_def split: if_splits)
  have closed: "br_state b \<noteq> Open" using assms(2) by (simp add: tolerates_def)
  have ttl: "\<not> dedupe_default_ttl \<le> 0" by (simp add: dedupe_default_ttl_def)
  show "tolerates b' n" "r' = r \<or> r' = done" "x = Inr True \<Longrightarrow> r' = done
      \<and> fst (rd_set R (io_now io) (dedupe_key prefix i) ''1'' (Some dedupe_default_ttl) True r)"
    using assms(1-3) n ttl tolerates_success [OF n] tolerates_failure [of b n]
    by (auto simp: assms(4) check_and_record_def try_except_def guarded_request_def Let_def
        breaker_call_admitted [OF closed] round_trip_def driver_error_def
        split: if_splits delivery.splits prod.splits)
qed

context redis_like
begin

text \<open>A key that shows a value until \<open>T\<close>.\<close>

definition held :: "int \<Rightarrow> int \<Rightarrow> 'r \<Rightarrow> string \<Rightarrow> bool" where
  "held t T r k \<longleftrightarrow> (\<forall>u. t \<le> u \<and> u < T \<longrightarrow> live u r k \<noteq> None)"

lemma held_later: "held t T r k \<Longrightarrow> t \<le> t' \<Longrightarrow> held t' T r k"
  by (simp add: held_def)

lemma held_set:
  assumes "held t T r k" and "t < T"
  shows "held t T (snd (rd_set R t k' v ex True r)) k"
proof (cases "k' = k")
  case True
  then have "live t r k' \<noteq> None" using assms by (simp add: held_def)
  then show ?thesis using assms(1) set_refused [of True t r k'] by (simp add: held_def)
next
  case False
  then show ?thesis using assms(1) set_other [of k k' t] by (simp add: held_def)
qed

lemma set_held:
  assumes "fst (rd_set R t k v (Some ttl) True r)" and "0 < ttl" and "T \<le> t + seconds ttl"
  shows "held t T (snd (rd_set R t k v (Some ttl) True r)) k"
  using assms set_ok [of t k v "Some ttl" True r] set_live [of ttl True t r k _ v] by (simp add: held_def)

text \<open>
  One message in a window that ends at \<open>T\<close>: what is held stays held, and an admitted message finds
  its key absent and leaves it held.
\<close>

lemma admit_step:
  assumes "admit R C prefix hs c io msg (b, r) = (a, (b', r'))"
    and "tolerates b (if unanswered (io, msg) then Suc n else n)" and "driver_error (io_delivery (mi_redis io))"
    and "t = msg_time (io, msg)" and "t < T" and "T \<le> t + seconds dedupe_default_ttl"
  shows "tolerates b' n" and "held t T r k \<Longrightarrow> held t T r' k"
    and "a = Some (env, h) \<Longrightarrow> live t r (dedupe_key prefix (content_hash C env)) = None
      \<and> held t T r' (dedupe_key prefix (content_hash C env))"
proof -
  have n: "tolerates b n" using assms(2) by (simp add: tolerates_def split: if_splits)
  have t: "t = io_now (mi_redis io)" using assms(4) by (simp add: msg_time_def)
  have ttl: "0 < dedupe_default_ttl" by (simp add: dedupe_default_ttl_def)
  show "tolerates b' n"
    using assms(1-3) n check_and_record_closed(1) [of R "mi_redis io" prefix _ b r _ b' r' n]
    by (auto simp: admit_def unanswered_def split: if_splits option.splits sum.splits prod.splits)
  show "held t T r' k" if "held t T r k"
    using assms(1-3,5) that check_and_record_closed(2) [of R "mi_redis io" prefix _ b r _ b' r' n]
      held_set [of t T r k _ "''1''" "Some dedupe_default_ttl"]
    by (fastforce simp: admit_def unanswered_def t split: if_splits option.splits sum.splits prod.splits)
  show "live t r (dedupe_key prefix (content_hash C env)) = None
      \<and> held t T r' (dedupe_key prefix (content_hash C env))" if "a = Some (env, h)"
  proof -
    from assms(1) that have "check_and_record R (mi_redis io) prefix (content_hash C env) None (b, r)
        = (Inr True, (b', r'))"
      by (auto simp: admit_def split: if_splits option.splits sum.splits prod.splits)
    note chk = check_and_record_closed(3) [OF this _ assms(3) HOL.refl HOL.refl, of n]
    then show ?thesis
      using assms(2,6) set_held [OF _ ttl, of t "dedupe_key prefix (content_hash C env)" "''1''" r T]
        set_ok [of t "dedupe_key prefix (content_hash C env)" "''1''" "Some dedupe_default_ttl" True r]
      by (simp add: unanswered_def t)
  qed
qed

lemma admit_all_distinct:
  assumes "admit_all R C prefix hs c ms (b, r) = (xs, br')" and "sorted (map msg_time ms)"
    and "\<forall>m\<in>set ms. t0 \<le> msg_time m \<and> msg_time m < T \<and> T \<le> msg_time m + seconds dedupe_default_ttl
      \<and> driver_error (io_delivery (mi_redis (fst m)))"
    and "tolerates b (length (filter unanswered ms))"
  shows "distinct (map (\<lambda>(io, env, h). content_hash C env) xs)
    \<and> (\<forall>(io, env, h)\<in>set xs. \<not> held t0 T r (dedupe_key prefix (content_hash C env)))"
  using assms
proof (induction ms arbitrary: b r xs t0)
  case Nil
  then show ?case by simp
next
  case (Cons m ms)
  obtain io msg where m: "m = (io, msg)" by (cases m)
  let ?t = "msg_time m"
  obtain a b' r' where a: "admit R C prefix hs c io msg (b, r) = (a, (b', r'))" by (metis prod.collapse)
  obtain ys where ys: "admit_all R C prefix hs c ms (b', r') = (ys, br')"
    and xs: "xs = (case a of None \<Rightarrow> ys | Some x \<Rightarrow> (io, x) # ys)"
    using Cons.prems(1) a by (auto simp: m split: prod.splits)
  have w: "tolerates b (if unanswered (io, msg) then Suc (length (filter unanswered ms))
      else length (filter unanswered ms))" "driver_error (io_delivery (mi_redis io))"
    "?t < T" "T \<le> ?t + seconds dedupe_default_ttl" "t0 \<le> ?t" using Cons.prems(3,4) by (simp_all add: m split: if_splits)
  note step = admit_step [OF a w(1,2) m [THEN arg_cong [where f = msg_time]] w(3,4)]
  have ih: "distinct (map (\<lambda>(io, env, h). content_hash C env) ys)"
    "\<forall>(io, env, h)\<in>set ys. \<not> held ?t T r' (dedupe_key prefix (content_hash C env))"
    using Cons.IH [OF ys, of ?t] Cons.prems(2,3) step(1) by auto
  have later: "\<not> held t0 T r (dedupe_key prefix (content_hash C env))" if "(io', env, h) \<in> set ys" for io' env h
    using that ih(2) step(2) held_later [OF _ w(5)] by fastforce
  show ?case
  proof (cases a)
    case None
    then show ?thesis using ih later by (auto simp: xs)
  next
    case (Some x)
    obtain env h where x: "x = (env, h)" by (cases x)
    from step(3) Some x have k: "live ?t r (dedupe_key prefix (content_hash C env)) = None"
      "held ?t T r' (dedupe_key prefix (content_hash C env))" by auto
    then have "\<not> held t0 T r (dedupe_key prefix (content_hash C env))"
      using w(3,5) by (auto simp: held_def)
    moreover have "content_hash C env \<notin> (\<lambda>(io, env, h). content_hash C env) ` set ys"
      using k(2) ih(2) by fastforce
    ultimately show ?thesis using ih(1) later by (auto simp: xs Some x)
  qed
qed

end

section \<open>Properties\<close>

text \<open>
  C17: A run of the task is its handlers, one after the other. If the connection fails with a Kafka error the
  task ends with \<open>BrokerUnavailableError\<close>, with any other exception it ends with that one, and if it is
  cancelled while connecting with \<open>CancelledError\<close>; all these touch nothing. Otherwise the tables are those
  the admitted handlers leave, each run in a session of its own, in the order of the messages, whatever
  exceptions polls, messages and offset commits raise. The task ends normally when it is
  stopped, and with \<open>CancelledError\<close> when it is cancelled in some turn; a message that was cut off before
  its commit has then left no trace in the tables.
\<close>

theorem run_is_fold_of_handlers:
  assumes "msgs = polled_messages ps" and "c' = c\<lparr>co_consumer := True\<rparr>"
    and "(xs, br') = admit_all R C prefix hs c' msgs br"
  shows "(\<exists>offsets' br''. consumer_run_forever R C prefix hs servers None ps (c, (offsets, (br, d)))
        = (if run_cancelled ps then Inl CancelledError else Inr (), (c', (offsets', (br'', fold apply_handler xs d))))
      \<and> (\<not> run_cancelled ps \<longrightarrow> br'' = br'))
    \<and> (\<exists>err. consumer_run_forever R C prefix hs servers (Some (Raised e)) ps (c, (offsets, (br, d)))
        = (Inl (Raised err), (c', (offsets, (br, d))))
      \<and> (if is_kafka_error e then exc_isinstance err BrokerUnavailableError else err = e))
    \<and> consumer_run_forever R C prefix hs servers (Some CancelledError) ps (c, (offsets, (br, d)))
        = (Inl CancelledError, (c', (offsets, (br, d))))"
proof -
  have c': "co_consumer c'" by (simp add: assms(2))
  note loop = poll_loop_admits [OF c' assms(3) [symmetric, unfolded assms(1)], of offsets d]
  obtain x offsets' br'' d' where "poll_loop R C prefix hs c' ps (offsets, (br, d)) = (x, (offsets', (br'', d')))"
    by (metis prod_cases4)
  then have "(\<exists>offsets' br''. consumer_run_forever R C prefix hs servers None ps (c, (offsets, (br, d)))
        = (if run_cancelled ps then Inl CancelledError else Inr (), (c', (offsets', (br'', fold apply_handler xs d))))
      \<and> (\<not> run_cancelled ps \<longrightarrow> br'' = br'))"
    using loop by (simp add: connected_run assms(2))
  then show ?thesis
    by (simp add: consumer_run_forever_def consumer_connect_def Let_def nimbus_error_def assms(2))
qed

text \<open>
  C8: At most once over a run. While the dedupe keys of the run live (all its messages are checked within
  the TTL of the first) and fewer requests are lost than open the breaker, a run handles no two
  messages with the same content hash, however often Kafka delivers them and whether Redis executed
  the lost requests or not: the tables are those that pairwise different events leave. A run that is
  not cancelled ends normally.
\<close>

theorem run_handles_at_most_once:
  assumes "redis_like R live zset" and "msgs = polled_messages ps" and "sorted (map msg_time msgs)"
    and "\<forall>m\<in>set msgs. start \<le> msg_time m \<and> msg_time m < start + seconds dedupe_default_ttl
      \<and> driver_error (io_delivery (mi_redis (fst m)))"
    and "tolerates b (length (filter unanswered msgs))"
    and "run = consumer_run_forever R C prefix hs servers None ps (c, (offsets, ((b, r), d)))"
    and "xs = fst (admit_all R C prefix hs (c\<lparr>co_consumer := True\<rparr>) msgs (b, r))"
  shows "fst run = (if run_cancelled ps then Inl CancelledError else Inr ())
    \<and> snd (snd (snd (snd run))) = fold apply_handler xs d
    \<and> distinct (map (\<lambda>(io, env, h). content_hash C env) xs)
    \<and> (\<forall>(io, env, h)\<in>set xs. \<exists>msg v. (io, msg) \<in> set msgs \<and> rec_value msg = Some v
         \<and> cd_from_bytes C v = Inr env \<and> hs (rec_topic msg, event_type env) = Some h)"
proof -
  let ?c = "c\<lparr>co_consumer := True\<rparr>"
  obtain br1 where xs: "admit_all R C prefix hs ?c msgs (b, r) = (xs, br1)"
    using assms(7) by (metis prod.collapse)
  have c': "co_consumer ?c" by simp
  have "fst run = (if run_cancelled ps then Inl CancelledError else Inr ())"
    "snd (snd (snd (snd run))) = fold apply_handler xs d"
    using poll_loop_admits(1,2) [OF c' xs [unfolded assms(2)], of offsets d]
    by (simp_all add: assms(6) connected_run case_prod_unfold)
  moreover have "distinct (map (\<lambda>(io, env, h). content_hash C env) xs)"
    using redis_like.admit_all_distinct [OF assms(1) xs assms(3) _ assms(5),
        of start "start + seconds dedupe_default_ttl"] assms(4) by fastforce
  ultimately show ?thesis using admit_all_from [OF xs] by simp
qed

definition demo_turn :: "int \<Rightarrow> msg_io \<times> json consumer_record \<Rightarrow> json poll_io" where
  "demo_turn p m = \<lparr>pl_stop = False, pl_polled = Inr [((''payments.events'', p), m)],
     pl_commit_error = Some (RuntimeError ''commit''), pl_cut = None\<rparr>"

definition demo_turns :: "json poll_io list" where
  "demo_turns = [demo_turn 0 (quiet_msg 5, demo_message captured_type 5),
     demo_turn 0 (quiet_msg 9, demo_message captured_type 5)]"

definition demo_consumer_run :: "raised option \<Rightarrow> (raised + unit) \<times> (consumer \<times> fake_redis world)" where
  "demo_consumer_run outcome = consumer_run_forever fake_redis_ops json_codec ''nimbus:dedupe:'' (order_handlers orm_default)
     [''kafka:9092''] outcome demo_turns
     (demo_consumer, (Map.empty, ((ready_breaker, fake_empty), order_book O_RESERVED)))"

theorem run_is_fold_of_handlers_witness:
  "fst (demo_consumer_run None) = Inr () \<and> isl (fst (demo_consumer_run (Some (Raised (KafkaError ''down'')))))
   \<and> fst (demo_consumer_run (Some CancelledError)) = Inl CancelledError"
proof -
  have "\<not> run_cancelled demo_turns" by (simp add: demo_turns_def demo_turn_def)
  then show ?thesis
  using run_is_fold_of_handlers [OF HOL.refl HOL.refl prod.collapse, where ps = demo_turns and c = demo_consumer
      and R = fake_redis_ops and C = json_codec and prefix = "''nimbus:dedupe:''" and offsets = Map.empty
      and hs = "order_handlers orm_default" and br = "(ready_breaker, fake_empty)"
      and e = "KafkaError ''down''" and servers = "[''kafka:9092'']" and d = "order_book O_RESERVED"]
  by (auto simp: demo_consumer_run_def is_kafka_error_def)
qed

definition demo_admitted :: "(msg_io \<times> event_envelope \<times> handler) list" where
  "demo_admitted = fst (admit_all fake_redis_ops json_codec ''nimbus:dedupe:'' (order_handlers orm_default)
     (demo_consumer\<lparr>co_consumer := True\<rparr>) (polled_messages demo_turns) (ready_breaker, fake_empty))"

theorem run_handles_at_most_once_witness:
  "fst (demo_consumer_run None) = Inr ()
    \<and> snd (snd (snd (snd (demo_consumer_run None)))) = fold apply_handler demo_admitted (order_book O_RESERVED)
    \<and> distinct (map (\<lambda>(io, env, h). content_hash json_codec env) demo_admitted)"
proof -
  have "polled_messages demo_turns
      = [(quiet_msg 5, demo_message captured_type 5), (quiet_msg 9, demo_message captured_type 5)]"
    by (simp add: demo_turns_def demo_turn_def)
  moreover have "\<not> run_cancelled demo_turns" by (simp add: demo_turns_def demo_turn_def)
  ultimately show ?thesis
    using run_handles_at_most_once [OF fake.redis_like_axioms HOL.refl _ _ _ demo_consumer_run_def [of None]
        demo_admitted_def, of 5]
    by (simp add: msg_time_def unanswered_def driver_error_def tolerates_def seconds_def dedupe_default_ttl_def
        ready_breaker_def)
qed

end
