(* ===== verification/Session_Context.thy ===== *)
theory Session_Context
  imports Order_Consumer
begin

text \<open>
  The context variable around a session, of \<open>src/core/database.py\<close>, and the session factory of the
  order consumer, \<open>src/modules/orders/consumer.py\<close>. \<open>get_session\<close> stores the schema of the session in
  \<open>_current_schema\<close>, which the checkout listener reads, and resets it at the end; the factory of the
  order consumer iterates over that generator from another one, so an exception of its body does not
  pass through \<open>get_session\<close>.
\<close>

section \<open>The schema variable\<close>

text \<open>What the checkout listener sends for a connection, with its parameters.\<close>

definition set_search_path :: "string \<Rightarrow> string \<times> string list" where
  "set_search_path current_schema = (''SET search_path TO %s, public'', [current_schema])"

text \<open>
  \<open>get_session\<close> on the variable and the session. \<open>factory\<close> is what \<open>get_session_factory()\<close> raises, if
  anything: it is called after the variable is set and before the \<open>try\<close>.
\<close>

definition get_session_ctx ::
    "string option \<Rightarrow> string \<Rightarrow> exc option \<Rightarrow> (string \<times> session, exc, 'a) comp
     \<Rightarrow> (string \<times> session, exc, 'a) comp" where
  "get_session_ctx schema default_schema factory body =
     (case validate_schema_name (case schema of Some x \<Rightarrow> if x = [] then default_schema else x
                                 | None \<Rightarrow> default_schema) of
        Inl e \<Rightarrow> raise_exc e
      | Inr target \<Rightarrow>
          (\<lambda>(var, s). case factory of
             Some e \<Rightarrow> (Inl e, (target, s))
           | None \<Rightarrow>
               (case body (target, s) of
                  (Inl e, (_, s')) \<Rightarrow> (Inl (session_error target e), (var, session_rollback s'))
                | (Inr x, (_, s')) \<Rightarrow> (Inr x, (var, session_rollback s')))))"

text \<open>
  \<open>_order_session\<close>: when the body returns, the loop asks \<open>get_session\<close> for a next session and so runs
  it to its end; when the body raises, the loop is left and the generator stays where it was, with the
  session open and the variable set, until the event loop disposes of it.
\<close>

definition order_session ::
    "exc option \<Rightarrow> (string \<times> session, exc, 'a) comp \<Rightarrow> (string \<times> session, exc, 'a) comp" where
  "order_session factory body =
     (case validate_schema_name ''orders'' of
        Inl e \<Rightarrow> raise_exc e
      | Inr target \<Rightarrow>
          (\<lambda>(var, s). case factory of
             Some e \<Rightarrow> (Inl e, (target, s))
           | None \<Rightarrow>
               (case body (target, s) of
                  (Inl e, (v, s')) \<Rightarrow> (Inl e, (v, s'))
                | (Inr x, (_, s')) \<Rightarrow> (Inr x, (var, session_rollback s')))))"

text \<open>The block of \<open>_handle_message\<close> that uses the session: run the handler, commit, or roll back.\<close>

definition handler_block :: "msg_io \<Rightarrow> handler \<Rightarrow> event_envelope \<Rightarrow> (session, exc, unit) comp" where
  "handler_block io h env =
     try_except (seq (h env) (\<lambda>_. session_commit (mi_commit io)))
       (\<lambda>e s. (Inl e, session_rollback s))"

section \<open>Facts\<close>

lemma orders_schema [simp]: "validate_schema_name ''orders'' = Inr ''orders''"
  by code_simp

text \<open>A body that leaves the variable alone sees \<open>get_session\<close>, and the caller gets its variable back.\<close>

lemma get_session_ctx_value:
  assumes "validate_schema_name (case schema of Some x \<Rightarrow> if x = [] then default_schema else x
    | None \<Rightarrow> default_schema) = Inr target"
  shows "get_session_ctx schema default_schema None (on_snd b) (var, s)
    = (fst (get_session schema default_schema b s), (var, snd (get_session schema default_schema b s)))"
  using assms by (simp add: get_session_ctx_def get_session_def split: sum.splits prod.splits)

lemma handler_block_run:
  "run_handler io h env d =
     (let r = handler_block io h env (new_session d (mi_env io) (mi_now io)) in (fst r, se_db (snd r)))"
  by (auto simp: run_handler_def handler_block_def try_except_def split: prod.splits sum.splits)

section \<open>Properties\<close>

text \<open>
  The error path of the order consumer does not go through \<open>get_session\<close>. The session factory of the
  consumer gives the same result and the same tables as the consumer's own session block. When the
  handler returns, it ends as \<open>get_session\<close> does. When the handler raises, the exception arrives
  untranslated and the schema variable of the task keeps the value ''orders'', while \<open>get_session\<close>
  itself would translate the exception and restore the variable.
\<close>

theorem raising_handler_skips_get_session:
  assumes "w = order_session None (on_snd (handler_block io h env)) (var, new_session d (mi_env io) (mi_now io))"
    and "g = get_session_ctx (Some ''orders'') default_schema None (on_snd (handler_block io h env))
      (var, new_session d (mi_env io) (mi_now io))"
  shows "fst w = fst (run_handler io h env d) \<and> se_db (snd (snd w)) = snd (run_handler io h env d)
    \<and> (fst w = Inr () \<longrightarrow> w = g \<and> fst (snd w) = var)
    \<and> (\<forall>e. fst w = Inl e \<longrightarrow> fst (snd w) = ''orders''
         \<and> fst g = Inl (session_error ''orders'' e) \<and> fst (snd g) = var)"
proof -
  let ?s = "new_session d (mi_env io) (mi_now io)"
  obtain r s' where b: "handler_block io h env ?s = (r, s')" by (meson surj_pair)
  have "run_handler io h env d = (r, se_db s')"
    using b by (simp add: handler_block_run)
  moreover have "w = (case r of Inl e \<Rightarrow> (Inl e, (''orders'', s')) | Inr x \<Rightarrow> (Inr x, (var, session_rollback s')))"
    using b by (simp add: assms(1) order_session_def split: sum.splits)
  moreover have "g = (case r of Inl e \<Rightarrow> (Inl (session_error ''orders'' e), (var, session_rollback s'))
      | Inr x \<Rightarrow> (Inr x, (var, session_rollback s')))"
    using b by (simp add: assms(2) get_session_ctx_def split: sum.splits)
  ultimately show ?thesis by (cases r) auto
qed

theorem raising_handler_skips_get_session_witness:
  "fst (snd (order_session None (on_snd (handler_block (quiet_msg 5) on_payment_captured (payment_event captured_type)))
     (''public'', new_session (shelf 5 1) (mi_env (quiet_msg 5)) (mi_now (quiet_msg 5))))) = ''orders''"
  using raising_handler_skips_get_session [OF HOL.refl HOL.refl, of "quiet_msg 5" on_payment_captured
      "payment_event captured_type" "''public''" "shelf 5 1"] captured_for_missing_order [of 5 5 1]
  by simp

end
