(* ===== verification/Telemetry.thy ===== *)
theory Telemetry
  imports Config
begin

text \<open>
  The logging setup of \<open>src/core/telemetry.py\<close>: one handler on the root logger, whose format depends
  on the settings, the level of the root, and a floor under the levels of four chatty libraries. Of
  the standard library the model has the part that decides whether a record is written: the levels
  set on loggers, the inheritance along dotted names, and the handlers of the root.
\<close>

section \<open>Loggers\<close>

datatype processor = Merge_Contextvars | Add_Logger_Name | Add_Log_Level | Time_Stamper string
  | Stack_Info_Renderer | Format_Exc_Info | Unicode_Decoder | Callsite_Parameters "string list"
  | Wrap_For_Formatter | Remove_Processors_Meta | JSON_Renderer bool | Console_Renderer bool

record log_handler =
  lh_foreign_pre_chain :: "processor list"
  lh_processors :: "processor list"

record structlog_config =
  sc_processors :: "processor list"
  sc_level :: int
  sc_cache :: bool

record log_state =
  ls_root_handlers :: "log_handler list"
  ls_root_level :: int
  ls_levels :: "string \<Rightarrow> int option"
  ls_structlog :: "structlog_config option"

definition level_numbers :: "(string \<times> int) list" where
  "level_numbers = [(''DEBUG'', 10), (''INFO'', 20), (''WARNING'', 30), (''ERROR'', 40), (''CRITICAL'', 50)]"

text \<open>\<open>getattr(logging, name, logging.INFO)\<close> for the names the settings let through.\<close>

definition level_of :: "string \<Rightarrow> int" where
  "level_of name = (case map_of level_numbers name of Some n \<Rightarrow> n | None \<Rightarrow> 20)"

text \<open>The level a logger works with: its own, or that of the nearest parent that has one.\<close>

definition parent_logger :: "string \<Rightarrow> string option" where
  "parent_logger name =
     (case dropWhile (\<lambda>c. c \<noteq> CHR ''.'') (rev name) of [] \<Rightarrow> None | _ # front \<Rightarrow> Some (rev front))"

lemma parent_logger_shorter: "parent_logger name = Some p \<Longrightarrow> length p < length name"
  using length_dropWhile_le [of "\<lambda>c. c \<noteq> CHR ''.''" "rev name"]
  by (auto simp: parent_logger_def split: list.splits)

function effective_level :: "log_state \<Rightarrow> string \<Rightarrow> int" where
  "effective_level st name =
     (case ls_levels st name of
        Some n \<Rightarrow> n
      | None \<Rightarrow> (case parent_logger name of None \<Rightarrow> ls_root_level st | Some p \<Rightarrow> effective_level st p))"
  by pat_completeness auto
termination by (relation "measure (\<lambda>(st, name). length name)") (auto dest: parent_logger_shorter)

declare effective_level.simps [simp del]

section \<open>configure\_logging\<close>

definition shared_processors :: "processor list" where
  "shared_processors =
     [Merge_Contextvars, Add_Logger_Name, Add_Log_Level, Time_Stamper ''timestamp'', Stack_Info_Renderer,
      Format_Exc_Info, Unicode_Decoder, Callsite_Parameters [''MODULE'', ''FUNC_NAME'', ''LINENO'']]"

definition noisy_loggers :: "string list" where
  "noisy_loggers = [''sqlalchemy.engine.Engine'', ''aiokafka'', ''asyncio'', ''uvicorn.access'']"

definition configure_logging :: "settings \<Rightarrow> bool \<Rightarrow> log_state \<Rightarrow> log_state" where
  "configure_logging s isatty st =
     (let level = level_of (log_level s);
          renderer = (if use_json_logs s then JSON_Renderer True else Console_Renderer isatty)
      in \<lparr>ls_root_handlers =
            [\<lparr>lh_foreign_pre_chain = shared_processors, lh_processors = [Remove_Processors_Meta, renderer]\<rparr>],
          ls_root_level = level,
          ls_levels = fold (\<lambda>noisy m. m(noisy \<mapsto> max level 30)) noisy_loggers (ls_levels st),
          ls_structlog = Some \<lparr>sc_processors = shared_processors @ [Wrap_For_Formatter], sc_level = level,
            sc_cache = True\<rparr>\<rparr>)"

section \<open>Facts\<close>

lemma set_levels: "fold (\<lambda>n m. m(n \<mapsto> v)) ns m k = (if k \<in> set ns then Some v else m k)"
  by (induction ns arbitrary: m) auto

lemma configured_levels:
  "ls_levels (configure_logging s isatty st) k =
     (if k \<in> set noisy_loggers then Some (max (level_of (log_level s)) 30) else ls_levels st k)"
  "ls_root_level (configure_logging s isatty st) = level_of (log_level s)"
  by (simp_all only: configure_logging_def Let_def log_state.simps set_levels)

text \<open>A logger below a chatty one, or any other logger, with no level of its own on the way up.\<close>

inductive below :: "log_state \<Rightarrow> string \<Rightarrow> string option \<Rightarrow> bool" for st where
  here: "below st name (Some name)"
| root_logger: "ls_levels st name = None \<Longrightarrow> parent_logger name = None \<Longrightarrow> below st name None"
| up: "ls_levels st name = None \<Longrightarrow> parent_logger name = Some p \<Longrightarrow> below st p anc \<Longrightarrow> below st name anc"

lemma effective_below:
  "below st name anc \<Longrightarrow>
    (\<forall>n. anc = Some n \<longrightarrow> effective_level st name = effective_level st n)
    \<and> (anc = None \<longrightarrow> effective_level st name = ls_root_level st)"
  by (induction rule: below.induct) (simp_all add: effective_level.simps [of st])

text \<open>
  The setup is idempotent, and it decides the levels: configured twice is configured once; the root has
  one handler; a logger that inherits from a chatty library writes nothing below WARNING, and one that
  inherits from the root works with the level of the settings.
\<close>

theorem logging_configured:
  assumes "st' = configure_logging s isatty st"
  shows "configure_logging s isatty st' = st' \<and> length (ls_root_handlers st') = 1
    \<and> (\<forall>n\<in>set noisy_loggers. below st' name (Some n) \<longrightarrow> 30 \<le> effective_level st' name)
    \<and> (below st' name None \<longrightarrow> effective_level st' name = level_of (log_level s))"
proof (intro conjI ballI impI)
  show "configure_logging s isatty st' = st'"
    by (simp add: assms configure_logging_def Let_def set_levels fun_eq_iff)
  show "length (ls_root_handlers st') = 1" by (simp add: assms configure_logging_def Let_def)
  show "30 \<le> effective_level st' name" if "n \<in> set noisy_loggers" "below st' name (Some n)" for n
  proof -
    have "effective_level st' n = max (level_of (log_level s)) 30"
      using that(1) configured_levels(1) [of s isatty st n, folded assms]
      by (simp add: effective_level.simps [of st' n])
    with effective_below [OF that(2)] show ?thesis by simp
  qed
  show "effective_level st' name = level_of (log_level s)" if "below st' name None"
    using effective_below [OF that] by (simp add: assms configured_levels)
qed

definition fresh_logging :: log_state where
  "fresh_logging = \<lparr>ls_root_handlers = [], ls_root_level = 30, ls_levels = Map.empty, ls_structlog = None\<rparr>"

theorem logging_configured_witness:
  "30 \<le> effective_level (configure_logging (default_settings ''p'' ''r'') False fresh_logging) ''aiokafka.conn''
    \<and> effective_level (configure_logging (default_settings ''p'' ''r'') False fresh_logging) ''nimbus'' = 20"
proof -
  let ?st = "configure_logging (default_settings ''p'' ''r'') False fresh_logging"
  have parents: "parent_logger ''aiokafka.conn'' = Some ''aiokafka''" "parent_logger ''nimbus'' = None"
    by (code_simp, code_simp)
  have "ls_levels ?st ''aiokafka.conn'' = None" "ls_levels ?st ''nimbus'' = None"
    by (simp_all add: configured_levels noisy_loggers_def fresh_logging_def)
  then have "below ?st ''aiokafka.conn'' (Some ''aiokafka'')" "below ?st ''nimbus'' None"
    using parents by (auto intro: below.intros)
  moreover have "level_of (log_level (default_settings ''p'' ''r'')) = 20"
    by (simp add: level_of_def level_numbers_def default_settings_def)
  ultimately show ?thesis
    using logging_configured [OF HOL.refl] by (fastforce simp: noisy_loggers_def)
qed

end
