(* ===== verification/Relay_Fleet.thy ===== *)
theory Relay_Fleet
  imports Outbox_Relay
begin

text \<open>
  Several outbox relays on one table. The tick of \<open>Outbox_Relay\<close> is one relay with everything the others
  do during it left open; here the others are relays that run the same code, and the only other writers
  are the services, which insert rows. A tick is two steps, the claim with its row locks and the end of
  the batch; between them the other relays claim, publish, commit, roll back or die.

  The messages of one batch enter the log together: no property below depends on their order.
\<close>

section \<open>The fleet\<close>

text \<open>For each relay the rows it has claimed and locked, none when it is idle.\<close>

record 'w fleet =
  fl_table :: "outbox_event list"
  fl_log :: "'w wire_message list"
  fl_producer :: producer
  fl_claims :: "outbox_event list list"

text \<open>
  A relay claims; it ends its batch, with the outcomes of a tick; it dies after publishing some rows, and
  the database drops its transaction and its locks; services commit new rows.
\<close>

datatype fleet_action =
    Claim nat
  | Finish nat tick_io
  | Crash nat nat "uuid \<Rightarrow> send_outcome"
  | Commit_New "outbox_event list"

definition held :: "'w fleet \<Rightarrow> uuid list" where
  "held f = map ob_id (concat (fl_claims f))"

definition batch_lost :: "tick_io \<Rightarrow> batch_result \<Rightarrow> bool" where
  "batch_lost io bt \<longleftrightarrow> bt_fail_fast bt
     \<or> (bt_published bt \<noteq> 0 \<or> bt_poison bt \<noteq> 0) \<and> ti_flush_error io \<noteq> None
     \<or> (case ti_commit io of CommitFailed e \<Rightarrow> True | _ \<Rightarrow> False)"

definition end_batch ::
    "'w codec \<Rightarrow> relay_settings \<Rightarrow> tick_io \<Rightarrow> outbox_event list \<Rightarrow> producer
     \<Rightarrow> outbox_event list \<times> 'w wire_message list \<Rightarrow> outbox_event list \<times> 'w wire_message list" where
  "end_batch C cfg io rows p db =
     (case publish_batch C cfg (ti_send io) rows (p, snd db) of (bt, (p', log')) \<Rightarrow>
        (if batch_lost io bt then fst db
         else write_back (mark_batch (ti_now io) (bt_published bt) (bt_poison bt) (bt_rows bt)) (fst db), log'))"

fun fleet_act :: "'w codec \<Rightarrow> relay_settings \<Rightarrow> fleet_action \<Rightarrow> 'w fleet \<Rightarrow> 'w fleet" where
  "fleet_act C cfg (Claim i) f =
     f\<lparr>fl_claims := (fl_claims f)[i := claim_batch cfg (held f) (fl_table f)]\<rparr>"
| "fleet_act C cfg (Finish i io) f =
     (case end_batch C cfg io (fl_claims f ! i) (fl_producer f) (fl_table f, fl_log f) of (table, log') \<Rightarrow>
        f\<lparr>fl_table := table, fl_log := log', fl_claims := (fl_claims f)[i := []]\<rparr>)"
| "fleet_act C cfg (Crash i k send) f =
     f\<lparr>fl_log := snd (snd (publish_batch C cfg send (take k (fl_claims f ! i)) (fl_producer f, fl_log f))),
       fl_claims := (fl_claims f)[i := []]\<rparr>"
| "fleet_act C cfg (Commit_New rows) f = f\<lparr>fl_table := fl_table f @ rows\<rparr>"

text \<open>
  When an action can happen. New rows have fresh identifiers and are neither processed nor failed.
\<close>

fun fleet_can :: "fleet_action \<Rightarrow> 'w fleet \<Rightarrow> bool" where
  "fleet_can (Claim i) f \<longleftrightarrow> i < length (fl_claims f) \<and> fl_claims f ! i = []"
| "fleet_can (Finish i io) f \<longleftrightarrow> i < length (fl_claims f) \<and> fl_claims f ! i \<noteq> []"
| "fleet_can (Crash i k send) f \<longleftrightarrow> i < length (fl_claims f)"
| "fleet_can (Commit_New rows) f \<longleftrightarrow> distinct (map ob_id rows)
     \<and> ob_id ` set rows \<inter> ob_id ` set (fl_table f) = {} \<and> (\<forall>r\<in>set rows. claimable r)"

text \<open>
  What some theorems assume besides: in the batches that are brought to an end the driver raises only
  Kafka errors. A batch cut short by the death of its relay writes nothing, so its sends may end anyhow.
\<close>

fun kafka_errors_only :: "fleet_action \<Rightarrow> bool" where
  "kafka_errors_only (Finish i io) \<longleftrightarrow> (\<forall>k. send_expected (ti_send io k))"
| "kafka_errors_only _ \<longleftrightarrow> True"

text \<open>A run is a list of actions, each of which can happen where it does.\<close>

fun fleet_runs :: "'w codec \<Rightarrow> relay_settings \<Rightarrow> fleet_action list \<Rightarrow> 'w fleet \<Rightarrow> bool" where
  "fleet_runs C cfg [] f \<longleftrightarrow> True"
| "fleet_runs C cfg (a # as) f \<longleftrightarrow> fleet_can a f \<and> fleet_runs C cfg as (fleet_act C cfg a f)"

definition fleet_after :: "'w codec \<Rightarrow> relay_settings \<Rightarrow> fleet_action list \<Rightarrow> 'w fleet \<Rightarrow> 'w fleet" where
  "fleet_after C cfg as f = fold (fleet_act C cfg) as f"

lemma fleet_after_simps [simp]:
  "fleet_after C cfg [] f = f"
  "fleet_after C cfg (a # as) f = fleet_after C cfg as (fleet_act C cfg a f)"
  by (simp_all add: fleet_after_def)

section \<open>The end of a batch\<close>

lemma end_batch_split:
  "end_batch C cfg io rows p (table, log) =
     (let bp = publish_batch C cfg (ti_send io) rows (p, log); bt = fst bp in
      (if batch_lost io bt then table
       else write_back (mark_batch (ti_now io) (bt_published bt) (bt_poison bt) (bt_rows bt)) table,
       snd (snd bp)))"
  by (simp add: end_batch_def Let_def split: prod.splits)

text \<open>A batch ends as a tick that has claimed the same rows does.\<close>

lemma tick_end_batch:
  assumes "ti_claim_error io = None" and "tick_rows cfg io s \<noteq> []"
  shows "(re_outbox (snd (tick C cfg io s)), re_log (snd (tick C cfg io s))) =
    end_batch C cfg io (tick_rows cfg io s) (re_producer s)
      (others_during io (tick_rows cfg io s) (re_outbox s), re_log s)"
  using assms
  by (auto simp: tick_def tick_rows_def end_batch_def batch_lost_def Let_def
      split: prod.splits option.splits commit_outcome.splits if_splits)

lemma write_back_ids [simp]: "map ob_id (write_back batch table) = map ob_id table"
  by (auto simp: write_back_def dest: find_SomeE split: option.split)

lemma end_batch_events:
  obtains batch where "map row_event batch = map row_event rows"
    and "fst (end_batch C cfg io rows p (table, log)) \<in> {table, write_back batch table}"
proof -
  let ?bt = "fst (publish_batch C cfg (ti_send io) rows (p, log))"
  have "map row_event (mark_batch (ti_now io) (bt_published ?bt) (bt_poison ?bt) (bt_rows ?bt)) = map row_event rows"
    by (simp add: mark_batch_events publish_batch_def publish_rows_events)
  moreover have "fst (end_batch C cfg io rows p (table, log)) \<in> {table,
      write_back (mark_batch (ti_now io) (bt_published ?bt) (bt_poison ?bt) (bt_rows ?bt)) table}"
    by (simp add: end_batch_split Let_def)
  ultimately show thesis by (rule that)
qed

text \<open>A batch changes no row outside it, however it ends.\<close>

lemma end_batch_stays:
  assumes "r \<in> set table" and "ob_id r \<notin> ob_id ` set rows"
  shows "r \<in> set (fst (end_batch C cfg io rows p (table, log)))"
proof -
  obtain batch where b: "map row_event batch = map row_event rows"
    "fst (end_batch C cfg io rows p (table, log)) \<in> {table, write_back batch table}"
    by (rule end_batch_events)
  have "ob_id ` set batch = ob_id ` set rows" using row_event_id [OF b(1)] by (metis set_map)
  then have "r \<in> set (write_back batch table)" using assms by (intro write_back_stays) simp_all
  with b(2) assms(1) show ?thesis by auto
qed

lemma end_batch_ids [simp]: "map ob_id (fst (end_batch C cfg io rows p (table, log))) = map ob_id table"
  by (simp add: end_batch_split Let_def)

text \<open>The two ways a batch can end when the driver raises only Kafka errors.\<close>

lemma end_batch_cases:
  assumes "rows \<noteq> []" and "\<forall>r\<in>set rows. claimable r \<and> send_expected (ti_send io (ob_id r))"
    and "distinct (map ob_id table)" and "set rows \<subseteq> set table"
  obtains (lost) ms where "end_batch C cfg io rows p (table, log) = (table, log @ ms)"
      and "(\<exists>r\<in>set rows. is_outage (row_fate_of C (max_attempts cfg) (ti_send io) p r))
        \<or> ti_flush_error io \<noteq> None \<or> (\<exists>e. ti_commit io = CommitFailed e)"
    | (kept) "end_batch C cfg io rows p (table, log) =
        (map (\<lambda>r. if r \<in> set rows then settled (ti_now io) (row_fate_of C (max_attempts cfg) (ti_send io) p r) r else r) table,
         log @ concat (map (row_messages C (max_attempts cfg) (ti_send io) p) rows))"
      and "\<forall>r\<in>set rows. \<not> is_outage (row_fate_of C (max_attempts cfg) (ti_send io) p r)
        \<and> \<not> is_unexpected (row_fate_of C (max_attempts cfg) (ti_send io) p r)"
proof -
  let ?F = "row_fate_of C (max_attempts cfg) (ti_send io) p"
  show thesis
  proof (cases "\<exists>r\<in>set rows. is_outage (?F r)")
    case True
    from publish_rows_fail_fast [OF this] obtain bt ms where
      "publish_batch C cfg (ti_send io) rows (p, log) = (bt, (p, log @ ms))" "bt_fail_fast bt"
      unfolding publish_batch_def by blast
    then show thesis using True by (intro lost [of ms]) (simp_all add: end_batch_split batch_lost_def)
  next
    case False
    then have none: "\<forall>r\<in>set rows. \<not> is_outage (?F r)" by blast
    have un: "\<forall>r\<in>set rows. \<not> is_unexpected (?F r)" using assms(2) fate_expected by blast
    let ?io = "io\<lparr>ti_others := \<lambda>r. r, ti_new := []\<rparr>"
    note pb = publish_rows_no_outage [OF none]
    let ?bt = "fst (publish_batch C cfg (ti_send io) rows (p, log))"
    have log': "snd (snd (publish_batch C cfg (ti_send io) rows (p, log)))
        = log @ concat (map (row_messages C (max_attempts cfg) (ti_send io) p) rows)"
      by (simp add: publish_batch_def pb)
    show thesis
    proof (cases "batch_lost io ?bt")
      case True
      moreover have "\<not> bt_fail_fast ?bt" by (simp add: publish_batch_def pb)
      ultimately have "ti_flush_error io \<noteq> None \<or> (\<exists>e. ti_commit io = CommitFailed e)"
        by (auto simp: batch_lost_def split: commit_outcome.splits)
      with True log' show thesis by (intro lost) (simp_all add: end_batch_split Let_def)
    next
      case False
      have "mark_batch (ti_now io) (bt_published ?bt) (bt_poison ?bt) (bt_rows ?bt) = map (\<lambda>r. settled (ti_now io) (?F r) r) rows"
        using mark_batch_exact [OF assms(1), of ?F] assms(2) none un
        by (simp add: publish_batch_def pb claimable_def)
      moreover have "others_during ?io rows table = table"
        by (auto simp: others_during_def intro: map_idI)
      then have "write_back (map (\<lambda>r. settled (ti_now io) (?F r) r) rows) table
          = map (\<lambda>r. if r \<in> set rows then settled (ti_now io) (?F r) r else r) table"
        using write_back_others [OF assms(3,4), of "\<lambda>r. settled (ti_now io) (?F r) r" ?io]
        by (simp add: other_row_def cong: if_cong)
      ultimately show thesis
        using False log' none un by (intro kept) (simp_all add: end_batch_split Let_def)
    qed
  qed
qed

lemma processed_was_sent:
  assumes "claimable r" and "ob_processed (settled now (row_fate_of C mx send p r) r)"
  shows "row_fate_of C mx send p r = Sent" and "logged C (row_messages C mx send p r) (settled now (row_fate_of C mx send p r) r)"
proof -
  show sent: "row_fate_of C mx send p r = Sent"
    using assms by (cases "row_fate_of C mx send p r") (auto simp: settled_def after_fate_def claimable_def)
  show "logged C (row_messages C mx send p r) (settled now (row_fate_of C mx send p r) r)"
    by (rule logged_cong [THEN iffD1, OF _ _ Sent_logged [OF sent]]) (simp_all add: sent settled_def marked_def)
qed

section \<open>The invariant\<close>

text \<open>
  The structure, which every action keeps: no row is in the table twice, none is claimed twice, and a
  claimed row is in the table as it was claimed. And what the relay is for: processed rows were sent.
\<close>

definition fleet_wf :: "'w fleet \<Rightarrow> bool" where
  "fleet_wf f \<longleftrightarrow> distinct (map ob_id (fl_table f)) \<and> distinct (held f)
     \<and> (\<forall>r\<in>set (concat (fl_claims f)). r \<in> set (fl_table f) \<and> claimable r)"

definition fleet_inv :: "'w codec \<Rightarrow> 'w fleet \<Rightarrow> bool" where
  "fleet_inv C f \<longleftrightarrow> fleet_wf f \<and> (\<forall>r\<in>set (fl_table f). ob_processed r \<longrightarrow> logged C (fl_log f) r)"

lemma nth_split: "i < length xs \<Longrightarrow> \<exists>a b. xs = a @ (xs ! i) # b \<and> length a = i"
  by (rule exI [of _ "take i xs"], rule exI [of _ "drop (Suc i) xs"]) (simp add: id_take_nth_drop)

lemma claims_update:
  assumes "i < length cs"
  obtains a b where "concat cs = a @ cs ! i @ b" and "\<forall>x. concat (cs[i := x]) = a @ x @ b"
proof -
  obtain a b where ab: "cs = a @ cs ! i # b" and l: "length a = i" using nth_split [OF assms] by blast
  have "(a @ y # b)[i := x] = a @ x # b" for x y using l by auto
  then have "cs[i := x] = a @ x # b" for x using ab by metis
  then have "\<forall>x. concat (cs[i := x]) = concat a @ x @ concat b" by simp
  moreover from ab have "concat cs = concat a @ cs ! i @ concat b" by (metis concat.simps(2) concat_append)
  ultimately show thesis using that by blast
qed

lemma mark_row_stays:
  "r \<in> set t \<Longrightarrow> r \<notin> set rows \<Longrightarrow> r \<in> set (map (\<lambda>r. if r \<in> set rows then g r else r) t)"
  by (force simp: image_iff)

lemma fleet_wf_claim:
  assumes inv: "fleet_wf f" and can: "fleet_can (Claim i) f"
  shows "fleet_wf (fleet_act C cfg (Claim i) f)"
proof -
  let ?new = "claim_batch cfg (held f) (fl_table f)"
  from can have i: "i < length (fl_claims f)" and idle: "fl_claims f ! i = []" by simp_all
  obtain a b where ab: "concat (fl_claims f) = a @ fl_claims f ! i @ b" "\<forall>x. concat ((fl_claims f)[i := x]) = a @ x @ b"
    by (rule claims_update [OF i])
  have old: "concat (fl_claims f) = a @ b" using ab(1) idle by simp
  have new: "r \<in> set (fl_table f) \<and> claimable r \<and> ob_id r \<notin> set (held f)" if "r \<in> set ?new" for r
    using claim_batch_subset [OF that] .
  have "distinct (map ob_id (sort_key ob_created_at (filter (\<lambda>r. claimable r \<and> ob_id r \<notin> set (held f)) (fl_table f))))"
    using inv by (simp add: fleet_wf_def distinct_map inj_on_def)
  then have "distinct (map ob_id ?new)" by (simp add: claim_batch_def take_map [symmetric])
  moreover have "ob_id ` set ?new \<inter> set (held f) = {}" using new by blast
  ultimately have "distinct (map ob_id (a @ ?new @ b))"
    using inv unfolding fleet_wf_def by (simp add: held_def old) blast
  moreover have "\<forall>r\<in>set (a @ ?new @ b). r \<in> set (fl_table f) \<and> claimable r"
    using new inv unfolding fleet_wf_def old by auto
  moreover have "held (fleet_act C cfg (Claim i) f) = map ob_id (a @ ?new @ b)"
    using ab(2) by (simp add: held_def)
  ultimately show ?thesis using inv ab(2) unfolding fleet_wf_def by (simp del: set_concat)
qed

lemma fleet_wf_release:
  assumes "fleet_wf f" and "i < length (fl_claims f)" and "map ob_id t = map ob_id (fl_table f)"
    and "\<And>r. r \<in> set (fl_table f) \<Longrightarrow> ob_id r \<notin> ob_id ` set (fl_claims f ! i) \<Longrightarrow> r \<in> set t"
  shows "fleet_wf (f\<lparr>fl_table := t, fl_log := log', fl_claims := (fl_claims f)[i := []]\<rparr>)"
proof -
  obtain a b where ab: "concat (fl_claims f) = a @ fl_claims f ! i @ b" "\<forall>x. concat ((fl_claims f)[i := x]) = a @ x @ b"
    by (rule claims_update [OF assms(2)])
  have wf: "distinct (map ob_id (a @ fl_claims f ! i @ b))"
    "\<forall>r\<in>set (a @ fl_claims f ! i @ b). r \<in> set (fl_table f) \<and> claimable r" "distinct (map ob_id (fl_table f))"
    using assms(1) unfolding fleet_wf_def held_def ab(1) by simp_all
  then have "distinct (map ob_id (a @ b))" by auto
  moreover have "r \<in> set t \<and> claimable r" if r: "r \<in> set (a @ b)" for r
  proof -
    have "ob_id r \<notin> ob_id ` set (fl_claims f ! i)" using wf(1) r by (auto simp: image_iff)
    then show ?thesis using wf(2) r assms(4) by auto
  qed
  ultimately show ?thesis using wf(3) assms(3) unfolding fleet_wf_def held_def
    by (simp add: ab(2) del: set_concat)
qed

lemma fleet_wf_act:
  assumes "fleet_wf f" and "fleet_can a f"
  shows "fleet_wf (fleet_act C cfg a f)"
proof (cases a)
  case (Claim i)
  with assms fleet_wf_claim show ?thesis by blast
next
  case (Finish i io)
  let ?e = "end_batch C cfg io (fl_claims f ! i) (fl_producer f) (fl_table f, fl_log f)"
  have "fleet_wf (f\<lparr>fl_table := fst ?e, fl_log := snd ?e, fl_claims := (fl_claims f)[i := []]\<rparr>)"
    by (rule fleet_wf_release) (use assms Finish in \<open>simp_all add: end_batch_stays\<close>)
  then show ?thesis using Finish by (simp add: case_prod_unfold)
next
  case (Crash i k send)
  have "fleet_wf (f\<lparr>fl_table := fl_table f, fl_log := l, fl_claims := (fl_claims f)[i := []]\<rparr>)" for l
    by (rule fleet_wf_release) (use assms Crash in simp_all)
  then show ?thesis using Crash by simp
next
  case (Commit_New rows)
  with assms show ?thesis by (auto simp: fleet_wf_def held_def claimable_def)
qed

lemma fleet_runs_wf: "fleet_runs C cfg as f \<Longrightarrow> fleet_wf f \<Longrightarrow> fleet_wf (fleet_after C cfg as f)"
  by (induction as arbitrary: f) (auto intro: fleet_wf_act simp del: fleet_act.simps fleet_can.simps)

lemma publish_batch_log: "\<exists>bt ms. \<forall>log. publish_batch C cfg send rows (p, log) = (bt, (p, log @ ms))"
  unfolding publish_batch_def using publish_rows_log by blast

lemma end_batch_log: "\<exists>ms. \<forall>log. snd (end_batch C cfg io rows p (table, log)) = log @ ms
    \<and> fst (end_batch C cfg io rows p (table, log)) = fst (end_batch C cfg io rows p (table, []))"
proof -
  obtain bt ms where "\<forall>log. publish_batch C cfg (ti_send io) rows (p, log) = (bt, (p, log @ ms))"
    using publish_batch_log by blast
  then show ?thesis by (intro exI [of _ ms]) (simp add: end_batch_split Let_def)
qed

text \<open>Every action adds to the log.\<close>

lemma act_log: "\<exists>ms. fl_log (fleet_act C cfg a f) = fl_log f @ ms"
proof (cases a)
  case (Finish i io)
  obtain ms where "\<forall>log. snd (end_batch C cfg io (fl_claims f ! i) (fl_producer f) (fl_table f, log)) = log @ ms"
    using end_batch_log by blast
  then show ?thesis using Finish by (simp add: case_prod_unfold)
next
  case (Crash i k send)
  obtain bt ms where "publish_batch C cfg send (take k (fl_claims f ! i)) (fl_producer f, fl_log f)
      = (bt, (fl_producer f, fl_log f @ ms))"
    using publish_batch_log by blast
  then show ?thesis using Crash by simp
qed simp_all

lemma fleet_inv_finish:
  assumes inv: "fleet_inv C f" and can: "fleet_can (Finish i io) f" and errors: "kafka_errors_only (Finish i io)"
  shows "fleet_inv C (fleet_act C cfg (Finish i io) f)"
proof -
  let ?rows = "fl_claims f ! i" and ?F = "row_fate_of C (max_attempts cfg) (ti_send io) (fl_producer f)"
    and ?f' = "fleet_act C cfg (Finish i io) f"
  from can have i: "i < length (fl_claims f)" and busy: "?rows \<noteq> []" by simp_all
  have mine: "set ?rows \<subseteq> set (concat (fl_claims f))" using i by (auto intro!: bexI [of _ ?rows])
  have ready: "\<forall>r\<in>set ?rows. claimable r \<and> send_expected (ti_send io (ob_id r))" "distinct (map ob_id (fl_table f))"
    "set ?rows \<subseteq> set (fl_table f)"
    using inv errors mine unfolding fleet_inv_def fleet_wf_def by (auto simp del: set_concat)
  have wf: "fleet_wf ?f'" by (rule fleet_wf_act [OF _ can]) (use inv in \<open>simp add: fleet_inv_def\<close>)
  show ?thesis
  proof (rule end_batch_cases [OF busy ready, of C cfg "fl_producer f" "fl_log f"], goal_cases lost kept)
    case (lost ms)
    then have "fl_table ?f' = fl_table f" "fl_log ?f' = fl_log f @ ms" by simp_all
    then show ?case using wf inv unfolding fleet_inv_def by (metis logged_mono)
  next
    case kept
    let ?g = "\<lambda>r. if r \<in> set ?rows then settled (ti_now io) (?F r) r else r"
    let ?ms = "concat (map (row_messages C (max_attempts cfg) (ti_send io) (fl_producer f)) ?rows)"
    have f': "fl_table ?f' = map ?g (fl_table f)" "fl_log ?f' = fl_log f @ ?ms" using kept(1) by simp_all
    have "logged C (fl_log f @ ?ms) (?g r)" if r: "r \<in> set (fl_table f)" "ob_processed (?g r)" for r
    proof (cases "r \<in> set ?rows")
      case True
      then have "claimable r" and g: "?g r = settled (ti_now io) (?F r) r" using ready(1) by simp_all
      have "logged C (row_messages C (max_attempts cfg) (ti_send io) (fl_producer f) r) (?g r)"
        unfolding g by (rule processed_was_sent(2) [OF \<open>claimable r\<close>]) (use r(2) g in simp)
      with True show ?thesis by (auto simp: logged_def split: sum.splits)
    next
      case False
      then show ?thesis using r inv by (auto simp: fleet_inv_def intro: logged_mono)
    qed
    then show ?case using wf unfolding fleet_inv_def f' set_map by blast
  qed
qed

lemma fleet_inv_act:
  assumes inv: "fleet_inv C f" and can: "fleet_can a f" and "kafka_errors_only a"
  shows "fleet_inv C (fleet_act C cfg a f)"
proof (cases "\<exists>i io. a = Finish i io")
  case True
  then show ?thesis using fleet_inv_finish assms by blast
next
  case False
  obtain ms where "fl_log (fleet_act C cfg a f) = fl_log f @ ms" using act_log by blast
  moreover have "r \<in> set (fl_table f)" if "r \<in> set (fl_table (fleet_act C cfg a f))" "ob_processed r" for r
    using that False can by (cases a) (auto simp: claimable_def)
  moreover have "fleet_wf (fleet_act C cfg a f)"
    by (rule fleet_wf_act [OF _ can]) (use inv in \<open>simp add: fleet_inv_def\<close>)
  ultimately show ?thesis using inv unfolding fleet_inv_def by (metis logged_mono)
qed

lemma fleet_runs_inv:
  "fleet_runs C cfg as f \<Longrightarrow> list_all kafka_errors_only as \<Longrightarrow> fleet_inv C f \<Longrightarrow> fleet_inv C (fleet_after C cfg as f)"
  by (induction as arbitrary: f) (auto intro: fleet_inv_act simp del: fleet_act.simps fleet_can.simps kafka_errors_only.simps)

text \<open>No action changes the event of a row that is in the table.\<close>

lemma write_back_events:
  assumes "map row_event batch = map row_event rows" and "set rows \<subseteq> set table" and "distinct (map ob_id table)"
  shows "map row_event (write_back batch table) = map row_event table"
proof -
  have "row_event b = row_event r" if r: "r \<in> set table" and b: "find (\<lambda>b. ob_id b = ob_id r) batch = Some b" for r b
  proof -
    have "b \<in> set batch" "ob_id b = ob_id r" using find_SomeE [OF b] by simp_all
    then have "row_event b \<in> row_event ` set rows" using assms(1) by (metis image_eqI set_map)
    then obtain x where x: "x \<in> set rows" "row_event x = row_event b" by auto
    then have "ob_id x = ob_id r" using \<open>ob_id b = ob_id r\<close> by (simp add: row_event_def)
    then have "x = r" using x(1) r assms(2,3) by (auto simp: distinct_map dest: inj_onD)
    with x(2) show ?thesis by simp
  qed
  then show ?thesis by (auto simp: write_back_def split: option.split)
qed

lemma act_events:
  assumes "fleet_wf f" and "fleet_can a f"
  shows "\<exists>new. map row_event (fl_table (fleet_act C cfg a f)) = map row_event (fl_table f) @ new"
proof (cases a)
  case (Finish i io)
  let ?e = "end_batch C cfg io (fl_claims f ! i) (fl_producer f) (fl_table f, fl_log f)"
  obtain batch where b: "map row_event batch = map row_event (fl_claims f ! i)" "fst ?e \<in> {fl_table f, write_back batch (fl_table f)}"
    by (rule end_batch_events)
  have "i < length (fl_claims f)" using assms(2) Finish by simp
  then have "set (fl_claims f ! i) \<subseteq> set (concat (fl_claims f))" by (auto intro!: bexI [of _ "fl_claims f ! i"])
  then have "set (fl_claims f ! i) \<subseteq> set (fl_table f)" "distinct (map ob_id (fl_table f))"
    using assms(1) unfolding fleet_wf_def by blast+
  from write_back_events [OF b(1) this] b(2) have "map row_event (fst ?e) = map row_event (fl_table f)" by auto
  then show ?thesis using Finish by (simp add: case_prod_unfold)
qed simp_all

lemma fleet_runs_events:
  assumes "fleet_runs C cfg as f" and "fleet_wf f"
  shows "\<exists>new. map row_event (fl_table (fleet_after C cfg as f)) = map row_event (fl_table f) @ new"
  using assms
proof (induction as arbitrary: f)
  case (Cons a as)
  from Cons.prems have a: "fleet_can a f" "fleet_runs C cfg as (fleet_act C cfg a f)" by simp_all
  have "\<exists>new. map row_event (fl_table (fleet_after C cfg as (fleet_act C cfg a f)))
      = map row_event (fl_table (fleet_act C cfg a f)) @ new"
    by (rule Cons.IH [OF a(2) fleet_wf_act [OF Cons.prems(2) a(1)]])
  with act_events [OF Cons.prems(2) a(1), of C cfg] show ?case by auto
qed simp

lemma same_row: "distinct (map ob_id t) \<Longrightarrow> x \<in> set t \<Longrightarrow> y \<in> set t \<Longrightarrow> ob_id x = ob_id y \<Longrightarrow> x = y"
  by (simp add: distinct_map inj_on_def)

lemma fleet_keeps_event:
  assumes "fleet_runs C cfg as f" and "fleet_wf f" and "x \<in> set (fl_table f)"
    and "r \<in> set (fl_table (fleet_after C cfg as f))" and "ob_id r = ob_id x"
  shows "ob_topic r = ob_topic x" and "ob_payload r = ob_payload x"
proof -
  obtain new where "map row_event (fl_table (fleet_after C cfg as f)) = map row_event (fl_table f) @ new"
    using fleet_runs_events [OF assms(1,2)] by blast
  then have "row_event x \<in> set (map row_event (fl_table (fleet_after C cfg as f)))" using assms(3) by simp
  then obtain y where y: "y \<in> set (fl_table (fleet_after C cfg as f))" "row_event y = row_event x" by auto
  have "y = r"
    using fleet_runs_wf [OF assms(1,2)] y assms(4,5) same_row [of "fl_table (fleet_after C cfg as f)" y r]
    by (simp add: fleet_wf_def row_event_def)
  then show "ob_topic r = ob_topic x" "ob_payload r = ob_payload x" using y(2) by (simp_all add: row_event_def)
qed

section \<open>What the others do while a batch is held\<close>

fun act_relay :: "fleet_action \<Rightarrow> nat option" where
  "act_relay (Claim i) = Some i"
| "act_relay (Finish i io) = Some i"
| "act_relay (Crash i k send) = Some i"
| "act_relay (Commit_New rows) = None"

lemma act_frame:
  assumes "act_relay a \<noteq> Some i"
  shows "fl_claims (fleet_act C cfg a f) ! i = fl_claims f ! i"
  using assms by (cases a) (auto split: prod.split)

lemma act_producer [simp]: "fl_producer (fleet_act C cfg a f) = fl_producer f"
  by (cases a) (auto split: prod.split)

lemma act_ids: "\<exists>new. map ob_id (fl_table (fleet_act C cfg a f)) = map ob_id (fl_table f) @ new"
proof (cases a)
  case (Finish i io)
  have "map ob_id (fst (end_batch C cfg io (fl_claims f ! i) (fl_producer f) (fl_table f, fl_log f))) = map ob_id (fl_table f)"
    by (rule end_batch_ids)
  then show ?thesis using Finish
    by (cases "end_batch C cfg io (fl_claims f ! i) (fl_producer f) (fl_table f, fl_log f)") simp
qed simp_all

lemma others_run:
  assumes "list_all (\<lambda>a. act_relay a \<noteq> Some i) as"
  shows "fl_claims (fleet_after C cfg as f) ! i = fl_claims f ! i"
    and "fl_producer (fleet_after C cfg as f) = fl_producer f"
    and "\<exists>new. map ob_id (fl_table (fleet_after C cfg as f)) = map ob_id (fl_table f) @ new"
proof -
  show "fl_claims (fleet_after C cfg as f) ! i = fl_claims f ! i"
    using assms by (induction as arbitrary: f) (simp_all add: act_frame)
  show "fl_producer (fleet_after C cfg as f) = fl_producer f"
    by (induction as arbitrary: f) simp_all
  show "\<exists>new. map ob_id (fl_table (fleet_after C cfg as f)) = map ob_id (fl_table f) @ new"
  proof (induction as arbitrary: f)
    case (Cons a as)
    obtain new where "map ob_id (fl_table (fleet_after C cfg as (fleet_act C cfg a f)))
        = map ob_id (fl_table (fleet_act C cfg a f)) @ new"
      using Cons.IH by blast
    then show ?case using act_ids [of C cfg a f] by auto
  qed simp
qed

text \<open>Seen from the relay that holds \<open>rows\<close>, the table became what \<open>others_during\<close> says.\<close>

definition seen_by_tick :: "uuid list \<Rightarrow> outbox_event list \<Rightarrow> outbox_event list \<Rightarrow> tick_io \<Rightarrow> tick_io" where
  "seen_by_tick locked t t' io = io\<lparr>ti_claim_error := None, ti_locked := locked,
     ti_others := (\<lambda>r. case find (\<lambda>x. ob_id x = ob_id r) t' of Some x \<Rightarrow> x | None \<Rightarrow> r),
     ti_new := drop (length t) t'\<rparr>"

lemma seen_by_tick_fields:
  "ti_send (seen_by_tick locked t t' io) = ti_send io" "ti_flush_error (seen_by_tick locked t t' io) = ti_flush_error io"
  "ti_commit (seen_by_tick locked t t' io) = ti_commit io" "ti_now (seen_by_tick locked t t' io) = ti_now io"
  by (simp_all add: seen_by_tick_def)

lemma seen_by_tick_end: "end_batch C cfg (seen_by_tick locked t t' io) rows p db = end_batch C cfg io rows p db"
  unfolding end_batch_def batch_lost_def seen_by_tick_fields by (rule HOL.refl)

lemma seen_by_tick_row:
  assumes ids: "map ob_id t' = map ob_id t @ new" and "distinct (map ob_id t')" and "j < length t"
  shows "other_row (seen_by_tick locked t t' io) (t ! j) = t' ! j"
proof -
  have j: "j < length t'" using ids assms(3) by (metis length_append length_map trans_less_add1)
  have "ob_id (t' ! j) = ob_id (t ! j)" using ids assms(3) j by (metis length_map nth_append nth_map)
  then show ?thesis using find_nth [OF assms(2) nth_mem [OF j]]
    by (simp add: other_row_def seen_by_tick_def)
qed

lemma seen_by_tick_table:
  assumes ids: "map ob_id t' = map ob_id t @ new" and dis: "distinct (map ob_id t')"
    and "set rows \<subseteq> set t" and "set rows \<subseteq> set t'"
  shows "others_during (seen_by_tick locked t t' io) rows t = t'"
proof -
  have len: "length t \<le> length t'" using ids by (metis length_append length_map le_add1)
  have "map (\<lambda>r. if ob_id r \<in> ob_id ` set rows then r else other_row (seen_by_tick locked t t' io) r) t = take (length t) t'"
  proof (rule nth_equalityI)
    fix j assume "j < length (map (\<lambda>r. if ob_id r \<in> ob_id ` set rows then r
        else other_row (seen_by_tick locked t t' io) r) t)"
    then have j: "j < length t" by simp
    have id: "ob_id (t' ! j) = ob_id (t ! j)" using ids j len by (metis length_map nth_append nth_map order_less_le_trans)
    have "t ! j = t' ! j" if held: "ob_id (t ! j) \<in> ob_id ` set rows"
    proof -
      from held obtain x where x: "x \<in> set rows" "ob_id x = ob_id (t ! j)" by auto
      have "distinct (map ob_id t)" using dis ids by simp
      then have "x = t ! j" using x assms(3) j by (auto simp: distinct_map dest: inj_onD)
      moreover have "x = t' ! j"
      proof -
        have "x \<in> set t'" "t' ! j \<in> set t'" using x(1) assms(4) j len by auto
        then show ?thesis by (rule same_row [OF dis]) (use x(2) id in simp)
      qed
      ultimately show ?thesis by simp
    qed
    then show "map (\<lambda>r. if ob_id r \<in> ob_id ` set rows then r
        else other_row (seen_by_tick locked t t' io) r) t ! j = take (length t) t' ! j"
      using seen_by_tick_row [OF ids dis j] j by simp
  qed (simp add: len)
  moreover have "ti_new (seen_by_tick locked t t' io) = drop (length t) t'" by (simp add: seen_by_tick_def)
  ultimately show ?thesis
    unfolding others_during_def other_row_def [symmetric] by (simp only: append_take_drop_id)
qed

section \<open>How often a row is sent\<close>

definition sent_count :: "uuid \<Rightarrow> 'w wire_message list \<Rightarrow> nat" where
  "sent_count k log = length (filter (\<lambda>m. map_of (wm_headers m) ''outbox_id'' = Some (str_uuid k)) log)"

lemma sent_count_simps [simp]:
  "sent_count k [] = 0" "sent_count k (ms @ ms') = sent_count k ms + sent_count k ms'"
  by (simp_all add: sent_count_def)

text \<open>Nothing fails: every send is acknowledged, every batch is committed, no relay dies.\<close>

fun calm :: "fleet_action \<Rightarrow> bool" where
  "calm (Finish i io) \<longleftrightarrow> (\<forall>k. \<exists>n off. ti_send io k = Ack n off) \<and> ti_flush_error io = None \<and> ti_commit io = Committed"
| "calm (Crash i k send) \<longleftrightarrow> False"
| "calm _ \<longleftrightarrow> True"

lemma calm_errors: "calm a \<Longrightarrow> kafka_errors_only a"
proof (cases a)
  case (Finish i io)
  show "calm a \<Longrightarrow> kafka_errors_only a"
    using Finish by (simp add: send_expected_def) (metis send_outcome.simps(10))
qed simp_all

lemma acked_row:
  assumes "send (ob_id r) = Ack n off" and "pr_started p" and "pr_producer p"
  shows "\<not> is_outage (row_fate_of C mx send p r)"
    and "sent_count k (row_messages C mx send p r) = (if row_fate_of C mx send p r = Sent \<and> ob_id r = k then 1 else 0)"
  using assms
  by (auto simp: row_fate_of_def row_messages_def publish_one_def publish_def seq_def Let_def sent_count_def
      wire_headers_def outbox_headers_def undeserializable_def nimbus_error_def split: sum.splits)

lemma acked_rows:
  assumes "\<forall>k. \<exists>n off. send k = Ack n off" and "pr_started p" and "pr_producer p" and "distinct (map ob_id rows)"
  shows "sent_count k (concat (map (row_messages C mx send p) rows))
    = (if \<exists>r\<in>set rows. ob_id r = k \<and> row_fate_of C mx send p r = Sent then 1 else 0)"
  using assms(4)
proof (induction rows)
  case (Cons r rows)
  obtain n off where ack: "send (ob_id r) = Ack n off" using assms(1) by blast
  note one = acked_row(2) [of send r n off p k C mx, OF ack assms(2,3)]
  show ?case
  proof (cases "ob_id r = k")
    case True
    then have "\<not> (\<exists>x\<in>set rows. ob_id x = k)" using Cons.prems by (simp add: image_iff) metis
    with Cons one True show ?thesis by auto
  next
    case False
    with Cons one show ?thesis by simp
  qed
qed simp

definition done_row :: "uuid \<Rightarrow> outbox_event list \<Rightarrow> bool" where
  "done_row k t \<longleftrightarrow> (\<exists>r\<in>set t. ob_id r = k \<and> ob_processed r)"

definition sent_once :: "'w fleet \<Rightarrow> bool" where
  "sent_once f \<longleftrightarrow> (\<forall>k. sent_count k (fl_log f) \<le> 1 \<and> (sent_count k (fl_log f) \<noteq> 0 \<longrightarrow> done_row k (fl_table f)))"

lemma sent_once_finish:
  assumes inv: "fleet_wf f" and once: "sent_once f" and can: "fleet_can (Finish i io) f" and calm: "calm (Finish i io)"
    and p: "pr_started (fl_producer f)" "pr_producer (fl_producer f)"
  shows "sent_once (fleet_act C cfg (Finish i io) f)"
proof -
  let ?rows = "fl_claims f ! i" and ?F = "row_fate_of C (max_attempts cfg) (ti_send io) (fl_producer f)"
  from can have i: "i < length (fl_claims f)" and busy: "?rows \<noteq> []" by simp_all
  obtain a b where ab: "concat (fl_claims f) = a @ ?rows @ b" "\<forall>x. concat ((fl_claims f)[i := x]) = a @ x @ b"
    by (rule claims_update [OF i])
  have rows: "\<forall>r\<in>set ?rows. r \<in> set (fl_table f) \<and> claimable r" "distinct (map ob_id ?rows)"
    and ids: "distinct (map ob_id (fl_table f))"
    using inv unfolding fleet_wf_def held_def ab(1) by auto
  have ready: "\<forall>r\<in>set ?rows. claimable r \<and> send_expected (ti_send io (ob_id r))" "set ?rows \<subseteq> set (fl_table f)"
    using rows calm_errors [OF calm] by auto
  have send: "\<forall>k. \<exists>n off. ti_send io k = Ack n off" and none: "ti_flush_error io = None" "ti_commit io = Committed"
    using calm by simp_all
  have "\<forall>r\<in>set ?rows. \<not> is_outage (?F r)" using acked_row(1) send p by blast
  with none show ?thesis
  proof (cases rule: end_batch_cases [OF busy ready(1) ids ready(2), of C cfg "fl_producer f" "fl_log f", case_names lost kept])
    case kept
    let ?g = "\<lambda>r. if r \<in> set ?rows then settled (ti_now io) (?F r) r else r"
    let ?ms = "concat (map (row_messages C (max_attempts cfg) (ti_send io) (fl_producer f)) ?rows)"
    have "sent_count k (fl_log f @ ?ms) \<le> 1
        \<and> (sent_count k (fl_log f @ ?ms) \<noteq> 0 \<longrightarrow> done_row k (map ?g (fl_table f)))" for k
    proof (cases "\<exists>r\<in>set ?rows. ob_id r = k \<and> ?F r = Sent")
      case True
      then obtain r where r: "r \<in> set ?rows" "ob_id r = k" "?F r = Sent" by blast
      have "\<not> done_row k (fl_table f)"
      proof
        assume "done_row k (fl_table f)"
        then obtain x where x: "x \<in> set (fl_table f)" "ob_id x = k" "ob_processed x" by (auto simp: done_row_def)
        with r rows(1) ids have "x = r" by (auto simp: distinct_map dest: inj_onD)
        with x(3) r(1) rows(1) show False by (simp add: claimable_def)
      qed
      then have "sent_count k (fl_log f) = 0" using once unfolding sent_once_def by blast
      moreover have "sent_count k ?ms = 1" by (simp only: acked_rows [OF send p rows(2)] True if_True)
      moreover have "?g r \<in> set (map ?g (fl_table f))" using r(1) rows(1) by (intro image_eqI [THEN set_map [THEN equalityD2, THEN subsetD]]) auto
      then have "done_row k (map ?g (fl_table f))"
        unfolding done_row_def using r by (intro bexI [of _ "?g r"]) (simp_all add: settled_def marked_def)
      ultimately show ?thesis by simp
    next
      case False
      have none: "sent_count k ?ms = 0" by (simp only: acked_rows [OF send p rows(2)] False if_False)
      have "done_row k (map ?g (fl_table f))" if "done_row k (fl_table f)"
      proof -
        from that obtain x where x: "x \<in> set (fl_table f)" "ob_id x = k" "ob_processed x" by (auto simp: done_row_def)
        with rows(1) have "x \<notin> set ?rows" by (auto simp: claimable_def)
        with x(1) have "x \<in> set (map ?g (fl_table f))" by (rule mark_row_stays)
        with x(2,3) show ?thesis unfolding done_row_def by blast
      qed
      then show ?thesis using once none unfolding sent_once_def by simp
    qed
    then show ?thesis using kept(1) unfolding sent_once_def by simp
  qed auto
qed

lemma sent_once_act:
  assumes "fleet_wf f" and "sent_once f" and "fleet_can a f" and "calm a"
    and "pr_started (fl_producer f)" and "pr_producer (fl_producer f)"
  shows "sent_once (fleet_act C cfg a f)"
proof (cases a)
  case (Commit_New rows)
  then show ?thesis using assms(2) by (auto simp: sent_once_def done_row_def)
next
  case (Finish i io)
  then show ?thesis using sent_once_finish [OF assms(1,2)] assms(3-6) by blast
qed (use assms in \<open>auto simp: sent_once_def\<close>)

lemma fleet_sent_once:
  assumes "fleet_runs C cfg as f" and "fleet_wf f" and "sent_once f" and "list_all calm as"
    and "pr_started (fl_producer f)" and "pr_producer (fl_producer f)"
  shows "sent_once (fleet_after C cfg as f)"
  using assms
proof (induction as arbitrary: f)
  case (Cons a as)
  from Cons.prems have a: "fleet_can a f" "calm a" "fleet_runs C cfg as (fleet_act C cfg a f)" by simp_all
  have "sent_once (fleet_act C cfg a f)" using sent_once_act Cons.prems a by blast
  moreover have "fleet_wf (fleet_act C cfg a f)" using fleet_wf_act Cons.prems a by blast
  ultimately show ?case using Cons.IH [OF a(3)] Cons.prems by simp
qed simp

section \<open>Properties\<close>

text \<open>
  Relays never share a row. However many relays run on one table, whatever batches end in a commit, a
  rollback, a broker outage or the death of the relay, and whatever rows are inserted meanwhile, no row
  is in two claims, and each claimed row is still in the table as it was claimed, neither processed nor
  failed.
\<close>

theorem fleet_claims_exclusive:
  assumes "fleet_runs C cfg as f0" and "fleet_wf f0" and "f = fleet_after C cfg as f0"
  shows "distinct (map ob_id (concat (fl_claims f)))
    \<and> (\<forall>r\<in>set (concat (fl_claims f)). r \<in> set (fl_table f) \<and> \<not> ob_processed r \<and> \<not> ob_failed r)"
  using fleet_runs_wf [OF assms(1,2)] unfolding fleet_wf_def held_def assms(3) claimable_def by blast

definition demo_fleet :: "json fleet" where
  "demo_fleet = \<lparr>fl_table = [demo_row 1 5, demo_row 2 3], fl_log = [],
     fl_producer = \<lparr>pr_started = True, pr_producer = True, pr_bootstrap_servers = []\<rparr>, fl_claims = [[], []]\<rparr>"

definition one_row_cfg :: relay_settings where
  "one_row_cfg = \<lparr>batch_size = 1, max_attempts = 5\<rparr>"

definition two_relays :: "fleet_action list" where
  "two_relays = [Claim 0, Claim 1, Finish 1 (demo_tick (\<lambda>k. Ack 0 0))]"

lemma demo_fleet_inv: "fleet_inv json_codec demo_fleet" "sent_once demo_fleet" "fleet_wf demo_fleet"
  by (simp_all add: fleet_inv_def fleet_wf_def demo_fleet_def held_def sent_once_def)

lemma demo_claims:
  "fl_claims (fleet_act json_codec one_row_cfg (Claim 0) demo_fleet) = [[demo_row 2 3], []]"
  "fl_claims (fleet_act json_codec one_row_cfg (Claim 1) (fleet_act json_codec one_row_cfg (Claim 0) demo_fleet))
    = [[demo_row 2 3], [demo_row 1 5]]"
  by code_simp+

lemma two_relays_run: "fleet_runs json_codec one_row_cfg two_relays demo_fleet"
  by (simp add: two_relays_def demo_claims del: fleet_act.simps One_nat_def)
    (simp add: demo_fleet_def)

lemma two_relays_calm: "list_all calm two_relays"
  by (simp add: two_relays_def)

lemma two_relays_errors: "list_all kafka_errors_only two_relays"
  using two_relays_calm calm_errors by (auto simp: list_all_iff)

theorem fleet_claims_exclusive_witness:
  "distinct (map ob_id (concat (fl_claims (fleet_after json_codec one_row_cfg [Claim 0, Claim 1] demo_fleet))))
   \<and> map ob_id (concat (fl_claims (fleet_after json_codec one_row_cfg [Claim 0, Claim 1] demo_fleet))) = [2, 1]"
proof -
  have "fleet_runs json_codec one_row_cfg [Claim 0, Claim 1] demo_fleet"
    using two_relays_run unfolding two_relays_def by simp
  from fleet_claims_exclusive [OF this demo_fleet_inv(3) HOL.refl]
  show ?thesis by (simp add: demo_claims del: fleet_act.simps One_nat_def)
qed

text \<open>
  C3: No event is lost by a fleet, as long as the Kafka driver raises only Kafka errors in the batches
  that are brought to an end. Start with a table whose processed rows are in the broker's log; then at any
  time, however the claims, broker outages, rejected messages, lost acknowledgements, failed or
  unconfirmed commits and deaths of the relays interleave, every processed row has its message in the
  log, with its topic, value and key. Without the condition it fails: \<open>unexpected_error_marks_wrong_row\<close>.
\<close>

theorem fleet_no_event_lost:
  assumes "fleet_runs C cfg as f0" and "list_all kafka_errors_only as" and "fleet_inv C f0"
    and "r \<in> set (fl_table (fleet_after C cfg as f0))" and "ob_processed r"
  shows "logged C (fl_log (fleet_after C cfg as f0)) r"
  using fleet_runs_inv [OF assms(1-3)] assms(4,5) by (simp add: fleet_inv_def)

theorem fleet_no_event_lost_witness:
  "list_all (logged json_codec (fl_log (fleet_after json_codec one_row_cfg two_relays demo_fleet)))
     (filter ob_processed (fl_table (fleet_after json_codec one_row_cfg two_relays demo_fleet)))
   \<and> map ob_id (filter ob_processed (fl_table (fleet_after json_codec one_row_cfg two_relays demo_fleet))) = [1]"
proof -
  have "map ob_id (filter ob_processed (fl_table (fleet_after json_codec one_row_cfg two_relays demo_fleet))) = [1]"
    by code_simp
  with fleet_no_event_lost [OF two_relays_run two_relays_errors demo_fleet_inv(1)] show ?thesis by (simp add: list_all_iff)
qed

text \<open>
  C14: A batch is a tick, however the fleet interleaves. Between the claim of a relay and the end of its batch
  any actions of the other relays and of the services may come, and the sends may end in any way. Then there
  is one \<open>_tick\<close> on the state at the claim that skips the rows the others hold, meets the same sends,
  flush, commit and clock, sees the others leave the table as they did, ends with the same table, and adds to
  the log at the claim the messages that the batch adds to the log at its end.
\<close>

theorem fleet_batch_is_a_tick:
  assumes "fleet_wf f0" and "fleet_can (Claim i) f0" and "f1 = fleet_act C cfg (Claim i) f0"
    and "fleet_runs C cfg as f1" and "list_all (\<lambda>a. act_relay a \<noteq> Some i) as" and "f2 = fleet_after C cfg as f1"
    and "fleet_can (Finish i io) f2" and "f3 = fleet_act C cfg (Finish i io) f2"
    and "s = \<lparr>re_outbox = fl_table f0, re_producer = fl_producer f0, re_log = fl_log f0, re_stats = st\<rparr>"
  shows "\<exists>io' ms. ti_send io' = ti_send io \<and> ti_locked io' = held f0 \<and> ti_flush_error io' = ti_flush_error io
    \<and> ti_commit io' = ti_commit io \<and> ti_now io' = ti_now io
    \<and> others_during io' (tick_rows cfg io' s) (fl_table f0) = fl_table f2
    \<and> re_outbox (snd (tick C cfg io' s)) = fl_table f3
    \<and> re_log (snd (tick C cfg io' s)) = fl_log f0 @ ms \<and> fl_log f3 = fl_log f2 @ ms"
proof -
  let ?io = "seen_by_tick (held f0) (fl_table f0) (fl_table f2) io"
  have "fleet_wf f1" unfolding assms(3) by (rule fleet_wf_act [OF assms(1,2)])
  then have wf2: "fleet_wf f2" unfolding assms(6) by (rule fleet_runs_wf [OF assms(4)])
  have rows: "tick_rows cfg ?io s = fl_claims f2 ! i"
    using others_run(1) [OF assms(5), of C cfg f1] assms(2,3,6,9) by (simp add: tick_rows_def seen_by_tick_def)
  have p: "fl_producer f2 = fl_producer f0" using others_run(2) [OF assms(5), of C cfg f1] assms(3,6) by simp
  obtain new where ids: "map ob_id (fl_table f2) = map ob_id (fl_table f0) @ new"
    using others_run(3) [OF assms(5), of C cfg f1] assms(3,6) by auto
  have dis: "distinct (map ob_id (fl_table f2))" using wf2 by (simp add: fleet_wf_def)
  have "i < length (fl_claims f2)" using assms(7) by simp
  then have "set (fl_claims f2 ! i) \<subseteq> set (concat (fl_claims f2))" by (auto intro!: bexI [of _ "fl_claims f2 ! i"])
  then have now: "set (fl_claims f2 ! i) \<subseteq> set (fl_table f2)" using wf2 unfolding fleet_wf_def by blast
  have "set (fl_claims f2 ! i) \<subseteq> set (fl_table f0)"
    using tick_rows_facts [of _ cfg ?io s] unfolding rows by (auto simp: assms(9))
  from seen_by_tick_table [OF ids dis this now]
  have table: "others_during ?io (tick_rows cfg ?io s) (fl_table f0) = fl_table f2" unfolding rows .
  have fields: "re_outbox s = fl_table f0" "re_producer s = fl_producer f0" "re_log s = fl_log f0"
    by (simp_all add: assms(9))
  have "ti_claim_error ?io = None" "tick_rows cfg ?io s \<noteq> []"
    using assms(7) rows by (simp_all add: seen_by_tick_def)
  from tick_end_batch [OF this, of C]
  have tick: "(re_outbox (snd (tick C cfg ?io s)), re_log (snd (tick C cfg ?io s)))
      = end_batch C cfg io (fl_claims f2 ! i) (fl_producer f0) (fl_table f2, fl_log f0)"
    using table unfolding rows seen_by_tick_end fields by (simp only:)
  obtain ms where ms: "\<forall>log. snd (end_batch C cfg io (fl_claims f2 ! i) (fl_producer f0) (fl_table f2, log)) = log @ ms
      \<and> fst (end_batch C cfg io (fl_claims f2 ! i) (fl_producer f0) (fl_table f2, log))
        = fst (end_batch C cfg io (fl_claims f2 ! i) (fl_producer f0) (fl_table f2, []))"
    using end_batch_log by blast
  have "fl_table f3 = fst (end_batch C cfg io (fl_claims f2 ! i) (fl_producer f0) (fl_table f2, fl_log f2))"
    "fl_log f3 = snd (end_batch C cfg io (fl_claims f2 ! i) (fl_producer f0) (fl_table f2, fl_log f2))"
    using p by (simp_all add: assms(8) case_prod_unfold)
  moreover have "re_outbox (snd (tick C cfg ?io s)) = fst (end_batch C cfg io (fl_claims f2 ! i) (fl_producer f0) (fl_table f2, fl_log f0))"
    "re_log (snd (tick C cfg ?io s)) = snd (end_batch C cfg io (fl_claims f2 ! i) (fl_producer f0) (fl_table f2, fl_log f0))"
    using tick by (metis fst_conv, metis snd_conv)
  ultimately have "re_outbox (snd (tick C cfg ?io s)) = fl_table f3 \<and> re_log (snd (tick C cfg ?io s)) = fl_log f0 @ ms
      \<and> fl_log f3 = fl_log f2 @ ms"
    using ms by metis
  with table show ?thesis by (intro exI [of _ ?io] exI [of _ ms]) (simp add: seen_by_tick_def)
qed

text \<open>
  C15: Every event is sent at most once when nothing fails. If every send is acknowledged, every batch is
  committed and no relay dies, then no row's message is ever in the log twice, however many relays
  compete for the rows: the duplicates that consumers have to expect come from failures only.
\<close>

theorem fleet_publishes_once:
  assumes "fleet_runs C cfg as f0" and "fleet_inv C f0" and "sent_once f0" and "list_all calm as"
    and "pr_started (fl_producer f0)" and "pr_producer (fl_producer f0)"
  shows "sent_count k (fl_log (fleet_after C cfg as f0)) \<le> 1"
  using fleet_sent_once [OF assms(1) _ assms(3-6)] assms(2) unfolding fleet_inv_def sent_once_def by blast

theorem fleet_publishes_once_witness:
  "sent_count 1 (fl_log (fleet_after json_codec one_row_cfg two_relays demo_fleet)) \<le> 1"
  by (rule fleet_publishes_once [OF two_relays_run demo_fleet_inv(1,2) two_relays_calm]) (simp_all add: demo_fleet_def)

text \<open>A batch of the second relay while the first one holds the older row.\<close>

theorem fleet_batch_is_a_tick_witness:
  "\<exists>io'. ti_locked io' = [2] \<and> ti_commit io' = Committed \<and> re_outbox (snd (tick json_codec one_row_cfg io' (demo_relay [demo_row 1 5, demo_row 2 3])))
     = fl_table (fleet_after json_codec one_row_cfg two_relays demo_fleet)"
proof -
  let ?f0 = "fleet_act json_codec one_row_cfg (Claim 0) demo_fleet" and ?io = "demo_tick (\<lambda>k. Ack 0 0)"
  let ?f1 = "fleet_act json_codec one_row_cfg (Claim 1) ?f0"
  have can: "fleet_can (Claim 0) demo_fleet" "fleet_can (Claim 1) ?f0" "fleet_can (Finish 1 ?io) ?f1"
    using two_relays_run by (simp_all add: two_relays_def del: fleet_act.simps fleet_can.simps)
  have f0: "held ?f0 = [2]" "fl_table ?f0 = [demo_row 1 5, demo_row 2 3]" "fl_log ?f0 = []"
    "fl_producer ?f0 = \<lparr>pr_started = True, pr_producer = True, pr_bootstrap_servers = []\<rparr>"
    by code_simp+
  have s: "demo_relay [demo_row 1 5, demo_row 2 3] = \<lparr>re_outbox = fl_table ?f0, re_producer = fl_producer ?f0,
      re_log = fl_log ?f0, re_stats = new_stats\<rparr>"
    unfolding f0 by (simp add: demo_relay_def)
  have run: "fleet_runs json_codec one_row_cfg [] ?f1" "list_all (\<lambda>a. act_relay a \<noteq> Some 1) []"
    "?f1 = fleet_after json_codec one_row_cfg [] ?f1"
    by (simp_all del: fleet_act.simps)
  have last: "fleet_after json_codec one_row_cfg two_relays demo_fleet = fleet_act json_codec one_row_cfg (Finish 1 ?io) ?f1"
    by (simp add: two_relays_def del: fleet_act.simps)
  have "fleet_wf ?f0" by (rule fleet_wf_act [OF demo_fleet_inv(3) can(1)])
  from fleet_batch_is_a_tick [OF this can(2) HOL.refl run can(3) HOL.refl HOL.refl, of new_stats]
  show ?thesis unfolding s last f0(1) by (simp only: demo_simps) blast
qed

end
