(* ===== verification/Wire_Format.thy ===== *)
theory Wire_Format
  imports Event_Codec "HOL-Library.Word"
begin

text \<open>
  The bytes on the wire: \<open>EventEnvelope.to_bytes\<close> and \<open>from_bytes\<close> of \<open>src/core/messaging.py\<close>, with what
  they use of Python: UTF-8 and the scanner of \<open>json.loads\<close>. The JSON text that Pydantic writes is the
  documented one, compact and with only the necessary escapes.

  Characters are those of Latin-1 and numbers are integers, as everywhere in the model. A document with
  another character, a fraction or an exponent has no value of the type \<open>json\<close>; reading it gives
  \<open>Unrepresentable\<close>, about which nothing is claimed.
\<close>

section \<open>UTF-8\<close>

type_synonym bytes = "8 word list"

definition utf8_char :: "char \<Rightarrow> bytes" where
  "utf8_char c = (let n = of_char c :: nat in
     if n < 128 then [of_nat n] else [of_nat (192 + n div 64), of_nat (128 + n mod 64)])"

definition utf8_encode :: "string \<Rightarrow> bytes" where
  "utf8_encode s = concat (map utf8_char s)"

datatype read_error = Malformed | Unrepresentable | Out_Of_Fuel

text \<open>The two-byte sequences of Latin-1 start with C2 or C3; C4 to F4 start other characters.\<close>

fun utf8_decode :: "bytes \<Rightarrow> read_error + string" where
  "utf8_decode [] = Inr []"
| "utf8_decode (b # bs) =
     (if unat b < 128 then map_sum id (Cons (char_of (unat b))) (utf8_decode bs)
      else if unat b = 194 \<or> unat b = 195 then
        (case bs of
           [] \<Rightarrow> Inl Malformed
         | d # ds \<Rightarrow> if 128 \<le> unat d \<and> unat d < 192
             then map_sum id (Cons (char_of ((unat b - 192) * 64 + (unat d - 128)))) (utf8_decode ds)
             else Inl Malformed)
      else if 195 < unat b \<and> unat b < 245 then Inl Unrepresentable
      else Inl Malformed)"

section \<open>Writing\<close>

definition compact_escape :: "char \<Rightarrow> string" where
  "compact_escape c =
     (let n = of_char c :: nat in
      if n = 34 then [CHR 0x5C, CHR 0x22]
      else if n = 92 then [CHR 0x5C, CHR 0x5C]
      else if n = 10 then [CHR 0x5C, CHR ''n'']
      else if n = 13 then [CHR 0x5C, CHR ''r'']
      else if n = 9 then [CHR 0x5C, CHR ''t'']
      else if n = 12 then [CHR 0x5C, CHR ''f'']
      else if n = 8 then [CHR 0x5C, CHR ''b'']
      else if n < 32 then [CHR 0x5C, CHR ''u''] @ hex_fixed 4 n
      else [c])"

text \<open>JSON text with a given escape and a given gap after \<open>,\<close> and \<open>:\<close>.\<close>

definition text_quote :: "(char \<Rightarrow> string) \<Rightarrow> string \<Rightarrow> string" where
  "text_quote esc s = CHR 0x22 # concat (map esc s) @ [CHR 0x22]"

primrec json_text :: "(char \<Rightarrow> string) \<Rightarrow> string \<Rightarrow> json \<Rightarrow> string" where
  "json_text esc gap JNull = ''null''"
| "json_text esc gap (JBool b) = (if b then ''true'' else ''false'')"
| "json_text esc gap (JInt n) = py_str_int n"
| "json_text esc gap (JStr s) = text_quote esc s"
| "json_text esc gap (JList xs) = ''['' @ join ('','' @ gap) (map (json_text esc gap) xs) @ '']''"
| "json_text esc gap (JDict kvs) = ''{'' @ join ('','' @ gap)
     (map (\<lambda>(k, t). text_quote esc k @ '':'' @ gap @ t) (map (map_prod id (json_text esc gap)) kvs)) @ ''}''"

definition model_dump_json :: "json \<Rightarrow> string" where
  "model_dump_json = json_text compact_escape []"

lemma json_dumps_text: "json_dumps j = json_text json_escape_char '' '' j"
  by (induction j) (auto simp: json_quote_def text_quote_def map_prod_def comp_def split_def intro!: arg_cong2 [where f = join] cong: map_cong)

section \<open>Reading\<close>

definition json_space :: "char \<Rightarrow> bool" where
  "json_space c \<longleftrightarrow> c \<in> {CHR '' '', CHR 0x09, CHR 0x0A, CHR 0x0D}"

definition skip_space :: "string \<Rightarrow> string" where
  "skip_space s = dropWhile json_space s"

definition backslash :: "(char \<times> nat) list" where
  "backslash = [(CHR 0x22, 34), (CHR 0x5C, 92), (CHR ''/'', 47), (CHR ''b'', 8), (CHR ''f'', 12),
     (CHR ''n'', 10), (CHR ''r'', 13), (CHR ''t'', 9)]"

text \<open>\<open>py_scanstring\<close>, after the opening quote.\<close>

fun scan_string :: "string \<Rightarrow> read_error + string \<times> string" where
  "scan_string [] = Inl Malformed"
| "scan_string (c # cs) =
     (if of_char c = (34::nat) then Inr ([], cs)
      else if of_char c = (92::nat) then
        (case cs of
           [] \<Rightarrow> Inl Malformed
         | e # r \<Rightarrow>
             if e = CHR ''u'' then
               (case r of
                  a # b # x # y # r' \<Rightarrow>
                    (case (hex_value a, hex_value b, hex_value x, hex_value y) of
                       (Some p, Some q, Some v, Some w) \<Rightarrow>
                         if p = 0 \<and> q = 0
                         then map_sum id (apfst (Cons (char_of (16 * v + w)))) (scan_string r')
                         else Inl Unrepresentable
                     | _ \<Rightarrow> Inl Malformed)
                | _ \<Rightarrow> Inl Malformed)
             else (case map_of backslash e of
                     Some n \<Rightarrow> map_sum id (apfst (Cons (char_of n))) (scan_string r)
                   | None \<Rightarrow> Inl Malformed))
      else if of_char c < (32::nat) then Inl Malformed
      else map_sum id (apfst (Cons c)) (scan_string cs))"

text \<open>
  \<open>NUMBER_RE\<close>: an optional minus, a zero or digits that do not start with a zero. \<open>int\<close> refuses more than
  4300 digits, the default limit of the interpreter. The named constants of \<open>json\<close> are floats.
\<close>

definition digits :: "string \<Rightarrow> string \<times> string" where
  "digits s = (case s of c # cs \<Rightarrow> if c = CHR ''0'' then ([c], cs) else (takeWhile py_isdigit s, dropWhile py_isdigit s)
     | [] \<Rightarrow> ([], []))"

definition scan_number :: "string \<Rightarrow> read_error + json \<times> string" where
  "scan_number s =
     (let neg = (take 1 s = ''-''); (ds, r) = digits (if neg then drop 1 s else s) in
      if ds = [] then (if take 9 s = ''-Infinity'' \<or> take 8 s = ''Infinity'' \<or> take 3 s = ''NaN'' then Inl Unrepresentable
                       else Inl Malformed)
      else if take 1 r \<in> {''.'', ''e'', ''E''} then Inl Unrepresentable
      else if 4300 < length ds then Inl Malformed
      else (case parse_decimal False 0 ds of
              Some n \<Rightarrow> Inr (JInt (if neg then - int n else int n), r)
            | None \<Rightarrow> Inl Malformed))"

text \<open>\<open>scan_once\<close>, \<open>JSONArray\<close> and \<open>JSONObject\<close>; a document of length \<open>n\<close> needs no more fuel than \<open>2 * n + 1\<close>.\<close>

fun scan :: "nat \<Rightarrow> string \<Rightarrow> read_error + json \<times> string"
  and scan_items :: "nat \<Rightarrow> string \<Rightarrow> read_error + json list \<times> string"
  and scan_members :: "nat \<Rightarrow> string \<Rightarrow> read_error + (string \<times> json) list \<times> string" where
  "scan 0 s = Inl Out_Of_Fuel"
| "scan (Suc n) s =
     (case s of
        [] \<Rightarrow> Inl Malformed
      | c # cs \<Rightarrow>
          if c = CHR 0x22 then map_sum id (apfst JStr) (scan_string cs)
          else if c = CHR ''['' then
            (let r = skip_space cs in
             if take 1 r = '']'' then Inr (JList [], drop 1 r) else map_sum id (apfst JList) (scan_items n r))
          else if c = CHR ''{'' then
            (let r = skip_space cs in
             if take 1 r = ''}'' then Inr (JDict [], drop 1 r)
             else map_sum id (apfst (\<lambda>kvs. JDict (dict_update [] kvs))) (scan_members n r))
          else if take 4 s = ''null'' then Inr (JNull, drop 4 s)
          else if take 4 s = ''true'' then Inr (JBool True, drop 4 s)
          else if take 5 s = ''false'' then Inr (JBool False, drop 5 s)
          else scan_number s)"
| "scan_items 0 s = Inl Out_Of_Fuel"
| "scan_items (Suc n) s =
     (case scan n s of
        Inl e \<Rightarrow> Inl e
      | Inr (v, r) \<Rightarrow>
          (case skip_space r of
             [] \<Rightarrow> Inl Malformed
           | c # r' \<Rightarrow>
               if c = CHR '']'' then Inr ([v], r')
               else if c = CHR '','' then map_sum id (apfst (Cons v)) (scan_items n (skip_space r'))
               else Inl Malformed))"
| "scan_members 0 s = Inl Out_Of_Fuel"
| "scan_members (Suc n) s =
     (case s of
        [] \<Rightarrow> Inl Malformed
      | q # s' \<Rightarrow>
          if q \<noteq> CHR 0x22 then Inl Malformed
          else (case scan_string s' of
             Inl e \<Rightarrow> Inl e
           | Inr (k, r) \<Rightarrow>
               (case skip_space r of
                  [] \<Rightarrow> Inl Malformed
                | c # r1 \<Rightarrow>
                    if c \<noteq> CHR '':'' then Inl Malformed
                    else (case scan n (skip_space r1) of
                       Inl e \<Rightarrow> Inl e
                     | Inr (v, r2) \<Rightarrow>
                         (case skip_space r2 of
                            [] \<Rightarrow> Inl Malformed
                          | d # r3 \<Rightarrow>
                              if d = CHR ''}'' then Inr ([(k, v)], r3)
                              else if d = CHR '','' then map_sum id (apfst (Cons (k, v))) (scan_members n (skip_space r3))
                              else Inl Malformed)))))"

definition json_loads :: "string \<Rightarrow> read_error + json" where
  "json_loads s =
     (case scan (2 * length s + 1) (skip_space s) of
        Inl e \<Rightarrow> Inl e
      | Inr (v, r) \<Rightarrow> if skip_space r = [] then Inr v else Inl Malformed)"

section \<open>The two methods\<close>

definition to_bytes :: "(event_envelope \<Rightarrow> json) \<Rightarrow> event_envelope \<Rightarrow> bytes" where
  "to_bytes dump e = utf8_encode (model_dump_json (dump e))"

text \<open>\<open>None\<close> for a document that is not a value of the model.\<close>

definition from_bytes :: "(json \<Rightarrow> exc + event_envelope) \<Rightarrow> bytes \<Rightarrow> (exc + event_envelope) option" where
  "from_bytes validate data =
     (case utf8_decode data of
        Inl Malformed \<Rightarrow> Some (Inl (ValueError ''UnicodeDecodeError''))
      | Inl e \<Rightarrow> None
      | Inr text \<Rightarrow>
          (case json_loads text of
             Inl Malformed \<Rightarrow> Some (Inl (ValueError ''JSONDecodeError''))
           | Inl e \<Rightarrow> None
           | Inr obj \<Rightarrow> Some (validate obj)))"

section \<open>UTF-8 round trip\<close>

lemma of_char_less: "of_char c < (256::nat)"
  using nat_of_char_less_256 [of c] by simp

lemma utf8_char_decode: "utf8_decode (utf8_char c @ bs) = map_sum id (Cons c) (utf8_decode bs)"
proof -
  define n where n: "n = (of_char c :: nat)"
  have lt: "n < 256" using of_char_less [of c] by (simp add: n)
  have c: "char_of n = c" by (simp add: n)
  show ?thesis
  proof (cases "n < 128")
    case True
    then have "unat (of_nat n :: 8 word) = n" by (simp add: unsigned_of_nat take_bit_nat_eq_self)
    with True c show ?thesis by (simp add: utf8_char_def n [symmetric])
  next
    case False
    with lt have d: "n div 64 = 2 \<or> n div 64 = 3" by auto
    then have "unat (of_nat (192 + n div 64) :: 8 word) = 192 + n div 64"
      "unat (of_nat (128 + n mod 64) :: 8 word) = 128 + n mod 64"
      using mod_less_divisor [of 64 n] by (auto simp: unsigned_of_nat take_bit_nat_eq_self simp del: of_nat_add)
    moreover have "n mod 64 < 64" by simp
    ultimately show ?thesis using False d c by (auto simp: utf8_char_def n [symmetric] simp del: of_nat_add)
  qed
qed

lemma utf8_roundtrip: "utf8_decode (utf8_encode s) = Inr s"
  unfolding utf8_encode_def by (induction s) (simp_all add: utf8_char_decode)

section \<open>Escapes\<close>

text \<open>An escape the scanner undoes, character by character.\<close>

definition good_escape :: "(char \<Rightarrow> string) \<Rightarrow> bool" where
  "good_escape esc \<longleftrightarrow> (\<forall>c r. scan_string (esc c @ r) = map_sum id (apfst (Cons c)) (scan_string r))"

lemma scan_quoted:
  assumes "good_escape esc"
  shows "scan_string (concat (map esc s) @ CHR 0x22 # r) = Inr (s, r)"
  using assms by (induction s) (simp_all add: good_escape_def)

lemma scan_unicode:
  "hex_value a = Some 0 \<Longrightarrow> hex_value b = Some 0 \<Longrightarrow> hex_value x = Some v \<Longrightarrow> hex_value y = Some w \<Longrightarrow>
    scan_string (CHR 0x5C # CHR ''u'' # a # b # x # y # r) = map_sum id (apfst (Cons (char_of (16 * v + w)))) (scan_string r)"
  by simp

lemma hex_fixed_4:
  "hex_fixed 4 n = [hex_digit (n div 16 div 16 div 16 mod 16), hex_digit (n div 16 div 16 mod 16),
     hex_digit (n div 16 mod 16), hex_digit (n mod 16)]"
proof -
  have "(4::nat) = Suc (Suc (Suc (Suc 0)))" by simp
  then show ?thesis by (simp only: hex_fixed.simps append.simps)
qed

lemma scan_hex4:
  assumes "n = (of_char c :: nat)"
  shows "scan_string ([CHR 0x5C, CHR ''u''] @ hex_fixed 4 n @ r) = map_sum id (apfst (Cons c)) (scan_string r)"
proof -
  have "n < 256" unfolding assms by (rule of_char_less)
  then have lt: "n div 16 < 16" by presburger
  then have d: "n div 16 div 16 = 0" "n div 16 mod 16 = n div 16" by (rule div_less, rule mod_less)
  have "hex_fixed 4 n = [hex_digit 0, hex_digit 0, hex_digit (n div 16), hex_digit (n mod 16)]"
    unfolding hex_fixed_4 d by (simp only: div_0 mod_0)
  moreover have "16 * (n div 16) + n mod 16 = n" by (rule mult_div_mod_eq)
  moreover have "char_of n = c" unfolding assms by (rule char_of_char)
  moreover have "hex_value (hex_digit 0) = Some 0" "hex_value (hex_digit (n mod 16)) = Some (n mod 16)"
    by (rule hex_digit_facts(1), simp)+
  ultimately show ?thesis
    using scan_unicode [OF _ _ hex_digit_facts(1) [OF lt], of "hex_digit 0" "hex_digit 0" "hex_digit (n mod 16)" "n mod 16" r]
    by (simp only: append.simps simp_thms)
qed

lemma good_compact_escape: "good_escape compact_escape"
proof -
  have "scan_string (compact_escape c @ r) = map_sum id (apfst (Cons c)) (scan_string r)" for c r
  proof -
    define n where n: "n = (of_char c :: nat)"
    have c: "c = char_of n" by (simp add: n)
    consider "n \<in> {34, 92, 10, 13, 9, 12, 8}" | "n \<notin> {34, 92, 10, 13, 9, 12, 8}" "n < 32"
      | "n \<notin> {34, 92}" "\<not> n < 32" by blast
    then show ?thesis
    proof cases
      case 1
      then show ?thesis unfolding compact_escape_def n [symmetric] c
        by (elim insertE emptyE) (simp_all add: backslash_def)
    next
      case 2
      then have "compact_escape c = [CHR 0x5C, CHR ''u''] @ hex_fixed 4 n" by (simp add: compact_escape_def n)
      then show ?thesis using scan_hex4 [OF n] by simp
    next
      case 3
      then show ?thesis by (simp add: compact_escape_def n)
    qed
  qed
  then show ?thesis by (simp add: good_escape_def)
qed

lemma good_json_escape: "good_escape json_escape_char"
proof -
  have "scan_string (json_escape_char c @ r) = map_sum id (apfst (Cons c)) (scan_string r)" for c r
  proof -
    define n where n: "n = (of_char c :: nat)"
    have c: "c = char_of n" by (simp add: n)
    have quote: "(c = CHR 0x22) = (n = 34)"
    proof
      assume "n = 34"
      then have "c = char_of (34::nat)" unfolding c by simp
      also have "char_of (34::nat) = (CHR 0x22 :: char)" by code_simp
      finally show "c = CHR 0x22" .
    qed (simp add: n)
    consider "n \<in> {34, 92, 10, 13, 9, 12, 8}" | "n \<notin> {34, 92, 10, 13, 9, 12, 8}" "\<not> (32 \<le> n \<and> n \<le> 126)"
      | "n \<notin> {34, 92}" "32 \<le> n \<and> n \<le> 126" by blast
    then show ?thesis
    proof cases
      case 1
      then show ?thesis unfolding json_escape_char_def quote n [symmetric] unfolding c
        by (elim insertE emptyE) (simp_all add: backslash_def)
    next
      case 2
      then have "json_escape_char c = [CHR 0x5C, CHR ''u''] @ hex_fixed 4 n"
        by (simp add: json_escape_char_def quote n [symmetric])
      then show ?thesis using scan_hex4 [OF n] by simp
    next
      case 3
      then show ?thesis by (simp add: json_escape_char_def quote n [symmetric])
    qed
  qed
  then show ?thesis by (simp add: good_escape_def)
qed

section \<open>Numbers\<close>

lemma dec_nat_digits: "c \<in> set (dec_nat n) \<Longrightarrow> py_isdigit c"
proof (induction n rule: dec_nat.induct)
  case (1 n)
  have d: "py_isdigit (char_of (48 + n mod 10))" "n < 10 \<Longrightarrow> py_isdigit (char_of (48 + n))"
    using mod_less_divisor [of 10 n] by (simp_all add: py_isdigit_def Let_def)
  from "1.prems" show ?case
    by (subst (asm) dec_nat.simps) (use "1.IH" d in \<open>auto split: if_splits\<close>)
qed

lemma dec_nat_not_Nil [simp]: "dec_nat n \<noteq> []"
  by (subst dec_nat.simps) simp

lemma dec_nat_head: "n \<noteq> 0 \<Longrightarrow> hd (dec_nat n) \<noteq> CHR ''0''"
proof (induction n rule: dec_nat.induct)
  case (1 n)
  show ?case
  proof (cases "n < 10")
    case True
    have "char_of (48 + n) \<noteq> CHR ''0''"
    proof
      assume "char_of (48 + n) = CHR ''0''"
      then have "of_char (char_of (48 + n) :: char) = (48 :: nat)" by simp
      with True "1.prems" show False by simp
    qed
    with True show ?thesis by (subst dec_nat.simps) simp
  next
    case False
    then have "n div 10 \<noteq> 0" by (simp add: div_eq_0_iff)
    with False "1.IH" show ?thesis by (subst dec_nat.simps) simp
  qed
qed

lemma parse_decimal_append:
  assumes "list_all py_isdigit xs" and "xs \<noteq> []" and "parse_decimal ok acc xs = Some v"
  shows "parse_decimal ok acc (xs @ ys) = parse_decimal True v ys"
  using assms
proof (induction xs arbitrary: ok acc)
  case (Cons c cs)
  have "c \<noteq> CHR ''_''" using Cons.prems(1) by (auto simp: py_isdigit_def)
  with Cons show ?case by (cases "cs = []") simp_all
qed simp

lemma parse_decimal_dec_nat: "parse_decimal ok 0 (dec_nat n) = Some n"
proof (induction n arbitrary: ok rule: dec_nat.induct)
  case (1 n)
  have one: "parse_decimal b acc [char_of (48 + d)] = Some (acc * 10 + d)" if "d < 10" for b acc d
  proof -
    have "char_of (48 + d) \<noteq> CHR ''_''"
    proof
      assume "char_of (48 + d) = CHR ''_''"
      then have "of_char (char_of (48 + d) :: char) = (95 :: nat)" by simp
      with that show False by simp
    qed
    with that show ?thesis by (simp add: py_isdigit_def Let_def)
  qed
  show ?case
  proof (cases "n < 10")
    case True
    with one [OF True, of ok 0] show ?thesis by (subst dec_nat.simps) simp
  next
    case False
    have "list_all py_isdigit (dec_nat (n div 10))" using dec_nat_digits by (auto simp: list_all_iff)
    from parse_decimal_append [OF this _ "1.IH" [OF False, of ok]]
    have "parse_decimal ok 0 (dec_nat (n div 10) @ [char_of (48 + n mod 10)]) = Some (n div 10 * 10 + n mod 10)"
      using one [of "n mod 10" True "n div 10"] by simp
    with False show ?thesis by (subst dec_nat.simps) simp
  qed
qed

section \<open>Parsing what was printed\<close>

text \<open>The values Python can hold and print: distinct keys, integers within the digit limit.\<close>

definition int_ok :: "int \<Rightarrow> bool" where
  "int_ok n \<longleftrightarrow> length (dec_nat (nat \<bar>n\<bar>)) \<le> 4300"

primrec py_value :: "json \<Rightarrow> bool" where
  "py_value JNull = True"
| "py_value (JBool b) = True"
| "py_value (JInt n) = int_ok n"
| "py_value (JStr s) = True"
| "py_value (JList xs) = list_all id (map py_value xs)"
| "py_value (JDict kvs) = (distinct (map fst kvs) \<and> list_all id (map snd (map (map_prod id py_value) kvs)))"

lemma py_value_sort_keys: "py_value j \<Longrightarrow> py_value (sort_keys j)"
proof (induction j)
  case (JDict kvs)
  have keys: "map fst (map (map_prod id sort_keys) kvs) = map fst kvs" by simp
  have "mset (map fst (sort_key fst (map (map_prod id sort_keys) kvs))) = mset (map fst kvs)"
    by (simp add: multiset.map_comp comp_def)
  then have "distinct (map fst (sort_key fst (map (map_prod id sort_keys) kvs)))"
    using JDict.prems mset_eq_imp_distinct_iff by fastforce
  moreover have "py_value (sort_keys x)" if "(k, x) \<in> set kvs" for k x
    using JDict.IH [OF that] JDict.prems that by (force simp: list_all_iff)
  ultimately show ?case by (auto simp: list_all_iff)
qed (auto simp: list_all_iff)

text \<open>What may follow a value: the end, or a character that is no part of a number.\<close>

definition stops :: "string \<Rightarrow> bool" where
  "stops r \<longleftrightarrow> (case r of [] \<Rightarrow> True | c # cs \<Rightarrow> c \<in> {CHR '','', CHR '']'', CHR ''}''})"

lemma stops_simps [simp]: "stops []" "stops (CHR '','' # r)" "stops (CHR '']'' # r)" "stops (CHR ''}'' # r)"
  by (simp_all add: stops_def)

lemma digits_dec_nat:
  assumes "stops r"
  shows "digits (dec_nat n @ r) = (dec_nat n, r)"
proof (cases "n = 0")
  case True
  have "dec_nat 0 = ''0''" by code_simp
  with True show ?thesis by (simp add: digits_def)
next
  case False
  obtain c cs where c: "dec_nat n = c # cs" by (cases "dec_nat n") simp_all
  then have "c \<noteq> CHR ''0''" using dec_nat_head [OF False] by simp
  moreover have "\<forall>x\<in>set (dec_nat n). py_isdigit x" using dec_nat_digits by blast
  moreover have "takeWhile py_isdigit r = []" "dropWhile py_isdigit r = r"
    using assms by (auto simp: stops_def py_isdigit_def Let_def split: list.splits)
  ultimately show ?thesis
    using takeWhile_append2 [of "dec_nat n" py_isdigit r] dropWhile_append2 [of "dec_nat n" py_isdigit r]
    by (simp add: digits_def c)
qed

lemma scan_number_int:
  assumes "stops r" and "int_ok n"
  shows "scan_number (py_str_int n @ r) = Inr (JInt n, r)"
proof -
  have r: "take 1 r \<notin> {''.'', ''e'', ''E''}"
    using assms(1) by (cases r) (auto simp: stops_def)
  show ?thesis
  proof (cases "n < 0")
    case True
    then have "nat \<bar>n\<bar> = nat (- n)" by simp
    with True assms r show ?thesis
      by (simp add: scan_number_def py_str_int_def digits_dec_nat parse_decimal_dec_nat int_ok_def)
  next
    case False
    obtain c cs where c: "dec_nat (nat n) = c # cs" by (cases "dec_nat (nat n)") simp_all
    then have "py_isdigit c" using dec_nat_digits [of c "nat n"] by simp
    then have "c \<noteq> CHR ''-''" by (auto simp: py_isdigit_def)
    then have "take 1 (dec_nat (nat n) @ r) \<noteq> ''-''" by (simp add: c)
    with False assms r show ?thesis
      by (simp add: scan_number_def py_str_int_def digits_dec_nat parse_decimal_dec_nat int_ok_def)
  qed
qed

text \<open>How the text of a value starts.\<close>

definition starts_value :: "char \<Rightarrow> bool" where
  "starts_value c \<longleftrightarrow> py_isdigit c \<or> c \<in> set ''-ntf[{'' \<or> c = CHR 0x22"

lemma starts_value_facts:
  assumes "starts_value c"
  shows "\<not> json_space c" and "c \<noteq> CHR '']''" and "c \<noteq> CHR ''}''"
  using assms by (auto simp: starts_value_def json_space_def py_isdigit_def)

lemma py_str_int_head: "\<exists>c cs. py_str_int n = c # cs \<and> (c = CHR ''-'' \<or> py_isdigit c)"
proof (cases "n < 0")
  case True
  then show ?thesis by (simp add: py_str_int_def)
next
  case False
  obtain c cs where c: "dec_nat (nat n) = c # cs" by (cases "dec_nat (nat n)") simp_all
  with False show ?thesis using dec_nat_digits [of c "nat n"] by (simp add: py_str_int_def)
qed

lemma json_text_head: "\<exists>c cs. json_text esc gap j = c # cs \<and> starts_value c"
proof (cases j)
  case (JInt n)
  then show ?thesis using py_str_int_head [of n] by (auto simp: starts_value_def)
qed (auto simp: starts_value_def text_quote_def)

lemma scan_is_number:
  assumes "c = CHR ''-'' \<or> py_isdigit c"
  shows "scan (Suc n) (c # cs) = scan_number (c # cs)"
proof -
  have "c \<notin> set [CHR 0x22, CHR ''['', CHR ''{'', CHR ''n'', CHR ''t'', CHR ''f'']"
    using assms by (auto simp: py_isdigit_def)
  then show ?thesis by simp
qed

lemma skip_space_id: "s = c # cs \<Longrightarrow> \<not> json_space c \<Longrightarrow> skip_space s = s"
  by (simp add: skip_space_def)

lemma skip_gap: "gap \<in> {[], '' ''} \<Longrightarrow> \<not> json_space c \<Longrightarrow> skip_space (gap @ c # cs) = c # cs"
  by (auto simp: skip_space_def json_space_def)

lemma scan_items_text:
  assumes "\<And>x n r. x \<in> set xs \<Longrightarrow> stops r \<Longrightarrow> length (T x) \<le> n \<Longrightarrow> scan n (T x @ r) = Inr (x, r)"
    and "\<And>x. \<exists>c cs. T x = c # cs \<and> starts_value c" and "gap \<in> {[], '' ''}" and "xs \<noteq> []"
    and "length (join ('','' @ gap) (map T xs)) < n"
  shows "scan_items n (join ('','' @ gap) (map T xs) @ CHR '']'' # r) = Inr (xs, r)"
  using assms(4,1,5)
proof (induction xs arbitrary: n rule: list_nonempty_induct)
  case (single x)
  then obtain m where n: "n = Suc m" by (cases n) auto
  have "scan m (T x @ CHR '']'' # r) = Inr (x, CHR '']'' # r)" using single n by simp
  then show ?case by (simp add: n skip_space_def json_space_def)
next
  case (cons x xs)
  then obtain m where n: "n = Suc m" by (cases n) auto
  obtain y ys where xs: "xs = y # ys" using cons.hyps by (cases xs) auto
  let ?J = "join ('','' @ gap) (map T xs)"
  have join: "join ('','' @ gap) (map T (x # xs)) = T x @ '','' @ gap @ ?J" by (simp add: xs)
  obtain c cs where c: "T y = c # cs" "starts_value c" using assms(2) by blast
  then obtain ds where J: "?J = c # ds" by (cases ys) (simp_all add: xs)
  have len: "length (T x) \<le> m" "length ?J < m" using cons.prems(2) unfolding join n by simp_all
  have "scan m (T x @ CHR '','' # gap @ ?J @ CHR '']'' # r) = Inr (x, CHR '','' # gap @ ?J @ CHR '']'' # r)"
    using cons.prems(1) len(1) by simp
  moreover have "skip_space (gap @ ?J @ CHR '']'' # r) = ?J @ CHR '']'' # r"
    unfolding J using skip_gap [OF assms(3) starts_value_facts(1) [OF c(2)]] by simp
  moreover have "scan_items m (?J @ CHR '']'' # r) = Inr (xs, r)"
    using cons.IH cons.prems(1) len(2) by simp
  ultimately show ?case unfolding join n by (simp add: skip_space_def [of "CHR '','' # s" for s] json_space_def)
qed

lemma scan_members_text:
  assumes "\<And>k x n r. (k, x) \<in> set kvs \<Longrightarrow> stops r \<Longrightarrow> length (T x) \<le> n \<Longrightarrow> scan n (T x @ r) = Inr (x, r)"
    and "\<And>x. \<exists>c cs. T x = c # cs \<and> starts_value c" and "gap \<in> {[], '' ''}" and "kvs \<noteq> []" and "good_escape esc"
    and "length (join ('','' @ gap) (map (\<lambda>(k, x). text_quote esc k @ '':'' @ gap @ T x) kvs)) < n"
  shows "scan_members n (join ('','' @ gap) (map (\<lambda>(k, x). text_quote esc k @ '':'' @ gap @ T x) kvs) @ CHR ''}'' # r)
    = Inr (kvs, r)"
  using assms(4,1,6)
proof (induction kvs arbitrary: n rule: list_nonempty_induct)
  case (single kx)
  obtain k x where kx: "kx = (k, x)" by force
  from single obtain m where n: "n = Suc m" by (cases n) auto
  obtain c cs where c: "T x = c # cs" "starts_value c" using assms(2) by blast
  have "scan m (T x @ CHR ''}'' # r) = Inr (x, CHR ''}'' # r)" using single n by (simp add: kx)
  moreover have "skip_space (gap @ T x @ CHR ''}'' # r) = T x @ CHR ''}'' # r"
    unfolding c using skip_gap [OF assms(3) starts_value_facts(1) [OF c(2)]] by simp
  ultimately show ?case
    by (simp add: n kx text_quote_def scan_quoted [OF assms(5)] skip_space_def [of "CHR '':'' # s" for s]
        skip_space_def [of "CHR ''}'' # s" for s] json_space_def)
next
  case (cons kx kvs)
  obtain k x where kx: "kx = (k, x)" by force
  from cons.prems obtain m where n: "n = Suc m" by (cases n) auto
  obtain ky y kvs' where kvs: "kvs = (ky, y) # kvs'" using cons.hyps by (cases kvs) auto
  let ?M = "\<lambda>(k, x). text_quote esc k @ '':'' @ gap @ T x"
  let ?J = "join ('','' @ gap) (map ?M kvs)"
  have join: "join ('','' @ gap) (map ?M (kx # kvs)) = text_quote esc k @ '':'' @ gap @ T x @ '','' @ gap @ ?J"
    by (simp add: kvs kx)
  obtain c cs where c: "T x = c # cs" "starts_value c" using assms(2) by blast
  obtain ds where J: "?J = CHR 0x22 # ds" by (cases kvs') (simp_all add: kvs text_quote_def)
  have len: "length (T x) \<le> m" "length ?J < m" using cons.prems(2) unfolding join n by simp_all
  let ?rest = "CHR '','' # gap @ ?J @ CHR ''}'' # r"
  have "scan m (T x @ ?rest) = Inr (x, ?rest)" using cons.prems(1) [of k x ?rest m] len(1) by (simp add: kx)
  moreover have "skip_space (gap @ T x @ ?rest) = T x @ ?rest"
    unfolding c using skip_gap [OF assms(3) starts_value_facts(1) [OF c(2)]] by simp
  moreover have "skip_space (gap @ ?J @ CHR ''}'' # r) = ?J @ CHR ''}'' # r"
    unfolding J using skip_gap [OF assms(3), of "CHR 0x22"] by (simp add: json_space_def)
  moreover have "scan_members m (?J @ CHR ''}'' # r) = Inr (kvs, r)"
  proof (rule cons.IH [OF _ len(2)])
    show "scan n' (T x' @ r') = Inr (x', r')" if "(k', x') \<in> set kvs" "stops r'" "length (T x') \<le> n'" for k' x' n' r'
      using cons.prems(1) [of k' x' r' n'] that by simp
  qed
  ultimately show ?case unfolding join n
    by (simp add: kx text_quote_def scan_quoted [OF assms(5)] skip_space_def [of "CHR '':'' # s" for s]
        skip_space_def [of "CHR '','' # s" for s] json_space_def)
qed

lemma dict_update_distinct: "distinct (map fst (d @ kvs)) \<Longrightarrow> dict_update d kvs = d @ kvs"
proof (induction kvs arbitrary: d)
  case (Cons kv kvs)
  obtain k v where kv: "kv = (k, v)" by force
  have "AList.update k v d = d @ [(k, v)]"
    using Cons.prems kv by (induction d) auto
  then show ?case using Cons.IH [of "d @ [(k, v)]"] Cons.prems kv by (simp add: dict_update_def)
qed (simp add: dict_update_def)

lemma scan_text:
  assumes "good_escape esc" and "gap \<in> {[], '' ''}"
  shows "py_value j \<Longrightarrow> stops r \<Longrightarrow> length (json_text esc gap j) \<le> n \<Longrightarrow> scan n (json_text esc gap j @ r) = Inr (j, r)"
proof (induction j arbitrary: n r)
  case (JInt i)
  obtain c cs where c: "py_str_int i = c # cs" "c = CHR ''-'' \<or> py_isdigit c" using py_str_int_head by blast
  from JInt.prems(3) c obtain m where n: "n = Suc m" by (cases n) auto
  show ?case using scan_is_number [OF c(2), of m "cs @ r"] scan_number_int [of r i] JInt.prems by (simp add: c n)
next
  case (JStr s)
  then obtain m where n: "n = Suc m" by (cases n) (auto simp: text_quote_def)
  show ?case by (simp add: n text_quote_def scan_quoted [OF assms(1)])
next
  case (JList xs)
  then obtain m where n: "n = Suc m" by (cases n) auto
  show ?case
  proof (cases "xs = []")
    case True
    then show ?thesis by (simp add: n skip_space_def json_space_def)
  next
    case False
    let ?J = "join ('','' @ gap) (map (json_text esc gap) xs)"
    obtain y ys where xs: "xs = y # ys" using False by (cases xs) auto
    obtain c cs where c: "json_text esc gap y = c # cs" "starts_value c" using json_text_head by blast
    then obtain ds where J: "?J = c # ds" by (cases ys) (simp_all add: xs)
    have "scan_items m (?J @ CHR '']'' # r) = Inr (xs, r)"
    proof (rule scan_items_text [OF _ json_text_head assms(2) False])
      show "scan n' (json_text esc gap x @ r') = Inr (x, r')"
        if "x \<in> set xs" "stops r'" "length (json_text esc gap x) \<le> n'" for x n' r'
        using JList.IH that JList.prems(1) by (simp add: list_all_iff)
      show "length ?J < m" using JList.prems(3) n by simp
    qed
    moreover have "skip_space (?J @ CHR '']'' # r) = ?J @ CHR '']'' # r"
      unfolding J by (rule skip_space_id [of _ c "ds @ CHR '']'' # r"]) (simp_all add: starts_value_facts(1) [OF c(2)])
    moreover have "take 1 (?J @ CHR '']'' # r) \<noteq> '']''" unfolding J using starts_value_facts(2) [OF c(2)] by simp
    ultimately show ?thesis by (simp add: n)
  qed
next
  case (JDict kvs)
  then obtain m where n: "n = Suc m" by (cases n) auto
  let ?M = "\<lambda>(k, x). text_quote esc k @ '':'' @ gap @ json_text esc gap x"
  have M: "map (\<lambda>(k, t). text_quote esc k @ '':'' @ gap @ t) (map (map_prod id (json_text esc gap)) kvs) = map ?M kvs"
    by (simp add: comp_def split_def)
  show ?case
  proof (cases "kvs = []")
    case True
    then show ?thesis by (simp add: n skip_space_def json_space_def)
  next
    case False
    let ?J = "join ('','' @ gap) (map ?M kvs)"
    obtain k y ys where kvs: "kvs = (k, y) # ys" using False by (cases kvs) auto
    then obtain ds where J: "?J = CHR 0x22 # ds" by (cases ys) (simp_all add: text_quote_def)
    have "scan_members m (?J @ CHR ''}'' # r) = Inr (kvs, r)"
    proof (rule scan_members_text [OF _ json_text_head assms(2) False assms(1)])
      show "scan n' (json_text esc gap x @ r') = Inr (x, r')"
        if "(k, x) \<in> set kvs" "stops r'" "length (json_text esc gap x) \<le> n'" for k x n' r'
        using JDict.IH [OF that(1)] that JDict.prems(1) by (force simp: list_all_iff)
      show "length ?J < m" using JDict.prems(3) unfolding n json_text.simps M by simp
    qed
    moreover have "skip_space (?J @ CHR ''}'' # r) = ?J @ CHR ''}'' # r" "take 1 (?J @ CHR ''}'' # r) \<noteq> ''}''"
      unfolding J by (simp_all add: skip_space_def json_space_def)
    moreover have "dict_update [] kvs = kvs" using dict_update_distinct [of "[]" kvs] JDict.prems(1) by simp
    ultimately show ?thesis unfolding n json_text.simps M by simp
  qed
next
  case JNull
  then obtain m where "n = Suc m" by (cases n) auto
  then show ?case by simp
next
  case (JBool b)
  then obtain m where "n = Suc m" by (cases n) (auto split: if_splits)
  then show ?case by (cases b) simp_all
qed

section \<open>The fuel is enough\<close>

lemma skip_space_length: "length (skip_space s) \<le> length s"
  by (simp add: skip_space_def length_dropWhile_le)

text \<open>A scanner that does not stop for want of fuel and leaves less than it was given.\<close>

definition consumes :: "string \<Rightarrow> read_error + 'a \<times> string \<Rightarrow> bool" where
  "consumes s res \<longleftrightarrow> (case res of Inl e \<Rightarrow> e \<noteq> Out_Of_Fuel | Inr vr \<Rightarrow> length (snd vr) < length s)"

lemma consumes_map [simp]: "consumes s (map_sum id (apfst g) res) = consumes s res"
  by (cases res) (auto simp: consumes_def)

lemma consumes_mono: "consumes s res \<Longrightarrow> length s \<le> length t \<Longrightarrow> consumes t res"
  by (cases res) (auto simp: consumes_def)

lemma consumes_simps [simp]:
  "consumes s (Inl Malformed)" "consumes s (Inl Unrepresentable)"
  "consumes s (Inr (v, r)) \<longleftrightarrow> length r < length s"
  by (simp_all add: consumes_def)

lemma consumes_unicode:
  assumes "\<And>r'. length r' < length s \<Longrightarrow> consumes s (scan_string r')" and "s = CHR 0x5C # CHR ''u'' # r"
  shows "consumes s (scan_string s)"
proof (cases "length r < 4")
  case True
  then have "scan_string s = Inl Malformed"
    unfolding assms(2) by (cases r rule: remdups_adj.cases; auto split: list.split)
  then show ?thesis by simp
next
  case False
  then obtain a b x y r' where r: "r = a # b # x # y # r'"
    by (metis (no_types, lifting) Suc_le_length_iff numeral_eq_Suc not_less pred_numeral_simps(2,3) semiring_norm(26,27) numerals(1))
  have "consumes s (scan_string r')" by (rule assms(1)) (simp add: assms(2) r)
  then show ?thesis unfolding assms(2) r
    by (cases "hex_value a"; cases "hex_value b"; cases "hex_value x"; cases "hex_value y") simp_all
qed

lemma consumes_scan_string: "consumes s (scan_string s)"
proof (induction s rule: length_induct)
  case (1 s)
  have IH: "consumes s (scan_string r)" if "length r < length s" for r
    by (rule consumes_mono [of r]) (use "1.IH" that in simp_all)
  show ?case
  proof (cases s)
    case (Cons c cs)
    have next_char: "consumes s (scan_string cs)" by (rule IH) (simp add: Cons)
    show ?thesis
    proof (cases "of_char c = (92::nat)")
      case False
      with next_char show ?thesis by (simp add: Cons)
    next
      case True
      then have "char_of (of_char c :: nat) = (char_of (92::nat) :: char)" by (rule arg_cong)
      also have "(char_of (92::nat) :: char) = CHR 0x5C" by code_simp
      finally have c: "c = CHR 0x5C" by simp
      show ?thesis
      proof (cases cs)
        case (Cons e r)
        have "consumes s (scan_string r)" by (rule IH) (simp add: \<open>s = c # cs\<close> Cons)
        then have "e \<noteq> CHR ''u'' \<Longrightarrow> consumes s (scan_string s)"
          by (simp add: \<open>s = c # cs\<close> Cons c split: option.split)
        moreover have "consumes s (scan_string s)" if "e = CHR ''u''"
          by (rule consumes_unicode [OF IH, of r]) (simp_all add: \<open>s = c # cs\<close> Cons c that)
        ultimately show ?thesis by blast
      qed (simp add: \<open>s = c # cs\<close> c)
    qed
  qed simp
qed

lemma consumes_scan_number: "s \<noteq> [] \<Longrightarrow> consumes s (scan_number s)"
proof -
  have d: "length r < length t" if "digits t = (ds, r)" "ds \<noteq> []" for t ds r
  proof -
    have "length (ds @ r) = length t"
      using that(1) by (auto simp: digits_def split: list.splits if_splits) (metis length_append takeWhile_dropWhile_id list.size(4))
    then show ?thesis using that(2) by (cases ds) auto
  qed
  assume "s \<noteq> []"
  obtain ds r where dig: "digits (if take 1 s = ''-'' then drop 1 s else s) = (ds, r)" by force
  show "consumes s (scan_number s)"
  proof (cases "ds = []")
    case True
    with dig show ?thesis by (simp add: scan_number_def)
  next
    case False
    have "length r < length (if take 1 s = ''-'' then drop 1 s else s)" by (rule d [OF dig False])
    also have "\<dots> \<le> length s" by simp
    finally show ?thesis using dig False by (simp add: scan_number_def Let_def split: option.split)
  qed
qed

lemma consumes_scan:
  "(2 * length s < n \<longrightarrow> consumes s (scan n s))
   \<and> (2 * length s + 1 < n \<longrightarrow> consumes s (scan_items n s))
   \<and> (2 * length s + 1 < n \<longrightarrow> consumes s (scan_members n s))"
proof (induction n arbitrary: s)
  case (Suc n)
  have value': "consumes s (scan n r)" if "2 * length r < n" "length r \<le> length s" for r
    using Suc.IH [of r] that consumes_mono by blast
  have items: "consumes s (scan_items n r)" if "2 * length r + 1 < n" "length r \<le> length s" for r
    using Suc.IH [of r] that consumes_mono by blast
  have members: "consumes s (scan_members n r)" if "2 * length r + 1 < n" "length r \<le> length s" for r
    using Suc.IH [of r] that consumes_mono by blast
  have v: "consumes s (scan (Suc n) s)" if "2 * length s < Suc n"
  proof (cases s)
    case (Cons c cs)
    have r: "length (skip_space cs) \<le> length cs" by (rule skip_space_length)
    have "consumes s (scan_string cs)" using consumes_mono [OF consumes_scan_string] Cons by simp
    moreover have "consumes s (scan_items n (skip_space cs))" "consumes s (scan_members n (skip_space cs))"
      by (rule items members; use r that Cons in simp)+
    moreover have "consumes s (scan_number s)" by (rule consumes_scan_number) (simp add: Cons)
    moreover have "length (drop (Suc 0) (skip_space cs)) < length s" using r Cons by simp
    ultimately show ?thesis using Cons by (auto simp: Let_def)
  qed simp
  have i: "consumes s (scan_items (Suc n) s)" if l: "2 * length s + 1 < Suc n"
  proof (cases "scan n s")
    case (Inl e)
    with value' [of s] l show ?thesis by (cases e) (auto simp: consumes_def)
  next
    case (Inr vr)
    obtain v r where vr: "vr = (v, r)" by force
    have r: "length r < length s" using value' [of s] l Inr vr by simp
    show ?thesis
    proof (cases "skip_space r")
      case (Cons c r')
      then have r': "length r' < length r" using skip_space_length [of r] by simp
      have "consumes s (scan_items n (skip_space r'))"
        by (rule items) (use skip_space_length [of r'] r r' l in simp_all)
      with Inr vr Cons r r' show ?thesis by simp
    qed (simp add: Inr vr)
  qed
  have m: "consumes s (scan_members (Suc n) s)" if l: "2 * length s + 1 < Suc n"
  proof (cases s)
    case (Cons q s')
    show ?thesis
    proof (cases "scan_string s'")
      case (Inl e)
      with consumes_scan_string [of s'] Cons show ?thesis by (cases e) (auto simp: consumes_def)
    next
      case (Inr kr)
      obtain k r where kr: "kr = (k, r)" by force
      have r: "length r < length s'" using consumes_scan_string [of s'] Inr kr by simp
      show ?thesis
      proof (cases "skip_space r")
        case Nil
        with Cons Inr kr show ?thesis by simp
      next
        case colon: (Cons c r1)
        then have r1: "length (skip_space r1) < length r"
          using skip_space_length [of r] skip_space_length [of r1] by simp
        show ?thesis
        proof (cases "scan n (skip_space r1)")
          case e: (Inl e)
          have "consumes s (scan n (skip_space r1))" by (rule value') (use r1 r l Cons in simp_all)
          with e Cons Inr kr colon show ?thesis by (cases e) (auto simp: consumes_def)
        next
          case val: (Inr vr)
          obtain v r2 where vr: "vr = (v, r2)" by force
          have "2 * length (skip_space r1) < n" using r1 r l Cons by simp
          then have "consumes (skip_space r1) (scan n (skip_space r1))" using Suc.IH by blast
          then have r2: "length r2 < length r1" using val vr skip_space_length [of r1] by simp
          show ?thesis
          proof (cases "skip_space r2")
            case Nil
            with Cons Inr kr colon val vr show ?thesis by simp
          next
            case sep: (Cons d r3)
            then have r3: "length r3 < length r2" using skip_space_length [of r2] by simp
            have r1': "length r1 < length r" using colon skip_space_length [of r] by simp
            have "consumes s (scan_members n (skip_space r3))"
              by (rule members) (use skip_space_length [of r3] r r1' r2 r3 l Cons in simp_all)
            then show ?thesis using Cons Inr kr colon val vr sep r r1' r2 r3 by auto
          qed
        qed
      qed
    qed
  qed simp
  from v i m show ?case by blast
qed simp

section \<open>Properties\<close>

lemma json_loads_text:
  assumes "good_escape esc" and "gap \<in> {[], '' ''}" and "py_value j"
  shows "json_loads (json_text esc gap j) = Inr j"
proof -
  obtain c cs where c: "json_text esc gap j = c # cs" "starts_value c" using json_text_head by blast
  then have "skip_space (json_text esc gap j) = json_text esc gap j"
    by (intro skip_space_id [of _ c cs]) (simp_all add: starts_value_facts(1) [OF c(2)])
  moreover have "scan (2 * length (json_text esc gap j) + 1) (json_text esc gap j) = Inr (j, [])"
    using scan_text [OF assms(1,2,3), of "[]" "2 * length (json_text esc gap j) + 1"] by simp
  ultimately show ?thesis by (simp add: json_loads_def skip_space_def)
qed

text \<open>
  Reading always ends: on any document, well formed or not and however deeply nested, the scanner stops
  with a value or an error and never for want of fuel; the bound is twice the length of the text.
\<close>

theorem json_loads_total:
  "json_loads s \<noteq> Inl Out_Of_Fuel"
proof -
  have "2 * length (skip_space s) < 2 * length s + 1" using skip_space_length [of s] by simp
  then have "consumes (skip_space s) (scan (2 * length s + 1) (skip_space s))" using consumes_scan by blast
  moreover obtain res where res: "scan (2 * length s + 1) (skip_space s) = res" by blast
  ultimately show ?thesis unfolding json_loads_def res by (auto simp: consumes_def split: sum.splits)
qed

text \<open>
  C16: An event survives the wire. For every valid envelope whose dump is a Python value (distinct keys in
  each dict, integers within the interpreter's digit limit), \<open>from_bytes\<close> of its \<open>to_bytes\<close> is the
  envelope again, whatever characters its strings hold: the text is escaped, encoded in UTF-8, decoded
  and scanned. Of Pydantic only the law between dump and validation is used.
\<close>

theorem wire_roundtrip:
  assumes "codec_ok C" and "envelope_valid e" and "py_value (cd_dump C e)"
  shows "from_bytes (cd_validate C) (to_bytes (cd_dump C) e) = Some (Inr e)"
proof -
  have "json_loads (model_dump_json (cd_dump C e)) = Inr (cd_dump C e)"
    unfolding model_dump_json_def by (rule json_loads_text [OF good_compact_escape _ assms(3)]) simp
  moreover have "cd_validate C (cd_dump C e) = Inr e" using assms(1,2) by (simp add: codec_ok_def)
  ultimately show ?thesis by (simp add: from_bytes_def to_bytes_def utf8_roundtrip)
qed

theorem wire_roundtrip_witness:
  "from_bytes json_validate_envelope (to_bytes json_dump_envelope
     (noted 1 (JDict [(''q'', JStr [CHR 0x22, CHR 0x5C, CHR 0x0A, CHR 0xE9]), (''n'', JList [JInt (- 12), JNull])])))
   = Some (Inr (noted 1 (JDict [(''q'', JStr [CHR 0x22, CHR 0x5C, CHR 0x0A, CHR 0xE9]), (''n'', JList [JInt (- 12), JNull])])))"
proof -
  let ?e = "noted 1 (JDict [(''q'', JStr [CHR 0x22, CHR 0x5C, CHR 0x0A, CHR 0xE9]), (''n'', JList [JInt (- 12), JNull])])"
  have "int_ok 1" "int_ok (- 12)" by code_simp+
  then have "py_value (cd_dump json_codec ?e)"
    by (simp add: json_codec_def json_dump_envelope_def noted_def opt_str_def)
  moreover have "envelope_valid ?e" by (simp add: envelope_valid_def noted_def)
  ultimately show ?thesis using wire_roundtrip [OF json_codec_ok, of ?e] by (simp add: json_codec_def)
qed

text \<open>
  C24: The text that is hashed says everything. For Python values \<open>json.dumps(\<dots>, sort_keys=True)\<close> is read
  back by \<open>json.loads\<close>, so two values have the same canonical text only if they are equal up to the
  order of dict keys: equal content hashes of different contents are collisions of the hash alone.
\<close>

theorem canonical_injective:
  assumes "py_value a" and "py_value b"
  shows "json_loads (canonical a) = Inr (sort_keys a) \<and> (canonical a = canonical b \<longleftrightarrow> sort_keys a = sort_keys b)"
proof -
  have read: "json_loads (canonical j) = Inr (sort_keys j)" if "py_value j" for j
    unfolding canonical_def json_dumps_text
    by (rule json_loads_text [OF good_json_escape _ py_value_sort_keys [OF that]]) simp
  have "sort_keys a = sort_keys b" if "canonical a = canonical b"
    using read [OF assms(1)] read [OF assms(2)] unfolding that by simp
  moreover have "canonical a = canonical b" if "sort_keys a = sort_keys b" unfolding canonical_def that ..
  ultimately show ?thesis using read [OF assms(1)] by blast
qed

theorem canonical_injective_witness:
  "canonical (JDict [(''a'', JInt 1), (''b'', JNull)]) \<noteq> canonical (JDict [(''b'', JNull), (''a'', JInt 2)])"
proof -
  have "int_ok 1" "int_ok 2" by code_simp+
  then have "py_value (JDict [(''a'', JInt 1), (''b'', JNull)])" "py_value (JDict [(''b'', JNull), (''a'', JInt 2)])"
    by simp_all
  moreover have "sort_keys (JDict [(''a'', JInt 1), (''b'', JNull)]) \<noteq> sort_keys (JDict [(''b'', JNull), (''a'', JInt 2)])"
    by code_simp
  ultimately show ?thesis using canonical_injective by blast
qed

end
