(* ===== verification/Smoke.thy ===== *)
theory Smoke
  imports App
begin

text \<open>
  The smoke test \<open>scripts/smoke_app.py\<close>: the \<open>.env\<close> file it loads and the request it sends through the
  assembled application. \<open>python-dotenv\<close>, whose import may fail, is a parameter with its documented effect
  under \<open>override=False\<close>; reading the environment into settings is Pydantic's, as in \<open>Config\<close>. \<open>httpx\<close> hands the request
  to the application in the same process and runs no lifespan, so \<open>app.state.abuse\<close> is not set; what the
  application raises it raises too.
\<close>

type_synonym environ = "string \<Rightarrow> string option"

record smoke_files =
  sf_dotenv :: bool  \<comment> \<open>\<open>dotenv\<close> can be imported\<close>
  sf_file :: "string \<Rightarrow> environ option"  \<comment> \<open>the parsed file of a name in the repository root, if it exists\<close>

text \<open>\<open>load_dotenv(candidate, override=False)\<close>.\<close>

definition load_dotenv :: "environ \<Rightarrow> environ \<Rightarrow> environ" where
  "load_dotenv file env = (\<lambda>k. case env k of Some v \<Rightarrow> Some v | None \<Rightarrow> file k)"

fun first_existing :: "(string \<Rightarrow> environ option) \<Rightarrow> string list \<Rightarrow> environ \<Rightarrow> environ" where
  "first_existing fs [] env = env"
| "first_existing fs (candidate # rest) env =
     (case fs candidate of Some file \<Rightarrow> load_dotenv file env | None \<Rightarrow> first_existing fs rest env)"

definition smoke_load_dotenv :: "smoke_files \<Rightarrow> environ \<Rightarrow> environ" where
  "smoke_load_dotenv fs env =
     (let name = (case env ''ENVIRONMENT'' of Some e \<Rightarrow> e | None \<Rightarrow> ''development'') in
      if \<not> sf_dotenv fs then env
      else first_existing (sf_file fs) [''.env.'' @ name, ''.env''] env)"

section \<open>The request\<close>

text \<open>The routes of the application: the liveness probe, and the rest.\<close>

definition health_route ::
    "settings \<Rightarrow> (http_request \<Rightarrow> ('w, exc, response) comp) \<Rightarrow> http_request \<Rightarrow> ('w, exc, response) comp" where
  "health_route s other req =
     (if hr_path req = ''/health''
      then ret \<lparr>resp_status = 200, resp_content = health s, resp_headers = []\<rparr> else other req)"

definition get_health :: http_request where
  "get_health = \<lparr>hr_path = ''/health'', hr_headers = [], hr_client = Some ''127.0.0.1''\<rparr>"

datatype smoke_line = Fail_Status int | Fail_Body json | Ok_Line | Field string json

text \<open>\<open>body[key]\<close>; a missing key is a \<open>KeyError\<close>.\<close>

definition body_field :: "json \<Rightarrow> string \<Rightarrow> exc + json" where
  "body_field body key =
     (case json_get body key of Inr (Some v) \<Rightarrow> Inr v | Inr None \<Rightarrow> Inl (OtherError ''KeyError'' key)
      | Inl _ \<Rightarrow> Inl (OtherError ''TypeError'' []))"

text \<open>What is printed and the exit status. A failed line leaves what was printed before it.\<close>

definition smoke_report :: "response \<Rightarrow> smoke_line list \<times> (exc + int)" where
  "smoke_report resp =
     (if resp_status resp \<noteq> 200
      then ([Fail_Status (resp_status resp), Fail_Body (resp_content resp)], Inr 1)
      else let body = resp_content resp in
        case body_field body ''app'' of
          Inl e \<Rightarrow> ([Ok_Line], Inl e)
        | Inr a \<Rightarrow> (case body_field body ''version'' of
            Inl e \<Rightarrow> ([Ok_Line, Field ''app'' a], Inl e)
          | Inr v \<Rightarrow> (case body_field body ''environment'' of
              Inl e \<Rightarrow> ([Ok_Line, Field ''app'' a, Field ''version'' v], Inl e)
            | Inr n \<Rightarrow> ([Ok_Line, Field ''app'' a, Field ''version'' v, Field ''environment'' n], Inr 0))))"

text \<open>
  \<open>main()\<close>: \<open>load\<close> is what \<open>Settings()\<close> gives in an environment. The first \<open>get_settings\<close> is that of the
  import of \<open>src.main\<close>, which builds an application too; all later ones find the object in the cache.
\<close>

definition smoke_main ::
    "'r redis_ops \<Rightarrow> (string \<Rightarrow> string) \<Rightarrow> (int \<Rightarrow> string) \<Rightarrow> abuse_io \<Rightarrow> uuid \<Rightarrow> smoke_files \<Rightarrow> environ
     \<Rightarrow> (environ \<Rightarrow> exc + settings) \<Rightarrow> (http_request \<Rightarrow> ((breaker \<times> 'r) \<times> 's, exc, response) comp)
     \<Rightarrow> ((breaker \<times> 'r) \<times> 's) \<times> request_context option
     \<Rightarrow> (smoke_line list \<times> (exc + int)) \<times> (((breaker \<times> 'r) \<times> 's) \<times> request_context option)" where
  "smoke_main R sha256 tostring io fresh fs env load other w =
     (case fst (get_settings (load (smoke_load_dotenv fs env)) None) of
        Inl e \<Rightarrow> (([], Inl e), w)
      | Inr s \<Rightarrow>
          (case create_app R sha256 tostring (abuse s) False io fresh ''GET'' (health_route s other) get_health w of
             ((resp, Some e), w') \<Rightarrow> (([], Inl e), w')
           | ((resp, None), w') \<Rightarrow> (smoke_report resp, w')))"

section \<open>Facts\<close>

lemma load_dotenv_keeps: "env k = Some v \<Longrightarrow> load_dotenv file env k = Some v"
  by (simp add: load_dotenv_def)

lemma smoke_load_dotenv_keeps: "env k = Some v \<Longrightarrow> smoke_load_dotenv fs env k = Some v"
  by (auto simp: smoke_load_dotenv_def Let_def load_dotenv_keeps split: option.split)

lemma set_header_status [simp]: "resp_status (set_header n v r) = resp_status r"
  by (simp add: set_header_def Let_def)

lemma smoke_response:
  "create_app R sha256 tostring a False io fresh method (health_route s other) get_health w =
     ((set_header ''X-Request-ID'' (str_uuid fresh) \<lparr>resp_status = 200, resp_content = health s, resp_headers = []\<rparr>, None),
      (fst w, Some \<lparr>rc_request_id = str_uuid fresh, rc_method = method, rc_path = ''/health'', rc_client = Some ''127.0.0.1''\<rparr>))"
  by (simp add: create_app_def server_error_middleware_def request_dispatch_def abuse_dispatch_def
      exception_middleware_def health_route_def get_health_def request_id_of_def header_get_def try_except_def Let_def)

section \<open>Property\<close>

text \<open>
  The smoke test reports the application. If the settings load in the environment after the \<open>.env\<close> file,
  and pass the guard when it is a test process, the run prints the name, the version and the environment
  of exactly those settings, exits with 0 and touches neither Redis nor the database, so it needs neither
  to be up; and the file never changes a variable that is set.
\<close>

theorem smoke_reports_settings:
  assumes "load (smoke_load_dotenv fs env) = Inr s" and "is_test s \<longrightarrow> isolated s"
  shows "fst (smoke_main R sha256 tostring io fresh fs env load other w) =
      ([Ok_Line, Field ''app'' (JStr (app_name s)), Field ''version'' (JStr (app_version s)),
        Field ''environment'' (JStr (environment_value (environment s)))], Inr 0)
    \<and> fst (snd (smoke_main R sha256 tostring io fresh fs env load other w)) = fst w
    \<and> (\<forall>k v. env k = Some v \<longrightarrow> smoke_load_dotenv fs env k = Some v)"
proof -
  have "fst (get_settings (load (smoke_load_dotenv fs env)) None) = Inr s"
    using assms by (simp add: get_settings_def bind_sum_def assert_test_isolation_iff [THEN iffD2])
  then show ?thesis using smoke_load_dotenv_keeps
    by (simp add: smoke_main_def smoke_response smoke_report_def body_field_def health_def json_get_def)
qed

definition smoke_files_demo :: smoke_files where
  "smoke_files_demo = \<lparr>sf_dotenv = True,
     sf_file = (\<lambda>f. if f = ''.env'' then Some [''LOG_LEVEL'' \<mapsto> ''DEBUG''] else None)\<rparr>"

theorem smoke_reports_settings_witness:
  "snd (fst (smoke_main fake_redis_ops id py_str_int demo_io 7 smoke_files_demo Map.empty
     (\<lambda>env. Inr (default_settings ''p://db/shop'' ''r://kv/1'')) missing_order demo_world)) = Inr 0"
proof -
  have "\<not> is_test (default_settings ''p://db/shop'' ''r://kv/1'')"
    by (simp add: is_test_def default_settings_def)
  then show ?thesis
    using smoke_reports_settings [of "\<lambda>env. Inr (default_settings ''p://db/shop'' ''r://kv/1'')" smoke_files_demo Map.empty
        "default_settings ''p://db/shop'' ''r://kv/1''" fake_redis_ops id py_str_int demo_io 7 missing_order demo_world]
    by simp
qed

end
