(* ===== verification/Spec2Isabelle.thy ===== *)
theory Spec2Isabelle
  imports Payments Outbox_Relay Order_Consumer Users App Env_Hook Commit_Msg Block_Urls
    Stored_Rows Order_Lifecycle Payment_Lifecycle Stale_Objects Consumer_Run Session_Context Telemetry
    Relay_Fleet Wire_Format Migrations Smoke
begin

text \<open>
  \<^bold>\<open>Verification of the Nimbus commerce platform.\<close>

  \<^bold>\<open>The program.\<close> Nimbus is an asynchronous Python service. Requests pass the gateway
  (\<open>src/modules/gateway\<close>: rate limits, passwords, tokens). The services of the modules (users,
  orders, inventory, payments) run in one database session each; those that change something another
  module must hear of write an event into the outbox table in the same transaction. The relay
  (\<open>src/workers/outbox_relay.py\<close>) publishes the outbox to Kafka; the consumers
  (\<open>src/core/consumer.py\<close>, \<open>src/modules/orders/consumer.py\<close>) deduplicate messages through Redis and
  drive the order saga: a captured payment makes the order PAID, a failed one makes it FAILED and
  gives its stock back. \<open>src/core\<close> holds what all of them use. Scripts and commit hooks guard the
  environment files, the sources and the commit messages.

  \<^bold>\<open>How code is modelled.\<close> A function that changes state is a computation
  \<open>('s, 'e, 'a) comp\<close>, a function from a state to a result (\<open>Inl\<close> an exception, \<open>Inr\<close> a value) and a
  new state; \<open>seq\<close>, \<open>try_except\<close> and \<open>try_finally\<close> are the control structures (theory \<open>Prelude\<close>).
  Exceptions are values of the type \<open>exc\<close>, with the class hierarchy of the program. What the outside
  decides (clocks, fresh identifiers, answers of the broker and of Redis, commits of other
  transactions between two statements) is an argument of the operation, so a theorem holds for every
  such behaviour.

  \<^bold>\<open>Theories, bottom up.\<close>
  \<^item> \<open>Prelude\<close>, \<open>Py_Std\<close>, \<open>Json\<close>, \<open>Url\<close>, \<open>Regex\<close>: the language and its standard library as far as the
    program uses them: strings, UUIDs (128-bit words) and their text, canonical JSON, \<open>urlparse\<close>, the
    patterns of the hooks with their matcher.
  \<^item> \<open>Exceptions\<close> (\<open>core/exceptions.py\<close>): classes, inherited attributes, the four handlers.
  \<^item> \<open>Redis\<close> (\<open>core/protocols.py\<close>, \<open>tests/fakes/fake_redis.py\<close>): the operations of \<open>RedisLike\<close>; the
    locales \<open>redis_like\<close> and \<open>redis_sorted_sets\<close> state what Redis promises, and both are interpreted
    on the model of \<open>FakeRedis\<close>.
  \<^item> \<open>Cache\<close> (\<open>core/cache.py\<close>): the circuit breaker, with every interleaving of its critical sections.
    \<open>Dedupe\<close> (\<open>core/dedupe.py\<close>): the check-and-set through the breaker.
  \<^item> \<open>Messaging\<close>, \<open>Event_Codec\<close> (\<open>core/messaging.py\<close>): the envelope, its content hash and the producer;
    a concrete codec. \<open>Wire_Format\<close>: \<open>to_bytes\<close> and \<open>from_bytes\<close> down to UTF-8 and the scanner of
    \<open>json.loads\<close>.
  \<^item> \<open>Models\<close>, \<open>Database\<close>, \<open>Transactions\<close> (\<open>modules/*/models.py\<close>, \<open>core/database.py\<close>): rows with the
    widths of their columns and their CHECK constraints, sessions at READ COMMITTED with row locks and
    a unit of work; the locale \<open>service\<close> states what a caller of a service may rely on (only \<open>commit\<close>
    changes the committed tables by this session) and is interpreted on every service.
  \<^item> \<open>Inventory\<close>, \<open>Orders\<close>, \<open>Payments\<close>, \<open>Users\<close> (\<open>modules/*/services.py\<close>): the services.
  \<^item> \<open>Outbox_Relay\<close> (\<open>workers/outbox_relay.py\<close>): claim, publish, mark, commit; \<open>relay_reach\<close> is its step
    relation. \<open>Relay_Fleet\<close>: several relays on one table, with claims and ends of batches interleaved.
  \<^item> \<open>Consumer\<close>, \<open>Order_Consumer\<close> (\<open>core/consumer.py\<close>, \<open>modules/orders/consumer.py\<close>): poll, decode,
    deduplicate, dispatch; the locale \<open>event_handlers\<close> is what the base class relies on, interpreted on
    the order handlers. \<open>Consumer_Run\<close>: the task of a consumer over all its polls. \<open>Session_Context\<close>:
    the schema variable of \<open>core/database.py\<close> and the session factory of the order consumer.
  \<^item> \<open>Session_Invariants\<close>, \<open>Stored_Rows\<close>, \<open>Order_Lifecycle\<close>, \<open>Payment_Lifecycle\<close>, \<open>Stale_Objects\<close>:
    properties of several modules. The locale \<open>session_invariant\<close> states what an invariant has to survive of a session and
    shows that every service and event handler then keeps it; it is interpreted on what the stored
    events and accounts mean and on the lives of the orders and of the payments, for any sequence of
    transactions. \<open>Stale_Objects\<close>: what the object layer of SQLAlchemy does to an order.
  \<^item> \<open>Abuse\<close>, \<open>Security\<close> (\<open>modules/gateway\<close>): the sliding-window script and the middleware; password
    hashes and tokens.
  \<^item> \<open>Config\<close> (\<open>core/config.py\<close>), \<open>Check_Env\<close> (\<open>scripts/check_env.py\<close>), \<open>Env_Hook\<close>, \<open>Commit_Msg\<close>,
    \<open>Block_Urls\<close> (\<open>.pre-commit-hooks\<close>): settings and the guards around them.
  \<^item> \<open>Singletons\<close>, \<open>App\<close> (\<open>core/cache.py\<close>, \<open>core/database.py\<close>, \<open>core/messaging.py\<close>, \<open>main.py\<close>,
    \<open>core/telemetry.py\<close>): the process-wide client, engine and producer; what a request passes through;
    startup and shutdown. \<open>Telemetry\<close>: the logging set-up. \<open>Smoke\<close> (\<open>scripts/smoke_app.py\<close>): the smoke
    test, through the assembled application. \<open>Migrations\<close> (\<open>alembic/env.py\<close>): the calls a migration makes.
  \<^item> This theory: an event from the service that writes it to the consumer that reads it, and the order
    saga from the order to its compensation.

  \<^bold>\<open>What is shown.\<close> Payments: status and event are committed together or not at all, one holder of
  the idempotency lock at a time, a replay is refused, the status machine ends. Inventory: stock is
  never oversold and one reservation wins per version. Orders: order, stock and event are committed
  as a whole, a failed order changes nothing, status changes refine the transition relation. Relay: a
  processed row was sent, an outage keeps the batch, enough ticks without failures drain the outbox;
  relays on one table never share a row, each of their batches is a tick of the one-relay model however
  they interleave, and without failures no event is sent twice. That a processed row was sent holds as
  long as the Kafka driver raises nothing but Kafka errors (\<open>send_expected\<close>, \<open>kafka_errors_only\<close>); what
  another error does is shown apart. Wire: what \<open>to_bytes\<close> writes \<open>from_bytes\<close>
  reads back, and the text that is hashed determines its value up to the order of keys.
  Consumer: a run is the fold of its handlers over the admitted messages, and while the dedupe keys
  live no event is handled twice, whatever is redelivered, whichever Redis requests are lost and wherever
  the task is cancelled.
  Rows: every sequence of transactions keeps every outbox row readable as the event its columns name,
  every password hash one that the login accepts, and every committed order and payment on its lifecycle. Saga: compensation restores the stock. Gateway: the
  script refines a counter over the history of hits, so no client passes more than the limit in any
  window; tokens decode to the claims they were issued with, and an access token is never accepted as
  a refresh token. Users: who registered can log in, with the email in any case. Settings: in a test
  process only isolated settings are ever returned, and always the same object, and migrations get no
  other URL; the environment check
  implies the guard of the application; hook and script decide alike which keys are missing; the
  commit hooks accept exactly what their grammar and their host list say. Application: every request
  is answered, with its id unless an exception went through the middleware; the startup survives a
  missing Kafka or database, and an orderly shutdown stops every worker. Several theorems pin down
  behaviour that differs from what comments say: rows marked in the place of others after an
  unexpected error, offsets committed past a failed message, failed messages that are never retried,
  stock released twice, a CHECK violation reported as a taken email, a breaker that is missing after a
  failed construction, an order that stores a version its stock never has, a lost race that is reported
  as out of stock, workers that a late shutdown leaves running, the marker \<open>!\<close> that every commit
  must carry.

  \<^bold>\<open>Parameters and hypotheses.\<close> \<open>codec_ok\<close>: Pydantic reads back what it dumps, for valid envelopes
  (met by \<open>json_codec\<close>). \<open>argon2_ok\<close>, \<open>jwt_ok\<close>: a hash verifies its own password, and a
  token decodes under the key that signed it while it is valid, for the HMAC algorithms and a secret that
  is no PEM or SSH key: the program has one key for signing and verifying (\<open>hmac_settings\<close>). \<open>jwt_stable\<close>: what a
  token decodes to does not depend on the instant. Each is met by a concrete instance. The
  laws of \<open>redis_like\<close> and \<open>redis_sorted_sets\<close> (met by \<open>FakeRedis\<close>). How SQLAlchemy refreshes a loaded
  object is the record \<open>orm\<close>, about which nothing is assumed, except in \<open>Stale_Objects\<close>, which is about
  its default settings \<open>orm_default\<close>. SHA-256, \<open>uuid5\<close>, git and the file
  system are arguments without hypotheses.

  \<^bold>\<open>Loops and bounds.\<close> Fuel is used by the JSON scanner alone: twice the length of the text, which
  \<open>json_loads_total\<close> shows to be enough for every text. Otherwise the retry loop of \<open>place_order\<close> recurses on the number of
  attempts left, \<open>run_forever\<close>, \<open>consumer_run_forever\<close> and the histories of the
  gateway and of the settings recurse on the list of what happens, and parsers on their input. Integer columns are checked at their width
  (\<open>int32_ok\<close>, \<open>int64_ok\<close>) by every flush; Python's own integers are unbounded. Strings are sequences
  of 8-bit characters, read as Latin-1: lower case, whitespace, line breaks and the tests for letters,
  digits and capitals are those of Python on these characters, upper case is that of ASCII. The
  sliding window has two clocks, the client's for the window and the server's for the keys; the bound on
  the requests let through allows them to drift apart by less than a second.

  \<^bold>\<open>Not modelled.\<close> Routing and the request parsing of FastAPI (the router is a parameter); what
  Alembic and SQLAlchemy do inside the calls of a migration; floating-point numbers, the
  \<open>default=str\<close> of the canonical text and characters beyond Latin-1 in JSON documents, and Python's
  recursion limit; what PostgreSQL does to a JSONB document (the payload of an outbox row is read back as
  it was stored, while JSONB forgets the order of the keys, on which neither reading the envelope nor its
  content hash depends); tokens signed with PEM or SSH keys; how Pydantic reads the environment; argument
  parsing and printed output of the scripts; sleeping; what structlog does with a record that is
  written. Of timeouts the model has only that a stop may run into one, and of the disposal of a
  generator that was left only that it happens later.
\<close>

section \<open>From the service to the consumer\<close>

text \<open>The message of a processed row decodes to the envelope whose dump the row holds.\<close>

lemma logged_decodes:
  assumes "codec_ok C" and "logged C msgs r" and "ob_payload r = cd_dump C env" and "envelope_valid env"
  shows "\<exists>m\<in>set msgs. wm_topic m = ob_topic r \<and> cd_from_bytes C (wm_value m) = Inr env
    \<and> wm_key m = aggregate_id env"
proof -
  have c: "cd_validate C (cd_dump C env) = Inr env" "cd_from_bytes C (cd_to_bytes C env) = Inr env"
    using assms(1,4) by (simp_all add: codec_ok_def)
  with assms(2,3) obtain m where "m \<in> set msgs" "wm_topic m = ob_topic r"
    "wm_value m = cd_to_bytes C env" "wm_key m = aggregate_id env" by (auto simp: logged_def)
  with c(2) show ?thesis by (metis (no_types))
qed

text \<open>
  C5: A payment event reaches the consumers as it was written. Let the outbox row of a successful
  \<open>process_payment\<close> be in the table, and let any number of relays work on the table from there on, in any
  interleaving, with broker outages, rejected messages, failed commits, dying relays and rows inserted
  meanwhile, as long as the Kafka driver raises only Kafka errors in the batches that are brought to an
  end. Once the row with that identifier is marked processed, the broker's log has a message on
  \<open>payments.events\<close>, keyed by the payment, whose bytes decode to exactly the envelope that
  \<open>process_payment\<close> returned.
\<close>

theorem payment_event_reaches_consumers:
  assumes "codec_ok C"
    and "fst (process_payment R C lio eio req (br, s)) = Inr out"
    and "pending_payment (pp_payment_id req) (se_pending s) = None"
    and "fleet_runs C cfg as f0" and "list_all kafka_errors_only as" and "fleet_inv C f0"
    and "ppr_outbox_event out \<in> set (fl_table f0)"
    and "r \<in> set (fl_table (fleet_after C cfg as f0))" and "ob_id r = ob_id (ppr_outbox_event out)"
    and "ob_processed r"
  shows "\<exists>m\<in>set (fl_log (fleet_after C cfg as f0)). wm_topic m = ''payments.events''
    \<and> cd_from_bytes C (wm_value m) = Inr (ppr_envelope out)
    \<and> wm_key m = str_uuid (p_id (ppr_payment out))"
proof -
  from process_payment_accepted [OF assms(2,3)]
  have env: "envelope_valid (ppr_envelope out)"
    "aggregate_id (ppr_envelope out) = str_uuid (p_id (ppr_payment out))"
    "ob_payload (ppr_outbox_event out) = cd_dump C (ppr_envelope out)"
    "ob_topic (ppr_outbox_event out) = ''payments.events''" by auto
  have inv: "fleet_inv C (fleet_after C cfg as f0)" by (rule fleet_runs_inv [OF assms(4-6)])
  have "fleet_wf f0" using assms(6) by (simp add: fleet_inv_def)
  from fleet_keeps_event [OF assms(4) this assms(7-9)]
  have same: "ob_topic r = ''payments.events''" "ob_payload r = cd_dump C (ppr_envelope out)"
    using env(3,4) by simp_all
  have "logged C (fl_log (fleet_after C cfg as f0)) r" using inv assms(8,10) by (simp add: fleet_inv_def)
  from logged_decodes [OF assms(1) this same(2) env(1)] show ?thesis unfolding same(1) env(2) .
qed

text \<open>The row of the example payment, in the table of one relay that sends it.\<close>

definition waiting_row :: outbox_event where
  "waiting_row = ppr_outbox_event (projr (fst (demo_run P_AUTHORIZED)))"

definition captured_fleet :: "json fleet" where
  "captured_fleet = \<lparr>fl_table = [waiting_row], fl_log = [],
     fl_producer = \<lparr>pr_started = True, pr_producer = True, pr_bootstrap_servers = []\<rparr>, fl_claims = [[]]\<rparr>"

definition one_relay :: "fleet_action list" where
  "one_relay = [Claim 0, Finish 0 (demo_tick (\<lambda>k. Ack 0 0))]"

theorem payment_event_reaches_consumers_witness:
  "\<exists>m\<in>set (fl_log (fleet_after json_codec demo_cfg one_relay captured_fleet)).
     cd_from_bytes json_codec (wm_value m) = Inr (ppr_envelope (projr (fst (demo_run P_AUTHORIZED))))"
proof -
  let ?f = "fleet_after json_codec demo_cfg one_relay captured_fleet"
  have pend: "pending_payment (pp_payment_id capture_request) (se_pending (one_payment P_AUTHORIZED)) = None"
    by code_simp
  have row: "\<not> ob_processed waiting_row" "\<not> ob_failed waiting_row" unfolding waiting_row_def by code_simp+
  then have inv: "fleet_inv json_codec captured_fleet"
    by (simp add: fleet_inv_def fleet_wf_def held_def captured_fleet_def)
  have "fl_claims (fleet_act json_codec demo_cfg (Claim 0) captured_fleet) = [[waiting_row]]"
    using row by (simp add: captured_fleet_def claim_batch_def demo_cfg_def claimable_def held_def)
  then have run: "fleet_runs json_codec demo_cfg one_relay captured_fleet"
    by (simp add: one_relay_def captured_fleet_def)
  have err: "list_all kafka_errors_only one_relay" by (simp add: one_relay_def send_expected_def)
  have start: "waiting_row \<in> set (fl_table captured_fleet)" by (simp add: captured_fleet_def)
  have "length (fl_table ?f) = 1 \<and> map ob_processed (fl_table ?f) = [True]
      \<and> map ob_id (fl_table ?f) = [ob_id waiting_row]"
    unfolding captured_fleet_def waiting_row_def by code_simp
  then obtain r where "r \<in> set (fl_table ?f)" "ob_id r = ob_id waiting_row" "ob_processed r"
    by (cases "fl_table ?f") auto
  from payment_event_reaches_consumers [OF json_codec_ok demo_run_ok [unfolded demo_run_def] pend run err inv
      start [unfolded waiting_row_def demo_run_def] this(1) this(2) [unfolded waiting_row_def demo_run_def] this(3)]
  show ?thesis unfolding demo_run_def by blast
qed

section \<open>The order saga\<close>

lemma others_commit_pow_quiet: "se_env s = [] \<Longrightarrow> (others_commit ^^ n) s = s"
  by (induction n) simp_all

text \<open>The database after an order that was placed and committed in a quiet session.\<close>

lemma placed_order_db:
  assumes "place_order M C io req (new_session d [] now) = (Inr out, s1)"
    and "session_commit None s1 = (Inr u, s2)" and "stock_t d (po_stock_id req) = Some row"
  shows "stock_t (se_db s2) = (stock_t d)(po_stock_id req \<mapsto>
      row\<lparr>st_available := st_available row - po_quantity req, st_version := st_version row + 1,
          st_updated_at := now\<rparr>)"
    and "orders_t (se_db s2) = (orders_t d)(pio_order_id io \<mapsto> pr_order out)"
    and "or_id (pr_order out) = pio_order_id io" and "or_status (pr_order out) = O_RESERVED"
    and "or_stock_id (pr_order out) = po_stock_id req" and "or_quantity (pr_order out) = po_quantity req"
    and "order_columns_ok (pr_order out)" and "order_checks (pr_order out)"
    and "po_quantity req \<le> st_available row" and "0 < po_quantity req"
proof -
  have q: "se_env (new_session d [] now) = []" "se_pending (new_session d [] now) = []" by simp_all
  from place_order_success [OF assms(1) q(2)] obtain k row' where
    row': "stock_t (view ((others_commit ^^ k) (new_session d [] now))) (po_stock_id req) = Some row'"
    and qty: "0 < po_quantity req" "po_quantity req \<le> st_available row'"
    and w: "order_written C io req (new_session d [] now) row' out s1" by metis
  have "row' = row" using row' assms(3) by (simp add: others_commit_pow_quiet [OF q(1)])
  note frame = place_order_quiet [OF assms(1) q(1)]
  have "se_pending s1 = []" using w by (simp add: order_written_def)
  from commit_flushed [OF assms(2) this] frame have db: "se_db s2 = view s1" by simp
  show "stock_t (se_db s2) = (stock_t d)(po_stock_id req \<mapsto>
      row\<lparr>st_available := st_available row - po_quantity req, st_version := st_version row + 1,
          st_updated_at := now\<rparr>)"
    and "orders_t (se_db s2) = (orders_t d)(pio_order_id io \<mapsto> pr_order out)"
    and "or_id (pr_order out) = pio_order_id io" and "or_status (pr_order out) = O_RESERVED"
    and "or_stock_id (pr_order out) = po_stock_id req" and "or_quantity (pr_order out) = po_quantity req"
    and "order_columns_ok (pr_order out)" and "order_checks (pr_order out)"
    and "po_quantity req \<le> st_available row" and "0 < po_quantity req"
    using w frame qty by (simp_all add: db order_written_def \<open>row' = row\<close>)
qed

text \<open>
  C4: The saga conserves stock. Place an order and commit it; when the payment fails and the consumer
  handles the event, the order is FAILED and the stock row has as many units as before the order;
  every other stock row and every other order is untouched.
\<close>

theorem saga_conserves_stock:
  assumes "place_order M C io req (new_session d [] now) = (Inr out, s1)"
    and "session_commit None s1 = (Inr u, s2)"
    and "stock_t d (po_stock_id req) = Some row" and "stock_checks row" and "stock_columns_ok row"
    and "int32_ok (st_version row + 1)"
    and "order_event env (pio_order_id io)" and "mi_env mio = []" and "mi_commit mio = None"
  shows "\<exists>d3. run_handler mio (on_payment_failed M') env (se_db s2) = (Inr (), d3)
    \<and> map_option st_available (stock_t d3 (po_stock_id req)) = Some (st_available row)
    \<and> map_option or_status (orders_t d3 (pio_order_id io)) = Some O_FAILED
    \<and> (\<forall>k. k \<noteq> po_stock_id req \<longrightarrow> stock_t d3 k = stock_t d k)
    \<and> (\<forall>k. k \<noteq> pio_order_id io \<longrightarrow> orders_t d3 k = orders_t d k)"
proof -
  note p = placed_order_db [OF assms(1-3)]
  let ?x = "pr_order out" and ?y = "row\<lparr>st_available := st_available row - po_quantity req,
    st_version := st_version row + 1, st_updated_at := now\<rparr>"
  have ord: "orders_t (se_db s2) (pio_order_id io) = Some ?x" using p(2) by simp
  have stk: "stock_t (se_db s2) (or_stock_id ?x) = Some ?y" using p(1,5) by simp
  have ok: "stock_checks ?y" "stock_columns_ok ?y" "int32_ok (st_available ?y + or_quantity ?x)"
    using assms(4-6) p(6,9,10) by (auto simp: stock_checks_def stock_columns_ok_def int32_ok_def)
  have tr: "order_transition (or_status ?x) O_FAILED" using p(4) by (simp add: order_transition_iff)
  from failed_effect [OF assms(7) ord p(3,7,8) stk ok assms(8,9) HOL.refl, of M'] tr
  show ?thesis using p(1,2,5,6) by (simp add: p(5))
qed

theorem saga_conserves_stock_witness:
  "\<exists>s2 d3. session_commit None (snd (demo_order 2)) = (Inr (), s2)
     \<and> run_handler (quiet_msg 20) (on_payment_failed orm_default) (payment_event ''payments.payment_failed'') (se_db s2) = (Inr (), d3)
     \<and> map_option st_available (stock_t d3 4) = Some 5"
proof -
  have "\<not> isl (fst (session_commit None (snd (demo_order 2))))" by code_simp
  then obtain s2 where c: "session_commit None (snd (demo_order 2)) = (Inr (), s2)"
    by (cases "session_commit None (snd (demo_order 2))"; cases "fst (session_commit None (snd (demo_order 2)))") auto
  have row: "stock_t (shelf 5 1) (po_stock_id (buy 2)) = Some shelved" "int32_ok (st_version shelved + 1)"
    by (simp_all add: shelf_def buy_def shelved_def int32_ok_def)
  have ev: "order_event (payment_event ''payments.payment_failed'') (pio_order_id demo_place_io)"
    using payment_event_order by (simp add: demo_place_io_def)
  from saga_conserves_stock [OF demo_order_ok [unfolded demo_order_def] c [unfolded demo_order_def] row(1)
      order_book_facts(9,10) row(2) ev, of "quiet_msg 20" orm_default] c
  show ?thesis by (auto simp: quiet_msg_def buy_def order_book_facts)
qed

end
